(* ===== verification/Prelude.thy ===== *)
theory Prelude
  imports Main "HOL-Library.Word" "HOL-Library.Signed_Division"
begin

text \<open>
  Shared vocabulary of the development: the machine integer types of the Rust sources, Rust's
  \<open>Result\<close>, the outcome of an evaluation that may panic, early returns, and the integer operations of
  the standard library the sources use.

  Unsigned and signed integers of the same width share one HOL type, \<open>'w word\<close>; a signed value is
  read with \<open>sint\<close>.  Unchecked arithmetic (\<open>a - b\<close>, \<open>a += 1\<close>) panics on overflow when the crate is
  compiled with overflow checks and wraps around otherwise, so every definition that contains unchecked
  arithmetic takes the flag \<open>oc\<close> (overflow checks) as its first argument, and the theorems hold for
  both values of it.
\<close>

unbundle bit_operations_syntax

section \<open>Machine integers\<close>

type_synonym u8 = "8 word"
type_synonym u16 = "16 word"
type_synonym u32 = "32 word"
type_synonym u64 = "64 word"
type_synonym i16 = "16 word"
type_synonym i32 = "32 word"
type_synonym i64 = "64 word"

text \<open>The callback \<open>FnMut(u64) -> Result<u64, ()>\<close> that reads a word of the stack: a fixed view of the stack memory.\<close>

type_synonym stack_reader = "u64 \<Rightarrow> u64 option"

named_theorems rust_arith "definitions of the integer operations of the Rust standard library"

section \<open>Results, panics and early returns\<close>

datatype ('a, 'e) result = Ok 'a | Err 'e

text \<open>Why an evaluation has no value: a panic of the compiled program, or (\<open>Diverges\<close>) a loop that never ends.\<close>

datatype panic = ArithmeticOverflow | DivisionByZero | IndexOutOfBounds | UnwrapFailed | Diverges

datatype 'a outcome = Val 'a | Panic panic

datatype ('c, 'r) flow = Continue 'c | Return 'r

primrec obind :: "'a outcome \<Rightarrow> ('a \<Rightarrow> 'b outcome) \<Rightarrow> 'b outcome" where
  "obind (Val x) f = f x"
| "obind (Panic p) f = Panic p"

primrec map_result :: "('a \<Rightarrow> 'b) \<Rightarrow> ('a, 'e) result \<Rightarrow> ('b, 'e) result" where
  "map_result f (Ok x) = Ok (f x)"
| "map_result f (Err e) = Err e"

primrec map_err :: "('e \<Rightarrow> 'f) \<Rightarrow> ('a, 'e) result \<Rightarrow> ('a, 'f) result" where
  "map_err f (Ok x) = Ok x"
| "map_err f (Err e) = Err (f e)"

primrec ok_or :: "'a option \<Rightarrow> 'e \<Rightarrow> ('a, 'e) result" where
  "ok_or (Some x) e = Ok x"
| "ok_or None e = Err e"

primrec unwrap_or :: "'a option \<Rightarrow> 'a \<Rightarrow> 'a" where
  "unwrap_or (Some x) d = x"
| "unwrap_or None d = d"

abbreviation no_panic :: "'a outcome \<Rightarrow> bool" where
  "no_panic m \<equiv> (\<exists>x. m = Val x)"

lemma obind_Val_iff [simp]: "obind m f = Val y \<longleftrightarrow> (\<exists>x. m = Val x \<and> f x = Val y)"
  by (cases m) auto

lemma obind_Panic_iff: "obind m f = Panic p \<longleftrightarrow> m = Panic p \<or> (\<exists>x. m = Val x \<and> f x = Panic p)"
  by (cases m) auto

lemma obind_split: "P (obind m f) \<longleftrightarrow> (\<forall>x. m = Val x \<longrightarrow> P (f x)) \<and> (\<forall>p. m = Panic p \<longrightarrow> P (Panic p))"
  by (cases m) auto

lemma obind_assoc: "obind (obind m f) g = obind m (\<lambda>x. obind (f x) g)"
  by (cases m) auto

lemma no_panic_iff: "no_panic m \<longleftrightarrow> (\<forall>p. m \<noteq> Panic p)"
  by (cases m) auto

lemma obind_cong [fundef_cong]:
  "m = m' \<Longrightarrow> (\<And>x. m' = Val x \<Longrightarrow> f x = f' x) \<Longrightarrow> obind m f = obind m' f'"
  by (cases m') auto

section \<open>Integer operations\<close>

text \<open>\<open>checked_add\<close>, \<open>checked_sub\<close>: exact, or \<open>None\<close> on overflow.\<close>

definition checked_add :: "'a::len word \<Rightarrow> 'a word \<Rightarrow> 'a word option" where
  [rust_arith]: "checked_add a b = (if uint a + uint b < 2 ^ LENGTH('a) then Some (a + b) else None)"

definition checked_sub :: "'a::len word \<Rightarrow> 'a word \<Rightarrow> 'a word option" where
  [rust_arith]: "checked_sub a b = (if b \<le> a then Some (a - b) else None)"

text \<open>Signed \<open>checked_add\<close>.\<close>

definition in_signed_range :: "nat \<Rightarrow> int \<Rightarrow> bool" where
  "in_signed_range w i \<longleftrightarrow> - (2 ^ (w - 1)) \<le> i \<and> i < 2 ^ (w - 1)"

definition checked_iadd :: "'a::len word \<Rightarrow> 'a word \<Rightarrow> 'a word option" where
  [rust_arith]: "checked_iadd a b =
     (if in_signed_range LENGTH('a) (sint a + sint b) then Some (a + b) else None)"

text \<open>Unchecked \<open>+\<close>, \<open>-\<close> on unsigned and on signed integers.\<close>

definition add_oc :: "bool \<Rightarrow> 'a::len word \<Rightarrow> 'a word \<Rightarrow> 'a word outcome" where
  [rust_arith]: "add_oc oc a b =
     (if oc \<and> \<not> uint a + uint b < 2 ^ LENGTH('a) then Panic ArithmeticOverflow else Val (a + b))"

definition sub_oc :: "bool \<Rightarrow> 'a::len word \<Rightarrow> 'a word \<Rightarrow> 'a word outcome" where
  [rust_arith]: "sub_oc oc a b = (if oc \<and> a < b then Panic ArithmeticOverflow else Val (a - b))"

definition iadd_oc :: "bool \<Rightarrow> 'a::len word \<Rightarrow> 'a word \<Rightarrow> 'a word outcome" where
  [rust_arith]: "iadd_oc oc a b =
     (if oc \<and> \<not> in_signed_range LENGTH('a) (sint a + sint b) then Panic ArithmeticOverflow
      else Val (a + b))"

definition isub_oc :: "bool \<Rightarrow> 'a::len word \<Rightarrow> 'a word \<Rightarrow> 'a word outcome" where
  [rust_arith]: "isub_oc oc a b =
     (if oc \<and> \<not> in_signed_range LENGTH('a) (sint a - sint b) then Panic ArithmeticOverflow
      else Val (a - b))"

text \<open>Signed division truncates towards zero; a signed divisor other than \<open>0\<close> and \<open>-1\<close> cannot overflow.\<close>

definition idiv :: "'a::len word \<Rightarrow> 'a word \<Rightarrow> 'a word" where
  [rust_arith]: "idiv a b = word_of_int (sint a sdiv sint b)"

text \<open>\<open>try_from\<close> conversions between integer types.\<close>

definition u64_to_u32 :: "u64 \<Rightarrow> u32 option" where
  [rust_arith]: "u64_to_u32 x = (if x \<le> 0xFFFFFFFF then Some (ucast x) else None)"

definition u32_to_u16 :: "u32 \<Rightarrow> u16 option" where
  [rust_arith]: "u32_to_u16 x = (if x \<le> 0xFFFF then Some (ucast x) else None)"

definition signed_to_u16 :: "'a::len word \<Rightarrow> u16 option" where
  [rust_arith]: "signed_to_u16 x = (if 0 \<le> sint x \<and> sint x \<le> 65535 then Some (word_of_int (sint x)) else None)"

definition signed_to_i16 :: "'a::len word \<Rightarrow> i16 option" where
  [rust_arith]: "signed_to_i16 x =
     (if - 32768 \<le> sint x \<and> sint x \<le> 32767 then Some (word_of_int (sint x)) else None)"

definition u64_to_i64 :: "u64 \<Rightarrow> i64 option" where
  [rust_arith]: "u64_to_i64 x = (if 0 \<le> sint x then Some x else None)"

definition i64_to_u64 :: "i64 \<Rightarrow> u64 option" where
  [rust_arith]: "i64_to_u64 x = (if 0 \<le> sint x then Some x else None)"

text \<open>\<open>u32::from_le_bytes\<close>.\<close>

definition u32_from_le_bytes :: "u8 \<Rightarrow> u8 \<Rightarrow> u8 \<Rightarrow> u8 \<Rightarrow> u32" where
  "u32_from_le_bytes b0 b1 b2 b3 =
     ucast b0 OR push_bit 8 (ucast b1) OR push_bit 16 (ucast b2) OR push_bit 24 (ucast b3)"

section \<open>Facts about the integer operations\<close>

lemma checked_add_Some_iff:
  "checked_add a b = Some c \<longleftrightarrow> uint c = uint a + uint (b :: 'a::len word)"
proof
  assume "checked_add a b = Some c"
  then show "uint c = uint a + uint b"
    by (auto simp: checked_add_def uint_word_ariths split: if_splits)
next
  assume *: "uint c = uint a + uint b"
  moreover have "uint c < 2 ^ LENGTH('a)" by (rule uint_lt2p)
  moreover from * have "c = a + b" by (metis word_of_int_uint wi_hom_syms(1))
  ultimately show "checked_add a b = Some c" by (simp add: checked_add_def)
qed

lemma checked_add_None_iff:
  "checked_add a b = None \<longleftrightarrow> 2 ^ LENGTH('a) \<le> uint a + uint (b :: 'a::len word)"
  by (auto simp: checked_add_def)

lemma checked_add_SomeD:
  assumes "checked_add a b = Some c"
  shows "c = a + b" "a \<le> c" "b \<le> c"
proof -
  from assms show "c = a + b" by (simp add: checked_add_def split: if_splits)
  from assms have "uint c = uint a + uint b" by (simp add: checked_add_Some_iff)
  then show "a \<le> c" "b \<le> c" by (simp_all add: word_le_def)
qed

lemma checked_add_gt:
  assumes "checked_add a b = Some c" "b \<noteq> 0"
  shows "a < c"
proof -
  from assms(2) have "0 < uint b" by (metis order_less_le uint_0_iff uint_ge_0)
  with assms(1) show ?thesis by (simp add: checked_add_Some_iff word_less_def)
qed

lemma checked_sub_Some_iff:
  "checked_sub a b = Some c \<longleftrightarrow> uint c = uint a - uint (b :: 'a::len word)"
proof
  assume "checked_sub a b = Some c"
  then show "uint c = uint a - uint b"
    by (auto simp: checked_sub_def uint_minus_simple_alt split: if_splits)
next
  assume *: "uint c = uint a - uint b"
  then have "b \<le> a" by (metis diff_ge_0_iff_ge uint_ge_0 word_le_def)
  moreover from * have "c = a - b" by (metis word_of_int_uint wi_hom_syms(2))
  ultimately show "checked_sub a b = Some c" by (simp add: checked_sub_def)
qed

lemma sub_oc_no_panic [simp]: "b \<le> a \<Longrightarrow> sub_oc oc a b = Val (a - b)"
  by (auto simp: sub_oc_def)

lemma sub_oc_ValD: "sub_oc oc a b = Val x \<Longrightarrow> x = a - b"
  by (simp add: sub_oc_def split: if_splits)

lemma add_oc_ValD: "add_oc oc a b = Val x \<Longrightarrow> x = a + b"
  by (simp add: add_oc_def split: if_splits)

lemma sub_oc_False [simp]: "sub_oc False a b = Val (a - b)"
  by (simp add: sub_oc_def)

lemma add_oc_False [simp]: "add_oc False a b = Val (a + b)"
  by (simp add: add_oc_def)

lemma add_oc_checked: "checked_add a b = Some c \<Longrightarrow> add_oc oc a b = Val c"
  by (auto simp: checked_add_def add_oc_def split: if_splits)


lemma uint_of_range: "0 \<le> i \<Longrightarrow> i < 2 ^ LENGTH('a) \<Longrightarrow> uint (word_of_int i :: 'a::len word) = i"
  unfolding uint_word_of_int by (rule mod_pos_pos_trivial)

lemma sint_of_range: "in_signed_range LENGTH('a) i \<Longrightarrow> sint (word_of_int i :: 'a::len word) = i"
proof -
  assume *: "in_signed_range LENGTH('a) i"
  have "(2 :: int) ^ LENGTH('a) = 2 * 2 ^ (LENGTH('a) - 1)" by (simp flip: power_Suc)
  with * have "(i + 2 ^ (LENGTH('a) - 1)) mod 2 ^ LENGTH('a) = i + 2 ^ (LENGTH('a) - 1)"
    by (intro mod_pos_pos_trivial) (auto simp: in_signed_range_def)
  then show ?thesis unfolding int_word_sint by simp
qed

lemma sint_eq_uint:
  assumes "uint x < 2 ^ (LENGTH('a) - 1)"
  shows "sint x = uint (x :: 'a::len word)"
proof -
  have "in_signed_range LENGTH('a) (uint x)" using assms by (simp add: in_signed_range_def order_trans [of _ 0])
  from sint_of_range [OF this] show ?thesis by simp
qed

lemma uint_eq_sint:
  assumes "0 \<le> sint (x :: 'a::len word)"
  shows "uint x = sint x"
proof -
  have "sint x < 2 ^ LENGTH('a)"
    using sint_lt [of x] power_increasing [of "LENGTH('a) - 1" "LENGTH('a)" "2 :: int"] by linarith
  from uint_of_range [OF assms this] show ?thesis by simp
qed

lemma sint_nonneg_iff: "0 \<le> sint x \<longleftrightarrow> uint x < 2 ^ (LENGTH('a) - 1)" for x :: "'a::len word"
  using sint_eq_uint [of x] uint_eq_sint [of x] sint_lt [of x] by auto

lemma sint_in_signed_range: "in_signed_range LENGTH('a) (sint (x :: 'a::len word))"
  using sint_lt [of x] sint_ge [of x] by (simp add: in_signed_range_def)

lemma uint_ucast_wide:
  "LENGTH('a::len) \<le> LENGTH('b::len) \<Longrightarrow> uint (ucast (x :: 'a word) :: 'b word) = uint x"
proof -
  assume "LENGTH('a) \<le> LENGTH('b)"
  then have "(2 :: int) ^ LENGTH('a) \<le> 2 ^ LENGTH('b)" by (rule power_increasing) simp
  then have "uint x < 2 ^ LENGTH('b)" using uint_lt2p [of x] by linarith
  then show ?thesis unfolding ucast_eq by (intro uint_of_range) simp_all
qed

lemma u64_to_u32_Some_iff: "u64_to_u32 x = Some y \<longleftrightarrow> uint x = uint y"
proof
  assume "u64_to_u32 x = Some y"
  then have "x \<le> 0xFFFFFFFF" "y = ucast x" by (auto simp: u64_to_u32_def split: if_splits)
  then show "uint x = uint y"
    by (simp add: word_le_def unsigned_ucast_eq take_bit_int_eq_self)
next
  assume e: "uint x = uint y"
  then have "uint x < 2 ^ 32" using uint_lt2p [of y] by simp
  moreover have "ucast x = y" using e unfolding ucast_eq by simp
  ultimately show "u64_to_u32 x = Some y" by (simp add: u64_to_u32_def word_le_def)
qed

lemma uint_pos_iff: "0 < uint x \<longleftrightarrow> x \<noteq> 0"
  by (metis order_less_le uint_0_iff uint_ge_0)

text \<open>A statement about a byte is checked on all of them.\<close>

lemma all_bytes: "list_all (\<lambda>n. P (of_nat n :: u8)) [0..<256] \<Longrightarrow> P b"
proof -
  assume l: "list_all (\<lambda>n. P (of_nat n :: u8)) [0..<256]"
  have "unat b < 2 ^ 8" using unsigned_less [where w = b] by simp
  then have "unat b \<in> set [0..<256]" by simp
  with l have "P (of_nat (unat b))" unfolding list_all_iff by blast
  then show ?thesis by simp
qed

text \<open>Division by a positive constant that divides evenly, followed by a narrowing conversion.\<close>

lemma sint_idiv_exact:
  fixes a :: "'a::len word" and d :: nat
  assumes "int d dvd sint a" "0 < d" "int d < 2 ^ (LENGTH('a) - 1)"
  shows "int d * sint (idiv a (of_nat d)) = sint a"
proof -
  obtain k where k: "sint a = int d * k" using assms(1) by (auto simp: dvd_def)
  have d: "sint (of_nat d :: 'a word) = int d"
  proof -
    have "- (2 ^ (LENGTH('a) - 1)) \<le> (0 :: int)" by simp
    then have "in_signed_range LENGTH('a) (int d)"
      unfolding in_signed_range_def using assms(2,3) by linarith
    from sint_of_range [OF this] show ?thesis by simp
  qed
  have q: "sint a sdiv int d = k"
  proof (cases "k = 0")
    case False
    then have "sgn (int d * k) = sgn k" "\<bar>int d * k\<bar> div int d = \<bar>k\<bar>" using assms(2) by (simp_all add: sgn_mult abs_mult)
    then show ?thesis using assms(2) by (simp add: signed_divide_int_def k sgn_mult_abs)
  qed (simp add: signed_divide_int_def k)
  have "in_signed_range LENGTH('a) k"
  proof -
    have "1 \<le> int d" using assms(2) by simp
    then have "\<bar>k\<bar> \<le> int d * \<bar>k\<bar>" by (metis abs_ge_zero mult_1 mult_right_mono)
    then have "\<bar>k\<bar> \<le> \<bar>sint a\<bar>" using assms(2) by (simp add: k abs_mult)
    moreover have "k < 0 \<longleftrightarrow> sint a < 0" using assms(2) by (simp add: k mult_less_0_iff)
    moreover have "- (2 ^ (LENGTH('a) - 1)) \<le> sint a" "sint a < 2 ^ (LENGTH('a) - 1)"
      using sint_in_signed_range [of a] by (simp_all add: in_signed_range_def)
    moreover have "(0 :: int) < 2 ^ (LENGTH('a) - 1)" by simp
    ultimately show ?thesis unfolding in_signed_range_def by linarith
  qed
  then have "sint (idiv a (of_nat d)) = k" unfolding idiv_def d q by (rule sint_of_range)
  with k show ?thesis by simp
qed

lemmas sint_idiv_dvd = sint_idiv_exact [where 'a = 64, simplified]

lemma signed_to_u16_Some_iff: "signed_to_u16 x = Some y \<longleftrightarrow> sint x = uint y"
proof
  assume "signed_to_u16 x = Some y"
  then have "0 \<le> sint x" "sint x < 2 ^ 16" "y = word_of_int (sint x)" by (auto simp: signed_to_u16_def split: if_splits)
  then show "sint x = uint y" using uint_of_range [of "sint x", where 'a = 16] by simp
next
  assume e: "sint x = uint y"
  then have "sint x \<le> 65535" using uint_lt2p [of y] by simp
  with e show "signed_to_u16 x = Some y" by (simp add: signed_to_u16_def)
qed

lemma signed_to_i16_Some_iff: "signed_to_i16 x = Some y \<longleftrightarrow> sint x = sint y"
proof
  assume "signed_to_i16 x = Some y"
  then have "in_signed_range 16 (sint x)" "y = word_of_int (sint x)"
    by (auto simp: signed_to_i16_def in_signed_range_def split: if_splits)
  then show "sint x = sint y" using sint_of_range [of "sint x", where 'a = 16] by simp
next
  assume e: "sint x = sint y"
  then have "- 32768 \<le> sint x" "sint x \<le> 32767" using sint_lt [of y] sint_ge [of y] by simp_all
  with e show "signed_to_i16 x = Some y" by (simp add: signed_to_i16_def)
qed

lemma iadd_oc_exact:
  fixes a b :: "'a::len word"
  assumes "iadd_oc oc a b = Val c" "in_signed_range LENGTH('a) (sint a + sint b)"
  shows "sint c = sint a + sint b"
proof -
  have "c = word_of_int (sint a + sint b)" using assms(1) by (simp add: iadd_oc_def split: if_splits)
  with sint_of_range [OF assms(2)] show ?thesis by metis
qed

lemma isub_oc_exact:
  fixes a b :: "'a::len word"
  assumes "in_signed_range LENGTH('a) (sint a - sint b)"
  shows "\<exists>c. isub_oc oc a b = Val c \<and> sint c = sint a - sint b"
proof -
  have "isub_oc oc a b = Val (word_of_int (sint a - sint b))" using assms by (simp add: isub_oc_def)
  with sint_of_range [OF assms] show ?thesis by metis
qed

lemma iadd_oc_Val:
  fixes a b :: "'a::len word"
  assumes "in_signed_range LENGTH('a) (sint a + sint b)"
  shows "\<exists>c. iadd_oc oc a b = Val c \<and> sint c = sint a + sint b"
proof -
  have "iadd_oc oc a b = Val (word_of_int (sint a + sint b))" using assms by (simp add: iadd_oc_def)
  with sint_of_range [OF assms] show ?thesis by metis
qed

section \<open>Encoders and decoders\<close>

text \<open>What a client of a partial encoder relies on: whatever was encoded decodes to itself.\<close>

locale codec =
  fixes enc :: "'a \<Rightarrow> 'c option"
    and dec :: "'c \<Rightarrow> 'a outcome"
  assumes dec_enc: "enc x = Some c \<Longrightarrow> dec c = Val x"
begin

lemma enc_inj: "enc x = Some c \<Longrightarrow> enc y = Some c \<Longrightarrow> x = y"
  using dec_enc by (metis outcome.inject(1))

lemma dec_enc_no_panic: "enc x = Some c \<Longrightarrow> no_panic (dec c)"
  using dec_enc by blast

end

end
