(* ===== verification/A64Regs.thy ===== *)
theory A64Regs
  imports Prelude
begin

text \<open>
  \<^verbatim>\<open>src/aarch64/unwindregs.rs\<close>: the register file of the aarch64 unwinder and the mask that strips pointer
  authentication bits from return addresses.  The newtype \<open>PtrAuthMask(u64)\<close> is its \<open>u64\<close>.
\<close>

type_synonym PtrAuthMask = u64

definition new_no_strip :: PtrAuthMask where
  "new_no_strip = - 1"

definition new_24_40 :: PtrAuthMask where
  "new_24_40 = drop_bit 24 (- 1)"

text \<open>\<open>u64::leading_zeros\<close>, and the shift of \<open>u64::MAX\<close> by a \<open>u32\<close> amount: a shift by 64 overflows, which
  panics with overflow checks and shifts by \<open>64 mod 64 = 0\<close> without.\<close>

definition leading_zeros :: "u64 \<Rightarrow> nat" where
  "leading_zeros a = length (takeWhile (\<lambda>i. \<not> bit a i) (rev [0..<64]))"

definition shr_oc :: "bool \<Rightarrow> u64 \<Rightarrow> nat \<Rightarrow> u64 outcome" where
  "shr_oc oc x n = (if n < 64 then Val (drop_bit n x)
                    else if oc then Panic ArithmeticOverflow else Val (drop_bit (n mod 64) x))"

definition from_max_known_address :: "bool \<Rightarrow> u64 \<Rightarrow> PtrAuthMask outcome" where
  "from_max_known_address oc a = shr_oc oc (- 1) (leading_zeros a)"

definition strip_ptr_auth :: "PtrAuthMask \<Rightarrow> u64 \<Rightarrow> u64" where
  "strip_ptr_auth m ptr = ptr AND m"

record UnwindRegsAarch64 =
  lr_mask :: PtrAuthMask
  a64_lr :: u64
  a64_sp :: u64
  a64_fp :: u64

definition new_regs_aarch64 :: "u64 \<Rightarrow> u64 \<Rightarrow> u64 \<Rightarrow> UnwindRegsAarch64" where
  "new_regs_aarch64 lr s f = \<lparr>lr_mask = new_no_strip, a64_lr = lr, a64_sp = s, a64_fp = f\<rparr>"

definition new_with_ptr_auth_mask :: "PtrAuthMask \<Rightarrow> u64 \<Rightarrow> u64 \<Rightarrow> u64 \<Rightarrow> UnwindRegsAarch64" where
  "new_with_ptr_auth_mask m lr s f =
     \<lparr>lr_mask = m, a64_lr = strip_ptr_auth m lr, a64_sp = s, a64_fp = f\<rparr>"

definition set_lr :: "u64 \<Rightarrow> UnwindRegsAarch64 \<Rightarrow> UnwindRegsAarch64" where
  "set_lr v r = r\<lparr>a64_lr := strip_ptr_auth (lr_mask r) v\<rparr>"

definition set_a64_sp :: "u64 \<Rightarrow> UnwindRegsAarch64 \<Rightarrow> UnwindRegsAarch64" where
  "set_a64_sp v r = r\<lparr>a64_sp := v\<rparr>"

definition set_a64_fp :: "u64 \<Rightarrow> UnwindRegsAarch64 \<Rightarrow> UnwindRegsAarch64" where
  "set_a64_fp v r = r\<lparr>a64_fp := v\<rparr>"

lemmas a64_setter_defs = set_lr_def set_a64_sp_def set_a64_fp_def

text \<open>The type invariant of the register file: the link register holds no stripped bits.\<close>

definition lr_stripped :: "UnwindRegsAarch64 \<Rightarrow> bool" where
  "lr_stripped r \<longleftrightarrow> strip_ptr_auth (lr_mask r) (a64_lr r) = a64_lr r"

lemma strip_ptr_auth_idem [simp]: "strip_ptr_auth m (strip_ptr_auth m p) = strip_ptr_auth m p"
  by (simp add: strip_ptr_auth_def and.assoc)

lemma strip_no_strip [simp]: "strip_ptr_auth new_no_strip p = p"
  by (simp add: strip_ptr_auth_def new_no_strip_def)

lemma lr_stripped_setters [simp]:
  "lr_stripped (new_regs_aarch64 lr s f)" "lr_stripped (new_with_ptr_auth_mask m lr s f)"
  "lr_stripped (set_lr v r)" "lr_stripped (set_a64_sp v r) = lr_stripped r"
  "lr_stripped (set_a64_fp v r) = lr_stripped r"
  by (simp_all add: lr_stripped_def new_regs_aarch64_def new_with_ptr_auth_mask_def a64_setter_defs)

lemma a64_getter_setter [simp]:
  "a64_lr (set_lr v r) = strip_ptr_auth (lr_mask r) v" "a64_lr (set_a64_sp v r) = a64_lr r"
  "a64_lr (set_a64_fp v r) = a64_lr r"
  "a64_sp (set_lr v r) = a64_sp r" "a64_sp (set_a64_sp v r) = v" "a64_sp (set_a64_fp v r) = a64_sp r"
  "a64_fp (set_lr v r) = a64_fp r" "a64_fp (set_a64_sp v r) = a64_fp r" "a64_fp (set_a64_fp v r) = v"
  "lr_mask (set_lr v r) = lr_mask r" "lr_mask (set_a64_sp v r) = lr_mask r" "lr_mask (set_a64_fp v r) = lr_mask r"
  by (simp_all add: a64_setter_defs)

lemma new_regs_aarch64_simps [simp]:
  "a64_lr (new_regs_aarch64 lr s f) = lr" "a64_sp (new_regs_aarch64 lr s f) = s"
  "a64_fp (new_regs_aarch64 lr s f) = f" "lr_mask (new_regs_aarch64 lr s f) = new_no_strip"
  by (simp_all add: new_regs_aarch64_def)

section \<open>Leading zeros\<close>

lemma takeWhile_rev_upt:
  "(\<forall>i<n. \<not> P i) \<longrightarrow> takeWhile (\<lambda>i. \<not> P i) (rev [0..<n]) = rev [0..<n]"
  by (induction n) auto

lemma length_takeWhile_rev_upt:
  "k < n \<Longrightarrow> P k \<Longrightarrow> (\<forall>i. k < i \<longrightarrow> i < n \<longrightarrow> \<not> P i) \<Longrightarrow>
   length (takeWhile (\<lambda>i. \<not> P i) (rev [0..<n])) = n - Suc k"
proof (induction n)
  case (Suc n)
  then show ?case by (cases "k = n") (auto simp: Suc_diff_le less_Suc_eq)
qed simp

lemma leading_zeros_0: "leading_zeros 0 = 64"
proof -
  have "takeWhile (\<lambda>i. \<not> bit (0 :: u64) i) (rev [0..<64]) = rev [0..<64]"
    using takeWhile_rev_upt [of 64 "bit (0 :: u64)"] by simp
  then show ?thesis by (simp only: leading_zeros_def) simp
qed

lemma highest_bit:
  assumes "(a :: u64) \<noteq> 0"
  obtains k where "k < 64" "bit a k" "\<forall>i. k < i \<longrightarrow> \<not> bit a i"
proof -
  let ?S = "{i. bit a i}"
  have "?S \<subseteq> {..<64}" using bit_imp_le_length [of a] by auto
  then have fin: "finite ?S" by (rule finite_subset) simp
  from assms have "?S \<noteq> {}" by (auto simp: bit_eq_iff)
  with fin have "Max ?S \<in> ?S" by (rule Max_in)
  then have b: "bit a (Max ?S)" by simp
  have "\<not> bit a i" if "Max ?S < i" for i
  proof
    assume "bit a i"
    then have "i \<le> Max ?S" using fin by (intro Max_ge) simp_all
    with that show False by simp
  qed
  moreover have "Max ?S < 64" using bit_imp_le_length [OF b] by simp
  ultimately show thesis using that b by blast
qed

lemma leading_zeros_bound:
  assumes "a \<noteq> 0"
  shows "leading_zeros a < 64" "uint a < 2 ^ (64 - leading_zeros a)"
proof -
  from assms obtain k where k: "k < 64" "bit a k" "\<forall>i. k < i \<longrightarrow> \<not> bit a i" by (rule highest_bit)
  then have lz: "leading_zeros a = 64 - Suc k"
    unfolding leading_zeros_def by (intro length_takeWhile_rev_upt) auto
  with k(1) show "leading_zeros a < 64" by simp
  have "a AND mask (Suc k) = a"
    by (rule bit_eqI) (use k(3) in \<open>auto simp: bit_and_iff bit_mask_iff less_Suc_eq_le linorder_not_less [symmetric]\<close>)
  then show "uint a < 2 ^ (64 - leading_zeros a)"
    using lz k(1) by (simp add: mask_eq_iff)
qed

lemma drop_bit_minus_1: "n < 64 \<Longrightarrow> drop_bit n (- 1 :: u64) = mask (64 - n)"
  by (rule bit_eqI) (auto simp: bit_drop_bit_eq bit_mask_iff bit_minus_1_iff)

section \<open>Properties\<close>

text \<open>
  C28: The mask deduced from the highest known code address strips no bit of any address up to it, so return
  addresses without authentication bits survive.
\<close>

theorem from_max_known_address_keeps_known_addresses:
  assumes "from_max_known_address oc a = Val m" and "p \<le> a"
  shows "strip_ptr_auth m p = p"
proof (cases "a = 0")
  case True
  with assms(2) have "p = 0" by (simp add: word_le_0_iff)
  then show ?thesis by (simp add: strip_ptr_auth_def)
next
  case False
  from leading_zeros_bound [OF False] assms(1) have m: "m = mask (64 - leading_zeros a)"
    by (auto simp: from_max_known_address_def shr_oc_def drop_bit_minus_1)
  have "uint p < 2 ^ (64 - leading_zeros a)"
    using leading_zeros_bound(2) [OF False] assms(2) by (simp add: word_le_def)
  then show ?thesis by (simp add: strip_ptr_auth_def m mask_eq_iff)
qed

theorem from_max_known_address_keeps_known_addresses_witness:
  "from_max_known_address True 0x22a3ccff7 = Val 0x3ffffffff \<and> strip_ptr_auth 0x3ffffffff 0x100003f80 = 0x100003f80"
proof -
  have "from_max_known_address True 0x22a3ccff7 = Val 0x3ffffffff"
    by code_simp
  with from_max_known_address_keeps_known_addresses [OF this, where p = "0x100003f80"] show ?thesis by simp
qed

text \<open>
  The mask computation panics exactly for the address 0 in a build with overflow checks; the unwinder's
  \<open>max_known_code_address\<close> returns that address when no module has been added.
\<close>

lemma from_max_known_address_panics_iff:
  "from_max_known_address oc a = Panic p \<longleftrightarrow> oc \<and> a = 0 \<and> p = ArithmeticOverflow"
  using leading_zeros_bound(1) [of a] leading_zeros_0
  by (cases "a = 0") (auto simp: from_max_known_address_def shr_oc_def)

end
