(* ===== verification/AddSigned.thy ===== *)
theory AddSigned
  imports Prelude
begin

text \<open>
  \<^verbatim>\<open>src/add_signed.rs\<close>: adding a signed offset to an unsigned address.  The two \<open>impl AddSigned\<close> blocks
  (\<open>u64\<close> with \<open>i64\<close>, \<open>u32\<close> with \<open>i32\<close>) have the same body; one definition, polymorphic in the width, models
  both.
\<close>

definition wrapping_add_signed :: "'a::len word \<Rightarrow> 'a word \<Rightarrow> 'a word" where
  "wrapping_add_signed self rhs = self + rhs"

definition checked_add_signed :: "'a::len word \<Rightarrow> 'a word \<Rightarrow> 'a word option" where
  "checked_add_signed self rhs =
     (let res = wrapping_add_signed self rhs in
      if (0 \<le> sint rhs \<and> self \<le> res) \<or> (sint rhs < 0 \<and> res < self) then Some res else None)"

lemma uint_wrapping_add_signed:
  "uint (wrapping_add_signed a b) = (uint a + sint b) mod 2 ^ LENGTH('a)" for a b :: "'a::len word"
proof -
  have "a + b = word_of_int (uint a + sint b)" by simp
  then have "uint (a + b) = uint (word_of_int (uint a + sint b) :: 'a word)" by simp
  then show ?thesis unfolding wrapping_add_signed_def uint_word_of_int .
qed

lemma mod_window:
  fixes s N :: int
  assumes "- N \<le> s" "s < 2 * N"
  shows "s mod N = (if s < 0 then s + N else if s < N then s else s - N)"
proof -
  have "(s + N) mod N = s + N" if "s < 0" using that assms by (intro mod_pos_pos_trivial) auto
  moreover have "(s - N) mod N = s - N" if "N \<le> s" using that assms by (intro mod_pos_pos_trivial) auto
  ultimately show ?thesis by auto
qed

lemma checked_add_signed_in_range:
  fixes a b :: "'a::len word"
  shows "(0 \<le> sint b \<and> a \<le> wrapping_add_signed a b \<or> sint b < 0 \<and> wrapping_add_signed a b < a) \<longleftrightarrow>
         0 \<le> uint a + sint b \<and> uint a + sint b < 2 ^ LENGTH('a)"
proof -
  define N :: int where "N = 2 ^ LENGTH('a)"
  let ?s = "uint a + sint b"
  have N: "2 * 2 ^ (LENGTH('a) - 1) = N" by (simp add: N_def flip: power_Suc)
  have a: "0 \<le> uint a" "uint a < N" using uint_lt2p [of a] by (simp_all add: N_def)
  have b: "- N \<le> sint b" "sint b < N"
    using sint_lt [of b] sint_ge [of b] N by (simp_all add: N_def)
  have m: "?s mod N = (if ?s < 0 then ?s + N else if ?s < N then ?s else ?s - N)"
    using a b by (intro mod_window; linarith)
  have w: "uint (wrapping_add_signed a b) = ?s mod N"
    by (simp add: uint_wrapping_add_signed N_def)
  show ?thesis
    using a b m unfolding word_le_def word_less_def w N_def [symmetric]
    by (auto split: if_splits)
qed

text \<open>The check by comparing with the wrapped sum is exact: no overflow of the true sum is missed and no
  representable sum is refused.\<close>

lemma checked_add_signed_Some_iff:
  fixes a b :: "'a::len word"
  shows "checked_add_signed a b = Some c \<longleftrightarrow> uint c = uint a + sint b"
proof -
  have "checked_add_signed a b = Some c \<longleftrightarrow>
     c = wrapping_add_signed a b \<and> 0 \<le> uint a + sint b \<and> uint a + sint b < 2 ^ LENGTH('a)"
    unfolding checked_add_signed_def Let_def checked_add_signed_in_range by auto
  also have "\<dots> \<longleftrightarrow> uint c = uint a + sint b"
  proof
    assume "uint c = uint a + sint b"
    moreover from this [symmetric] have "0 \<le> uint a + sint b" "uint a + sint b < 2 ^ LENGTH('a)"
      using uint_lt2p [of c] by simp_all
    ultimately show "c = wrapping_add_signed a b \<and> 0 \<le> uint a + sint b \<and> uint a + sint b < 2 ^ LENGTH('a)"
      by (simp add: word_uint_eq_iff uint_wrapping_add_signed)
  qed (simp add: uint_wrapping_add_signed)
  finally show ?thesis .
qed

lemma checked_add_signed_None_iff:
  fixes a b :: "'a::len word"
  shows "checked_add_signed a b = None \<longleftrightarrow> uint a + sint b < 0 \<or> 2 ^ LENGTH('a) \<le> uint a + sint b"
  unfolding checked_add_signed_def Let_def checked_add_signed_in_range by auto

end
