(* ===== verification/Errors.thy ===== *)
theory Errors
  imports Prelude
begin

text \<open>
  The error enumerations: \<^verbatim>\<open>src/error.rs\<close> and the format-specific errors of \<^verbatim>\<open>src/dwarf.rs\<close>,
  \<^verbatim>\<open>src/macho.rs\<close> and \<^verbatim>\<open>src/pe.rs\<close> that it wraps.  The error types of the external crates (\<open>gimli::Error\<close>,
  \<open>macho_unwind_info::Error\<close>) are type parameters.
\<close>

datatype Error =
    CouldNotReadStack u64
  | FramepointerUnwindingMovedBackwards
  | DidNotAdvance
  | IntegerOverflow
  | ReturnAddressIsNull

datatype 'g DwarfUnwinderError =
    FdeFromOffsetFailed 'g
  | UnwindInfoForAddressFailed 'g
  | StackPointerMovedBackwards
  | DidNotAdvanceDwarf
  | CouldNotRecoverCfa
  | CouldNotRecoverReturnAddress
  | CouldNotRecoverFramePointer

datatype ('m, 'g) CompactUnwindInfoUnwinderError =
    BadFormat 'm
  | AddressOutsideRange u32
  | CallerCannotBeFrameless
  | FunctionHasNoInfo
  | BpOffsetDoesNotFit
  | BadOpcodeKind u8
  | BadDwarfUnwinding "'g DwarfUnwinderError"
  | NoTextBytesToLookUpIndirectStackOffset
  | IndirectStackOffsetOutOfBounds
  | StackAdjustOverflow
  | StackSizeDoesNotFit
  | StubFunctionCannotBeCaller
  | InvalidFrameless

datatype PeUnwinderError =
    MissingUnwindInfoData u32
  | MissingInstructionData u32
  | MissingStackData "u64 option"
  | UnwindInfoParseError
  | Aarch64Unsupported

datatype ('m, 'g) UnwinderError =
    CompactUnwindInfo "('m, 'g) CompactUnwindInfoUnwinderError"
  | Dwarf "'g DwarfUnwinderError"
  | Pe PeUnwinderError
  | NoDwarfData
  | NoModuleUnwindData
  | EhFrameHdrCouldNotFindAddress
  | DwarfCfiIndexCouldNotFindAddress

text \<open>The \<open>From\<close> conversions applied by \<open>?\<close>.\<close>

definition unwinder_error_from_cui ::
  "('m, 'g) CompactUnwindInfoUnwinderError \<Rightarrow> ('m, 'g) UnwinderError" where
  "unwinder_error_from_cui e =
     (case e of BadDwarfUnwinding d \<Rightarrow> Dwarf d | _ \<Rightarrow> CompactUnwindInfo e)"

datatype 'r UnwindResult = ExecRule 'r | Uncacheable u64

end
