(* ===== verification/UnwindRule.thy ===== *)
theory UnwindRule
  imports Errors
begin

text \<open>
  The traits of \<^verbatim>\<open>src/unwind_rule.rs\<close> and \<^verbatim>\<open>src/arch.rs\<close>.  A trait implementation is a record of its functions, passed to
  the generic code; the two implementations are in the theories of the architectures.

  The locale \<open>unwind_rule\<close> states what the generic unwinder relies on when it executes a rule: a rule that yields a
  return address yields one that is not null and does not move the stack pointer backwards, and a rule that yields
  none does not move it at all.  Both architectures interpret it.
\<close>

record ('r, 'regs) UnwindRuleOps =
  op_exec :: "'r \<Rightarrow> bool \<Rightarrow> 'regs \<Rightarrow> stack_reader \<Rightarrow> ('regs \<times> (u64 option, Error) result) outcome"
  op_rule_for_stub_functions :: 'r
  op_rule_for_function_start :: 'r
  op_fallback_rule :: 'r

locale unwind_rule =
  fixes ops :: "('r, 'regs) UnwindRuleOps"
    and stack_pointer :: "'regs \<Rightarrow> u64"
  assumes exec_returns: "op_exec ops rule first regs rd = Val (regs', Ok (Some ra)) \<Longrightarrow>
          ra \<noteq> 0 \<and> stack_pointer regs \<le> stack_pointer regs'"
    and exec_stops: "op_exec ops rule first regs rd = Val (regs', res) \<Longrightarrow> \<forall>ra. res \<noteq> Ok (Some ra) \<Longrightarrow>
          stack_pointer regs' = stack_pointer regs"
begin

lemma exec_sp_mono:
  assumes "op_exec ops rule first regs rd = Val (regs', res)"
  shows "stack_pointer regs \<le> stack_pointer regs'"
proof (cases "\<exists>ra. res = Ok (Some ra)")
  case True
  with assms exec_returns show ?thesis by blast
next
  case False
  with exec_stops [OF assms] show ?thesis by simp
qed

lemma exec_never_null: "op_exec ops rule first regs rd \<noteq> Val (regs', Ok (Some 0))"
  using exec_returns by blast

end

text \<open>Executions that yield a return address cannot go on for ever: in every frame but the first one they decrease a
  rank of the registers, for the stack contents at hand.\<close>

locale advancing_rule = unwind_rule +
  fixes rank :: "stack_reader \<Rightarrow> 'regs \<Rightarrow> nat"
  assumes exec_rank: "op_exec ops rule False regs rd = Val (regs', Ok (Some ra)) \<Longrightarrow> rank rd regs' < rank rd regs"

end
