(* ===== verification/A64Rule.thy ===== *)
theory A64Rule
  imports A64Regs AddSigned UnwindRule
begin

text \<open>
  \<^verbatim>\<open>src/aarch64/unwind_rule.rs\<close>: the cacheable unwind rules of aarch64 and their execution.
\<close>

datatype UnwindRuleAarch64 =
    NoOp
  | NoOpIfFirstFrameOtherwiseFp
  | OffsetSp u16
  | OffsetSpIfFirstFrameOtherwiseStackEndsHere u16
  | OffsetSpAndRestoreLr u16 i16
  | OffsetSpAndRestoreFpAndLr u16 i16 i16
  | UseFramePointer
  | UseFramepointerWithOffsets u16 i16 i16

definition rule_for_stub_functions_aarch64 :: UnwindRuleAarch64 where
  "rule_for_stub_functions_aarch64 = NoOp"

definition rule_for_function_start_aarch64 :: UnwindRuleAarch64 where
  "rule_for_function_start_aarch64 = NoOp"

definition fallback_rule_aarch64 :: UnwindRuleAarch64 where
  "fallback_rule_aarch64 = UseFramePointer"

section \<open>Execution\<close>

text \<open>\<open>u64::from(x) * k\<close> for a \<open>u16\<close> and \<open>i64::from(x) * 8\<close> for an \<open>i16\<close>, with \<open>k\<close> at most 16; no such product
  overflows.\<close>

definition u16_times :: "u16 \<Rightarrow> u64 \<Rightarrow> u64" where
  "u16_times x k = ucast x * k"

definition i16_times_8 :: "i16 \<Rightarrow> i64" where
  "i16_times_8 x = scast x * 8"

text \<open>\<open>read_stack(loc).map_err(|_| Error::CouldNotReadStack(loc))\<close>.\<close>

definition read_or_err :: "stack_reader \<Rightarrow> u64 \<Rightarrow> (u64, Error) result" where
  "read_or_err rd loc = ok_or (rd loc) (CouldNotReadStack loc)"

text \<open>\<open>checked_add_signed(base, offset).ok_or(Error::IntegerOverflow)?\<close> followed by the read.\<close>

definition read_at_offset :: "stack_reader \<Rightarrow> u64 \<Rightarrow> i16 \<Rightarrow> (u64, Error) result" where
  "read_at_offset rd base off =
     (case checked_add_signed base (i16_times_8 off) of
        None \<Rightarrow> Err IntegerOverflow
      | Some loc \<Rightarrow> read_or_err rd loc)"

text \<open>The common start of the two frame pointer rules: \<open>(new_lr, new_sp, new_fp)\<close>.\<close>

definition read_frame_record ::
  "bool \<Rightarrow> u64 \<Rightarrow> stack_reader \<Rightarrow> (u64 \<times> u64 \<times> u64, Error) result outcome" where
  "read_frame_record oc fp rd =
     (case checked_add fp 16 of
        None \<Rightarrow> Val (Err IntegerOverflow)
      | Some new_sp \<Rightarrow>
          obind (add_oc oc fp 8) (\<lambda>lr_location.
            Val (case read_or_err rd lr_location of
                   Err e \<Rightarrow> Err e
                 | Ok new_lr \<Rightarrow>
                     (case read_or_err rd fp of
                        Err e \<Rightarrow> Err e
                      | Ok new_fp \<Rightarrow> Ok (new_lr, new_sp, new_fp)))))"

text \<open>The checks on a new frame pointer: the end of the stack, or the lack of progress.\<close>

definition check_frame_progress ::
  "u64 \<Rightarrow> u64 \<Rightarrow> u64 \<times> u64 \<times> u64 \<Rightarrow> (u64 \<times> u64 \<times> u64, (u64 option, Error) result) flow" where
  "check_frame_progress fp sp' v =
     (case v of (new_lr, new_sp, new_fp) \<Rightarrow>
        if new_fp = 0 then Return (Ok None)
        else if new_fp \<le> fp \<or> new_sp \<le> sp' then Return (Err FramepointerUnwindingMovedBackwards)
        else Continue (new_lr, new_sp, new_fp))"

definition check_sp_progress ::
  "u64 \<Rightarrow> u64 \<times> u64 \<times> u64 \<Rightarrow> (u64 \<times> u64 \<times> u64, (u64 option, Error) result) flow" where
  "check_sp_progress sp' v =
     (case v of (new_lr, new_sp, new_fp) \<Rightarrow>
        if new_sp \<le> sp' then Return (Err FramepointerUnwindingMovedBackwards)
        else Continue (new_lr, new_sp, new_fp))"

fun exec_match_aarch64 ::
  "bool \<Rightarrow> UnwindRuleAarch64 \<Rightarrow> bool \<Rightarrow> u64 \<Rightarrow> u64 \<Rightarrow> u64 \<Rightarrow> stack_reader \<Rightarrow>
   (u64 \<times> u64 \<times> u64, (u64 option, Error) result) flow outcome" where
  "exec_match_aarch64 oc NoOp first lr s fp rd =
     Val (if first then Continue (lr, s, fp) else Return (Err DidNotAdvance))"
| "exec_match_aarch64 oc NoOpIfFirstFrameOtherwiseFp first lr s fp rd =
     (if first then Val (Continue (lr, s, fp))
      else obind (read_frame_record oc fp rd) (\<lambda>r.
             Val (case r of Err e \<Rightarrow> Return (Err e) | Ok v \<Rightarrow> check_sp_progress s v)))"
| "exec_match_aarch64 oc (OffsetSpIfFirstFrameOtherwiseStackEndsHere sp_offset_by_16) first lr s fp rd =
     Val (if \<not> first then Return (Ok None)
          else case checked_add s (u16_times sp_offset_by_16 16) of
                 None \<Rightarrow> Return (Err IntegerOverflow)
               | Some new_sp \<Rightarrow> Continue (lr, new_sp, fp))"
| "exec_match_aarch64 oc (OffsetSp sp_offset_by_16) first lr s fp rd =
     Val (if \<not> first then Return (Err DidNotAdvance)
          else case checked_add s (u16_times sp_offset_by_16 16) of
                 None \<Rightarrow> Return (Err IntegerOverflow)
               | Some new_sp \<Rightarrow> Continue (lr, new_sp, fp))"
| "exec_match_aarch64 oc (OffsetSpAndRestoreLr sp_offset_by_16 lr_off) first lr s fp rd =
     Val (case checked_add s (u16_times sp_offset_by_16 16) of
            None \<Rightarrow> Return (Err IntegerOverflow)
          | Some new_sp \<Rightarrow>
              (case read_at_offset rd s lr_off of
                 Err e \<Rightarrow> Return (Err e)
               | Ok new_lr \<Rightarrow> Continue (new_lr, new_sp, fp)))"
| "exec_match_aarch64 oc (OffsetSpAndRestoreFpAndLr sp_offset_by_16 fp_off lr_off) first lr s fp rd =
     Val (case checked_add s (u16_times sp_offset_by_16 16) of
            None \<Rightarrow> Return (Err IntegerOverflow)
          | Some new_sp \<Rightarrow>
              (case read_at_offset rd s lr_off of
                 Err e \<Rightarrow> Return (Err e)
               | Ok new_lr \<Rightarrow>
                   (case read_at_offset rd s fp_off of
                      Err e \<Rightarrow> Return (Err e)
                    | Ok new_fp \<Rightarrow> Continue (new_lr, new_sp, new_fp))))"
| "exec_match_aarch64 oc UseFramePointer first lr s fp rd =
     obind (read_frame_record oc fp rd) (\<lambda>r.
       Val (case r of Err e \<Rightarrow> Return (Err e) | Ok v \<Rightarrow> check_frame_progress fp s v))"
| "exec_match_aarch64 oc (UseFramepointerWithOffsets sp_offset_from_fp_by_8 fp_off lr_off) first lr s fp rd =
     Val (case checked_add fp (u16_times sp_offset_from_fp_by_8 8) of
            None \<Rightarrow> Return (Err IntegerOverflow)
          | Some new_sp \<Rightarrow>
              (case read_at_offset rd fp lr_off of
                 Err e \<Rightarrow> Return (Err e)
               | Ok new_lr \<Rightarrow>
                   (case read_at_offset rd fp fp_off of
                      Err e \<Rightarrow> Return (Err e)
                    | Ok new_fp \<Rightarrow> check_frame_progress fp s (new_lr, new_sp, new_fp))))"

definition exec_aarch64 ::
  "bool \<Rightarrow> UnwindRuleAarch64 \<Rightarrow> bool \<Rightarrow> UnwindRegsAarch64 \<Rightarrow> stack_reader \<Rightarrow>
   (UnwindRegsAarch64 \<times> (u64 option, Error) result) outcome" where
  "exec_aarch64 oc rule is_first_frame regs rd =
     obind (exec_match_aarch64 oc rule is_first_frame (a64_lr regs) (a64_sp regs) (a64_fp regs) rd) (\<lambda>fl.
       Val (case fl of
              Return r \<Rightarrow> (regs, r)
            | Continue (new_lr, new_sp, new_fp) \<Rightarrow>
                let return_address = strip_ptr_auth (lr_mask regs) new_lr in
                if return_address = 0 then (regs, Ok None)
                else if \<not> is_first_frame \<and> new_sp = a64_sp regs then (regs, Err DidNotAdvance)
                else (set_a64_fp new_fp (set_a64_sp new_sp (set_lr new_lr regs)), Ok (Some return_address))))"

section \<open>Facts about the parts of an execution\<close>

lemma uint_u16_times: "uint k \<le> 16 \<Longrightarrow> uint (u16_times x k) = uint x * uint k"
proof -
  assume k: "uint k \<le> 16"
  have "uint x * uint k \<le> uint x * 16" using k by (intro mult_left_mono) simp_all
  moreover have "uint x < 2 ^ 16" using uint_lt2p [of x] by simp
  ultimately have "uint (word_of_int (uint x * uint k) :: u64) = uint x * uint k"
    by (intro uint_of_range) simp_all
  moreover have "u16_times x k = word_of_int (uint x * uint k)" by (simp add: u16_times_def)
  ultimately show ?thesis by metis
qed

lemma uint_u16_times_numeral [simp]: "uint (u16_times x 8) = uint x * 8" "uint (u16_times x 16) = uint x * 16"
  by (simp_all add: uint_u16_times)

lemma sint_i16_times_8: "sint (i16_times_8 x) = 8 * sint x"
proof -
  have "- (2 ^ 15) \<le> sint x" "sint x < 2 ^ 15" using sint_lt [of x] sint_ge [of x] by simp_all
  then have "sint (word_of_int (8 * sint x) :: i64) = 8 * sint x"
    by (intro sint_of_range) (simp add: in_signed_range_def)
  moreover have "i16_times_8 x = word_of_int (8 * sint x)" by (simp add: i16_times_8_def)
  ultimately show ?thesis by metis
qed

lemma read_or_err_Ok [simp]: "read_or_err rd loc = Ok v \<longleftrightarrow> rd loc = Some v"
  by (cases "rd loc") (auto simp: read_or_err_def)

lemma read_at_offset_Ok:
  "read_at_offset rd base off = Ok v \<longleftrightarrow> (\<exists>loc. uint loc = uint base + 8 * sint off \<and> rd loc = Some v)"
  by (auto simp: read_at_offset_def checked_add_signed_Some_iff sint_i16_times_8
      simp flip: sint_i16_times_8 split: option.splits)
     (metis checked_add_signed_Some_iff option.distinct(1) option.inject)+

lemma add_8_no_overflow: "checked_add fp 16 = Some s \<Longrightarrow> add_oc oc fp 8 = Val (fp + 8)" for fp :: u64
  by (auto simp: checked_add_def add_oc_def split: if_splits)

lemma read_frame_record_no_panic: "no_panic (read_frame_record oc fp rd)"
  by (auto simp: read_frame_record_def add_8_no_overflow split: option.splits)

lemma read_frame_record_Ok:
  "read_frame_record oc fp rd = Val (Ok (new_lr, new_sp, new_fp)) \<longleftrightarrow>
     uint new_sp = uint fp + 16 \<and> rd (fp + 8) = Some new_lr \<and> rd fp = Some new_fp"
proof (cases "checked_add fp 16")
  case None
  then show ?thesis
    using checked_add_Some_iff [of fp 16 new_sp] by (auto simp: read_frame_record_def)
next
  case (Some s)
  then have "uint new_sp = uint fp + 16 \<longleftrightarrow> s = new_sp" using checked_add_Some_iff [of fp 16 new_sp] by simp
  with Some show ?thesis
    by (cases "rd (fp + 8)"; cases "rd fp")
       (auto simp: read_frame_record_def read_or_err_def add_8_no_overflow [OF Some])
qed

lemma check_frame_progress_Continue [simp]:
  "check_frame_progress fp s v = Continue w \<longleftrightarrow>
     w = v \<and> snd (snd v) \<noteq> 0 \<and> fp < snd (snd v) \<and> s < fst (snd v)"
  by (cases v) (auto simp: check_frame_progress_def)

lemma check_sp_progress_Continue [simp]:
  "check_sp_progress s v = Continue w \<longleftrightarrow> w = v \<and> s < fst (snd v)"
  by (cases v) (auto simp: check_sp_progress_def)

lemma exec_match_aarch64_no_panic: "no_panic (exec_match_aarch64 oc rule first lr s fp rd)"
  using read_frame_record_no_panic [of oc fp rd] by (cases rule) auto

lemma exec_match_aarch64_sp:
  assumes "exec_match_aarch64 oc rule first lr s fp rd = Val (Continue (new_lr, new_sp, new_fp))"
  shows "s \<le> new_sp"
proof (cases rule)
  case UseFramePointer
  with assms obtain r where "(case r of Err e \<Rightarrow> Return (Err e) | Ok v \<Rightarrow> check_frame_progress fp s v) =
      Continue (new_lr, new_sp, new_fp)" by auto
  then show ?thesis by (cases r) auto
next
  case NoOpIfFirstFrameOtherwiseFp
  show ?thesis
  proof (cases first)
    case False
    with assms NoOpIfFirstFrameOtherwiseFp obtain r where "(case r of Err e \<Rightarrow> Return (Err e)
       | Ok v \<Rightarrow> check_sp_progress s v) = Continue (new_lr, new_sp, new_fp)" by auto
    then show ?thesis by (cases r) auto
  qed (use assms NoOpIfFirstFrameOtherwiseFp in simp)
qed (use assms in \<open>auto dest: checked_add_SomeD(2) split: if_splits option.splits result.splits\<close>)


lemma exec_match_aarch64_never_Some:
  "exec_match_aarch64 oc rule first lr s fp rd \<noteq> Val (Return (Ok (Some ra)))"
  by (cases rule)
     (auto simp: check_frame_progress_def check_sp_progress_def split: option.splits result.splits if_splits prod.splits)

lemma exec_aarch64_cases:
  obtains (return) r where "exec_match_aarch64 oc rule first (a64_lr regs) (a64_sp regs) (a64_fp regs) rd = Val (Return r)"
      "exec_aarch64 oc rule first regs rd = Val (regs, r)"
  | (stop) new_lr new_sp new_fp r where
      "exec_match_aarch64 oc rule first (a64_lr regs) (a64_sp regs) (a64_fp regs) rd = Val (Continue (new_lr, new_sp, new_fp))"
      "exec_aarch64 oc rule first regs rd = Val (regs, r)" "\<forall>ra. r \<noteq> Ok (Some ra)"
  | (continue) new_lr new_sp new_fp ra where
      "exec_match_aarch64 oc rule first (a64_lr regs) (a64_sp regs) (a64_fp regs) rd = Val (Continue (new_lr, new_sp, new_fp))"
      "ra = strip_ptr_auth (lr_mask regs) new_lr" "ra \<noteq> 0" "first \<or> new_sp \<noteq> a64_sp regs"
      "exec_aarch64 oc rule first regs rd =
         Val (set_a64_fp new_fp (set_a64_sp new_sp (set_lr new_lr regs)), Ok (Some ra))"
proof -
  obtain fl where fl: "exec_match_aarch64 oc rule first (a64_lr regs) (a64_sp regs) (a64_fp regs) rd = Val fl"
    using exec_match_aarch64_no_panic by blast
  show thesis
  proof (cases fl)
    case (Return r)
    with fl return show thesis by (simp add: exec_aarch64_def)
  next
    case (Continue v)
    obtain new_lr new_sp new_fp where v: "v = (new_lr, new_sp, new_fp)" by (cases v)
    consider "strip_ptr_auth (lr_mask regs) new_lr = 0"
      | "strip_ptr_auth (lr_mask regs) new_lr \<noteq> 0" "\<not> first \<and> new_sp = a64_sp regs"
      | "strip_ptr_auth (lr_mask regs) new_lr \<noteq> 0" "first \<or> new_sp \<noteq> a64_sp regs" by blast
    then show thesis
      using fl Continue v stop [of new_lr new_sp new_fp] continue [of new_lr new_sp new_fp]
      by cases (simp_all add: exec_aarch64_def Let_def)
  qed
qed

text \<open>The stack word at the exact, not wrapped, sum of the base and eight times the signed offset.\<close>

definition slot_holds :: "stack_reader \<Rightarrow> u64 \<Rightarrow> i16 \<Rightarrow> u64 \<Rightarrow> bool" where
  "slot_holds rd base off v \<longleftrightarrow> (\<exists>loc. uint loc = uint base + 8 * sint off \<and> rd loc = Some v)"

definition documented_effect_aarch64 ::
  "UnwindRuleAarch64 \<Rightarrow> bool \<Rightarrow> stack_reader \<Rightarrow> u64 \<times> u64 \<times> u64 \<Rightarrow> u64 \<times> u64 \<times> u64 \<Rightarrow> bool" where
  "documented_effect_aarch64 rule is_first_frame rd old new \<longleftrightarrow>
    (case (old, new) of ((lr, s, fp), (lr', s', fp')) \<Rightarrow>
    (case rule of
      NoOp \<Rightarrow> is_first_frame \<and> lr' = lr \<and> s' = s \<and> fp' = fp
    | NoOpIfFirstFrameOtherwiseFp \<Rightarrow>
        if is_first_frame then lr' = lr \<and> s' = s \<and> fp' = fp
        else uint s' = uint fp + 16 \<and> rd fp = Some fp' \<and> rd (fp + 8) = Some lr'
    | OffsetSp x \<Rightarrow> is_first_frame \<and> lr' = lr \<and> uint s' = uint s + 16 * uint x \<and> fp' = fp
    | OffsetSpIfFirstFrameOtherwiseStackEndsHere x \<Rightarrow>
        is_first_frame \<and> lr' = lr \<and> uint s' = uint s + 16 * uint x \<and> fp' = fp
    | OffsetSpAndRestoreLr x y \<Rightarrow>
        uint s' = uint s + 16 * uint x \<and> fp' = fp \<and> slot_holds rd s y lr'
    | OffsetSpAndRestoreFpAndLr x y z \<Rightarrow>
        uint s' = uint s + 16 * uint x \<and> slot_holds rd s y fp' \<and> slot_holds rd s z lr'
    | UseFramePointer \<Rightarrow>
        uint s' = uint fp + 16 \<and> rd fp = Some fp' \<and> rd (fp + 8) = Some lr' \<and> fp < fp' \<and> s < s'
    | UseFramepointerWithOffsets x y z \<Rightarrow>
        uint s' = uint fp + 8 * uint x \<and> fp < fp' \<and> s < s' \<and>
        slot_holds rd fp y fp' \<and> slot_holds rd fp z lr'))"

lemma exec_match_aarch64_effect:
  assumes "exec_match_aarch64 oc rule first lr s fp rd = Val (Continue new)"
  shows "documented_effect_aarch64 rule first rd (lr, s, fp) new"
proof (cases rule)
  case UseFramePointer
  with assms obtain r where r: "read_frame_record oc fp rd = Val r"
      "(case r of Err e \<Rightarrow> Return (Err e) | Ok v \<Rightarrow> check_frame_progress fp s v) = Continue new" by auto
  then show ?thesis
    by (cases r; cases new) (auto simp: UseFramePointer read_frame_record_Ok documented_effect_aarch64_def)
next
  case NoOpIfFirstFrameOtherwiseFp
  show ?thesis
  proof (cases first)
    case False
    with assms NoOpIfFirstFrameOtherwiseFp obtain r where r: "read_frame_record oc fp rd = Val r"
        "(case r of Err e \<Rightarrow> Return (Err e) | Ok v \<Rightarrow> check_sp_progress s v) = Continue new" by auto
    with False show ?thesis
      by (cases r; cases new) (auto simp: NoOpIfFirstFrameOtherwiseFp read_frame_record_Ok documented_effect_aarch64_def)
  qed (use assms in \<open>auto simp: NoOpIfFirstFrameOtherwiseFp documented_effect_aarch64_def\<close>)
qed (use assms in \<open>auto simp: documented_effect_aarch64_def slot_holds_def read_at_offset_Ok checked_add_Some_iff split: if_splits option.splits result.splits\<close>)

section \<open>Properties\<close>

lemma exec_aarch64_no_panic: "\<exists>r. exec_aarch64 oc rule is_first_frame regs rd = Val r"
  by (cases rule: exec_aarch64_cases [of oc rule is_first_frame regs rd]) auto

text \<open>
  Executing an aarch64 rule never panics, whatever the registers and the stack contents: all of its additions
  are checked, and the one unchecked addition \<open>fp + 8\<close> is guarded by the checked \<open>fp + 16\<close>.
\<close>

lemma exec_aarch64_never_panics: "\<exists>r. exec_aarch64 oc rule is_first_frame regs rd = Val r"
  by (rule exec_aarch64_no_panic)


lemma exec_aarch64_returns:
  assumes "exec_aarch64 oc rule is_first_frame regs rd = Val (regs', Ok (Some ra))"
  shows "ra \<noteq> 0 \<and> a64_lr regs' = ra \<and> lr_mask regs' = lr_mask regs \<and> lr_stripped regs' \<and>
         a64_sp regs \<le> a64_sp regs' \<and> (\<not> is_first_frame \<longrightarrow> a64_sp regs < a64_sp regs')"
proof (cases rule: exec_aarch64_cases [of oc rule is_first_frame regs rd])
  case (continue new_lr new_sp new_fp ra')
  have "a64_sp regs \<le> new_sp" using exec_match_aarch64_sp [OF continue(1)] .
  with continue assms show ?thesis by auto
qed (use assms exec_match_aarch64_never_Some in auto)

text \<open>
  Progress.  Whenever a rule yields a return address, that address is not null and has no authentication bits,
  it is the new link register, and the stack pointer did not move backwards; in every frame but the first one the
  stack pointer strictly increases.
\<close>

lemma exec_aarch64_progress:
  assumes "exec_aarch64 oc rule is_first_frame regs rd = Val (regs', Ok (Some ra))"
  shows "ra \<noteq> 0 \<and> a64_lr regs' = ra \<and> lr_mask regs' = lr_mask regs \<and> lr_stripped regs' \<and>
         a64_sp regs \<le> a64_sp regs' \<and> (\<not> is_first_frame \<longrightarrow> a64_sp regs < a64_sp regs')"
  using assms by (rule exec_aarch64_returns)


lemma exec_aarch64_stops:
  assumes "exec_aarch64 oc rule is_first_frame regs rd = Val (regs', res)" and "\<And>ra. res \<noteq> Ok (Some ra)"
  shows "regs' = regs"
  using assms by (cases rule: exec_aarch64_cases [of oc rule is_first_frame regs rd]) auto

text \<open>
  When no return address is produced, no register is changed.
\<close>

lemma exec_aarch64_stop_keeps_registers:
  assumes "exec_aarch64 oc rule is_first_frame regs rd = Val (regs', res)" and "\<And>ra. res \<noteq> Ok (Some ra)"
  shows "regs' = regs"
  using assms by (rule exec_aarch64_stops)


lemma exec_aarch64_effects:
  assumes "exec_aarch64 oc rule is_first_frame regs rd = Val (regs', Ok (Some ra))"
  shows "\<exists>new_lr. ra = strip_ptr_auth (lr_mask regs) new_lr \<and>
    documented_effect_aarch64 rule is_first_frame rd (a64_lr regs, a64_sp regs, a64_fp regs)
      (new_lr, a64_sp regs', a64_fp regs')"
proof (cases rule: exec_aarch64_cases [of oc rule is_first_frame regs rd])
  case (continue new_lr new_sp new_fp ra')
  with assms have "regs' = set_a64_fp new_fp (set_a64_sp new_sp (set_lr new_lr regs))" "ra' = ra" by auto
  with exec_match_aarch64_effect [OF continue(1)] continue(2) show ?thesis by (auto intro!: exI [of _ new_lr])
qed (use assms exec_match_aarch64_never_Some in auto)




section \<open>The implementation of the trait\<close>

definition ops_aarch64 :: "bool \<Rightarrow> (UnwindRuleAarch64, UnwindRegsAarch64) UnwindRuleOps" where
  "ops_aarch64 oc = \<lparr>op_exec = exec_aarch64 oc, op_rule_for_stub_functions = rule_for_stub_functions_aarch64,
     op_rule_for_function_start = rule_for_function_start_aarch64, op_fallback_rule = fallback_rule_aarch64\<rparr>"

lemma ops_aarch64_simps [simp]:
  "op_exec (ops_aarch64 oc) = exec_aarch64 oc" "op_fallback_rule (ops_aarch64 oc) = fallback_rule_aarch64"
  by (simp_all add: ops_aarch64_def)

definition rank_aarch64 :: "stack_reader \<Rightarrow> UnwindRegsAarch64 \<Rightarrow> nat" where
  "rank_aarch64 rd regs = 2 ^ 64 - unat (a64_sp regs)"

lemma unat_lt_2_64 [simp]: "unat (x :: u64) < 18446744073709551616"
  using unsigned_less [where w = x] by simp

interpretation a64_rule: advancing_rule "ops_aarch64 oc" a64_sp rank_aarch64 for oc
proof unfold_locales
  fix rule first regs rd regs' ra
  assume "op_exec (ops_aarch64 oc) rule first regs rd = Val (regs', Ok (Some ra))"
  then show "ra \<noteq> 0 \<and> a64_sp regs \<le> a64_sp regs'" using exec_aarch64_returns by simp
next
  fix rule first regs rd regs' and res :: "(u64 option, Error) result"
  assume "op_exec (ops_aarch64 oc) rule first regs rd = Val (regs', res)" "\<forall>ra. res \<noteq> Ok (Some ra)"
  then show "a64_sp regs' = a64_sp regs" using exec_aarch64_stops [of oc rule first regs rd regs' res] by simp
next
  fix rule regs rd regs' ra
  assume "op_exec (ops_aarch64 oc) rule False regs rd = Val (regs', Ok (Some ra))"
  then have "a64_sp regs < a64_sp regs'" using exec_aarch64_returns by simp
  then show "rank_aarch64 rd regs' < rank_aarch64 rd regs"
    by (simp add: rank_aarch64_def word_less_nat_alt diff_less_mono2)
qed

end
