(* ===== verification/A64Prologue.thy ===== *)
theory A64Prologue
  imports A64Rule
begin

text \<open>
  \<^verbatim>\<open>src/aarch64/instruction_analysis/prologue.rs\<close>: recognising a function prologue of aarch64 by walking backwards over the
  instructions before the program counter.
\<close>

section \<open>The detector\<close>

datatype PrologueUnexpectedInstructionType =
    StoreOfWrongSize | StoreReferenceRegisterNotSp | AddSubNotOperatingOnSp | NoNextInstruction
  | NoStackPointerSubBeforeStore | Unknown

datatype PrologueStepResult = UnexpectedInstruction PrologueUnexpectedInstructionType | ValidPrologueInstruction

datatype PrologueResult = ProbablyAlreadyInBody PrologueUnexpectedInstructionType | FoundFunctionStart i32

datatype PrologueInstructionType =
    NotExpectedInPrologue | CouldBePartOfPrologueIfThereIsAlsoAStackPointerSub | VeryLikelyPartOfPrologue

definition analyze_prologue_instruction_type :: "u32 \<Rightarrow> PrologueInstructionType" where
  "analyze_prologue_instruction_type word =
     (if word = 0xd503237f \<or> word = 0x910003fd then VeryLikelyPartOfPrologue
      else
        let bits_22_to_32 = drop_bit 22 word in
        if bits_22_to_32 AND 0x2f9 = 0x2a0 then
          (let writeback_bits = bits_22_to_32 AND 6; reference_reg = drop_bit 5 word AND 31 in
           if writeback_bits = 0 \<or> reference_reg \<noteq> 31 then NotExpectedInPrologue
           else if writeback_bits = 4 then CouldBePartOfPrologueIfThereIsAlsoAStackPointerSub
           else VeryLikelyPartOfPrologue)
        else if bits_22_to_32 AND 0x2fe = 0x244 then
          (let result_reg = word AND 31; input_reg = drop_bit 5 word AND 31;
               is_sub = (drop_bit 30 word AND 1 = 1); expected_result_reg = (if is_sub then 31 else 29) in
           if input_reg \<noteq> 31 \<or> result_reg \<noteq> expected_result_reg then NotExpectedInPrologue
           else VeryLikelyPartOfPrologue)
        else NotExpectedInPrologue)"

text \<open>\<open>(((((word >> 15) & 0b1111111) as i16) << 9) >> 6) as i32\<close>.\<close>

definition imm7_times_8 :: "u32 \<Rightarrow> i32" where
  "imm7_times_8 word = scast (signed_drop_bit 6 (push_bit 9 (ucast (drop_bit 15 word AND 127) :: i16)))"

text \<open>The immediate of an add or sub instruction, shifted by 12 if the shift bit is set.\<close>

definition imm12_of :: "u32 \<Rightarrow> i32" where
  "imm12_of word =
     (let imm12 = drop_bit 10 word AND 0xfff in if drop_bit 22 word AND 1 = 1 then push_bit 12 imm12 else imm12)"

definition reverse_step_instruction :: "bool \<Rightarrow> u32 \<Rightarrow> i32 \<Rightarrow> (i32 \<times> PrologueStepResult) outcome" where
  "reverse_step_instruction oc word sp_offset =
     (if word = 0xd503237f then Val (sp_offset, ValidPrologueInstruction)
      else if drop_bit 22 word AND 0x2f9 = 0x2a0 then
        (let writeback_bits = drop_bit 23 word AND 3; reference_reg = drop_bit 5 word AND 31 in
         if writeback_bits = 0 then Val (sp_offset, UnexpectedInstruction StoreOfWrongSize)
         else if reference_reg \<noteq> 31 then Val (sp_offset, UnexpectedInstruction StoreReferenceRegisterNotSp)
         else if writeback_bits = 3 \<or> writeback_bits = 1 then
           obind (isub_oc oc sp_offset (imm7_times_8 word)) (\<lambda>s. Val (s, ValidPrologueInstruction))
         else Val (sp_offset, ValidPrologueInstruction))
      else if drop_bit 23 word AND 0x1ff = 0x1a2 then
        (if word AND 31 \<noteq> 31 \<or> drop_bit 5 word AND 31 \<noteq> 31
         then Val (sp_offset, UnexpectedInstruction AddSubNotOperatingOnSp)
         else obind (iadd_oc oc sp_offset (imm12_of word)) (\<lambda>s. Val (s, ValidPrologueInstruction)))
      else Val (sp_offset, UnexpectedInstruction Unknown))"

text \<open>The loop over the instructions before the program counter, the last one first.\<close>

fun reverse_steps :: "bool \<Rightarrow> u32 list \<Rightarrow> i32 \<Rightarrow> i32 outcome" where
  "reverse_steps oc [] sp_offset = Val sp_offset"
| "reverse_steps oc (word # ws) sp_offset =
     obind (reverse_step_instruction oc word sp_offset) (\<lambda>(s, r).
       case r of
         UnexpectedInstruction _ \<Rightarrow> Val s
       | ValidPrologueInstruction \<Rightarrow> reverse_steps oc ws s)"

text \<open>\<open>chunks_exact(4)\<close> with \<open>u32::from_le_bytes\<close>.\<close>

fun words_of :: "u8 list \<Rightarrow> u32 list" where
  "words_of (a # b # c # d # bs) = u32_from_le_bytes a b c d # words_of bs"
| "words_of _ = []"

definition analyze_slices :: "bool \<Rightarrow> u8 list \<Rightarrow> u8 list \<Rightarrow> PrologueResult outcome" where
  "analyze_slices oc slice_from_start slice_to_end =
     (case slice_to_end of
        a # b # c # d # _ \<Rightarrow>
          (let next_instruction_type = analyze_prologue_instruction_type (u32_from_le_bytes a b c d) in
           if next_instruction_type = NotExpectedInPrologue then Val (ProbablyAlreadyInBody Unknown)
           else
             obind (reverse_steps oc (rev (words_of slice_from_start)) 0) (\<lambda>sp_offset.
               Val (if next_instruction_type = CouldBePartOfPrologueIfThereIsAlsoAStackPointerSub \<and> sp_offset = 0
                    then ProbablyAlreadyInBody NoStackPointerSubBeforeStore
                    else FoundFunctionStart sp_offset)))
      | _ \<Rightarrow> Val (ProbablyAlreadyInBody NoNextInstruction))"

definition unwind_rule_from_detected_prologue_aarch64 :: "bool \<Rightarrow> u8 list \<Rightarrow> u8 list \<Rightarrow> UnwindRuleAarch64 option outcome" where
  "unwind_rule_from_detected_prologue_aarch64 oc slice_from_start slice_to_end =
     obind (analyze_slices oc slice_from_start slice_to_end) (\<lambda>r.
       Val (case r of
              ProbablyAlreadyInBody _ \<Rightarrow> None
            | FoundFunctionStart sp_offset \<Rightarrow>
                (case signed_to_u16 (idiv sp_offset 16) of
                   None \<Rightarrow> None
                 | Some sp_offset_by_16 \<Rightarrow> Some (if sp_offset_by_16 = 0 then NoOp else OffsetSp sp_offset_by_16))))"

end
