(* ===== verification/A64Epilogue.thy ===== *)
theory A64Epilogue
  imports A64Prologue
begin

text \<open>
  \<^verbatim>\<open>src/aarch64/instruction_analysis/epilogue.rs\<close>: recognising a function epilogue of aarch64 by walking forwards from the
  program counter to the return or tail call; and \<open>rule_from_instruction_analysis\<close> for aarch64.

  The slices the source takes of the function bytes are in bounds whenever the program counter is; \<open>drop\<close> and \<open>take\<close>
  model them, and the one slice that can be out of bounds, \<open>function_bytes[pc_offset..]\<close>, panics here as there.
\<close>

section \<open>The detector\<close>

record EpilogueDetectorAarch64 =
  ed_sp_offset :: i32
  fp_offset_from_initial_sp :: "i32 option"
  lr_offset_from_initial_sp :: "i32 option"

datatype EpilogueUnexpectedInstructionType =
    LoadOfWrongSize | LoadReferenceRegisterNotSp | EpilogueAddSubNotOperatingOnSp
  | AutibspNotFollowedByExpectedTailCall | BranchWithUnadjustedStackPointer | EpilogueUnknown

datatype EpilogueStepResult =
    NeedMore | FoundBodyInstruction EpilogueUnexpectedInstructionType | FoundReturn | FoundTailCall | CouldBeAuthTailCall

datatype EpilogueResult =
    ProbablyStillInBody EpilogueUnexpectedInstructionType
  | ReachedFunctionEndWithoutReturn
  | FoundReturnOrTailCall i32 "i32 option" "i32 option"

datatype EpilogueInstructionType =
    NotExpectedInEpilogue | CouldBeTailCall u8 | CouldBePartOfAuthTailCall u8 | VeryLikelyPartOfEpilogue

definition new_epilogue_detector :: EpilogueDetectorAarch64 where
  "new_epilogue_detector = \<lparr>ed_sp_offset = 0, fp_offset_from_initial_sp = None, lr_offset_from_initial_sp = None\<rparr>"

definition instruction_adjusts_stack_pointer :: "u32 \<Rightarrow> bool" where
  "instruction_adjusts_stack_pointer word \<longleftrightarrow>
     drop_bit 22 word AND 0x2fb = 0x2a3 \<and> drop_bit 5 word AND 31 = 31 \<or>
     drop_bit 23 word AND 0x1ff = 0x122 \<and> word AND 31 = 31 \<and> drop_bit 5 word AND 31 = 31"

definition is_auth_tail_call :: "u8 list \<Rightarrow> bool" where
  "is_auth_tail_call bytes =
     (if length bytes < 16 then False
      else if take 12 bytes \<noteq> [0xd0, 0x07, 0x1e, 0xca, 0x50, 0x00, 0xf0, 0xb6, 0x20, 0x8e, 0x38, 0xd4] then False
      else
        let opcode = u32_from_le_bytes (bytes ! 12) (bytes ! 13) (bytes ! 14) (bytes ! 15) in
        if drop_bit 26 opcode = 5 then True
        else if length bytes < 20 then False
        else if drop_bit 23 opcode AND 0x1c7 \<noteq> 0x185 \<or> opcode AND 31 \<noteq> 16 then False
        else
          let braa_opcode = u32_from_le_bytes (bytes ! 16) (bytes ! 17) (bytes ! 18) (bytes ! 19) in
          braa_opcode AND 0xfffffc00 = 0xd71f0800 \<and> braa_opcode AND 31 = 16)"

definition analyze_instruction :: "u32 \<Rightarrow> EpilogueInstructionType" where
  "analyze_instruction word =
     (if word = 0xd65f03c0 \<or> word = 0xd65f0fff then VeryLikelyPartOfEpilogue
      else if word = 0xd50323ff then CouldBePartOfAuthTailCall 0
      else if word = 0xca1e07d0 then CouldBePartOfAuthTailCall 4
      else if word = 0xb6f00050 then CouldBePartOfAuthTailCall 8
      else if word = 0xd4388e20 then CouldBePartOfAuthTailCall 12
      else if drop_bit 26 word = 5 \<or> word AND 0xfffffc1f = 0xd61f0000 then CouldBeTailCall 16
      else if drop_bit 23 word AND 0x1c7 = 0x185 \<and> word AND 31 = 16 then CouldBePartOfAuthTailCall 16
      else if word AND 0xfffffc00 = 0xd71f0800 \<and> word AND 31 = 16 then CouldBePartOfAuthTailCall 20
      else if drop_bit 22 word AND 0x2f9 = 0x2a1 then
        (if drop_bit 23 word AND 3 = 0 then NotExpectedInEpilogue
         else if drop_bit 5 word AND 31 \<noteq> 31 then NotExpectedInEpilogue
         else VeryLikelyPartOfEpilogue)
      else if drop_bit 23 word AND 0x1ff = 0x122 then
        (if word AND 31 \<noteq> 31 \<or> drop_bit 5 word AND 31 \<noteq> 31 then NotExpectedInEpilogue else VeryLikelyPartOfEpilogue)
      else NotExpectedInEpilogue)"

text \<open>The registers loaded by a load pair, recorded with the offset of their slots.\<close>

definition record_pair_register :: "u32 \<Rightarrow> i32 \<Rightarrow> EpilogueDetectorAarch64 \<Rightarrow> EpilogueDetectorAarch64" where
  "record_pair_register reg loc d =
     (if reg = 29 then d\<lparr>fp_offset_from_initial_sp := Some loc\<rparr>
      else if reg = 30 then d\<lparr>lr_offset_from_initial_sp := Some loc\<rparr>
      else d)"

definition step_instruction ::
  "bool \<Rightarrow> u32 \<Rightarrow> EpilogueDetectorAarch64 \<Rightarrow> (EpilogueDetectorAarch64 \<times> EpilogueStepResult) outcome" where
  "step_instruction oc word d =
     (if word = 0xd65f03c0 \<or> word = 0xd65f0fff then Val (d, FoundReturn)
      else if word = 0xd50323ff then Val (d, CouldBeAuthTailCall)
      else if drop_bit 26 word = 5 then
        Val (d, if ed_sp_offset d \<noteq> 0 then FoundTailCall else FoundBodyInstruction BranchWithUnadjustedStackPointer)
      else if drop_bit 22 word AND 0x2f9 = 0x2a1 then
        (let writeback_bits = drop_bit 23 word AND 3 in
         if writeback_bits = 0 then Val (d, FoundBodyInstruction LoadOfWrongSize)
         else if drop_bit 5 word AND 31 \<noteq> 31 then Val (d, FoundBodyInstruction LoadReferenceRegisterNotSp)
         else
           obind (if writeback_bits = 1 then Val (ed_sp_offset d) else iadd_oc oc (ed_sp_offset d) (imm7_times_8 word)) (\<lambda>reg_loc.
             let pair_reg_1 = word AND 31; pair_reg_2 = drop_bit 10 word AND 31;
                 d1 = record_pair_register pair_reg_1 reg_loc d in
             obind (if pair_reg_2 = 29 \<or> pair_reg_2 = 30 then iadd_oc oc reg_loc 8 else Val 0) (\<lambda>reg_loc_2.
               let d2 = record_pair_register pair_reg_2 reg_loc_2 d1 in
               if writeback_bits = 3 \<or> writeback_bits = 1 then
                 obind (iadd_oc oc (ed_sp_offset d) (imm7_times_8 word)) (\<lambda>s. Val (d2\<lparr>ed_sp_offset := s\<rparr>, NeedMore))
               else Val (d2, NeedMore))))
      else if drop_bit 23 word AND 0x1ff = 0x122 then
        (if word AND 31 \<noteq> 31 \<or> drop_bit 5 word AND 31 \<noteq> 31
         then Val (d, FoundBodyInstruction EpilogueAddSubNotOperatingOnSp)
         else obind (iadd_oc oc (ed_sp_offset d) (imm12_of word)) (\<lambda>s. Val (d\<lparr>ed_sp_offset := s\<rparr>, NeedMore)))
      else Val (d, FoundBodyInstruction EpilogueUnknown))"

text \<open>The loop: the result when the return or tail call is found.\<close>

function epilogue_steps :: "bool \<Rightarrow> u32 \<Rightarrow> u8 list \<Rightarrow> EpilogueDetectorAarch64 \<Rightarrow> EpilogueResult outcome" where
  "epilogue_steps oc word bytes d =
     obind (step_instruction oc word d) (\<lambda>(d', r).
       let found = FoundReturnOrTailCall (ed_sp_offset d') (fp_offset_from_initial_sp d') (lr_offset_from_initial_sp d') in
       case r of
         NeedMore \<Rightarrow>
           if length bytes < 4 then Val ReachedFunctionEndWithoutReturn
           else epilogue_steps oc (u32_from_le_bytes (bytes ! 0) (bytes ! 1) (bytes ! 2) (bytes ! 3)) (drop 4 bytes) d'
       | FoundBodyInstruction uit \<Rightarrow> Val (ProbablyStillInBody uit)
       | FoundReturn \<Rightarrow> Val found
       | FoundTailCall \<Rightarrow> Val found
       | CouldBeAuthTailCall \<Rightarrow>
           Val (if is_auth_tail_call bytes then found else ProbablyStillInBody AutibspNotFollowedByExpectedTailCall))"
  by auto
termination by (relation "measure (\<lambda>(oc, word, bytes, d). length bytes)") auto

declare epilogue_steps.simps [simp del]

text \<open>Whether the bytes at the expected offset before the program counter are an authenticated tail call.\<close>

definition auth_tail_call_at :: "u8 list \<Rightarrow> nat \<Rightarrow> u8 \<Rightarrow> bool" where
  "auth_tail_call_at function_bytes pc_offset off \<longleftrightarrow>
     unat off \<le> pc_offset \<and>
     (let b = drop (pc_offset - unat off) function_bytes in
      take 4 b = [0xff, 0x23, 0x03, 0xd5] \<and> is_auth_tail_call (drop 4 b))"

definition analyze_slice :: "bool \<Rightarrow> u8 list \<Rightarrow> nat \<Rightarrow> EpilogueResult outcome" where
  "analyze_slice oc function_bytes pc_offset =
     (if pc_offset \<le> length function_bytes
      then let bytes = drop pc_offset function_bytes in
        if length bytes < 4 then Val ReachedFunctionEndWithoutReturn
        else
          let word = u32_from_le_bytes (bytes ! 0) (bytes ! 1) (bytes ! 2) (bytes ! 3) in
          case analyze_instruction word of
            NotExpectedInEpilogue \<Rightarrow> Val (ProbablyStillInBody EpilogueUnknown)
          | CouldBeTailCall off \<Rightarrow>
              Val (if auth_tail_call_at function_bytes pc_offset off then FoundReturnOrTailCall 0 None None
                   else if 4 \<le> pc_offset \<and>
                     (let p = drop (pc_offset - 4) function_bytes in
                      instruction_adjusts_stack_pointer (u32_from_le_bytes (p ! 0) (p ! 1) (p ! 2) (p ! 3)))
                   then FoundReturnOrTailCall 0 None None
                   else ProbablyStillInBody EpilogueUnknown)
          | CouldBePartOfAuthTailCall off \<Rightarrow>
              Val (if auth_tail_call_at function_bytes pc_offset off then FoundReturnOrTailCall 0 None None
                   else ProbablyStillInBody EpilogueUnknown)
          | VeryLikelyPartOfEpilogue \<Rightarrow> epilogue_steps oc word (drop 4 bytes) new_epilogue_detector
      else Panic IndexOutOfBounds)"

text \<open>The rule for the offsets found.\<close>

definition epilogue_rule :: "i32 \<Rightarrow> i32 option \<Rightarrow> i32 option \<Rightarrow> UnwindRuleAarch64 option" where
  "epilogue_rule sp_offset fp_off lr_off =
     (case signed_to_u16 (idiv sp_offset 16) of
        None \<Rightarrow> None
      | Some x \<Rightarrow>
          (case (fp_off, lr_off) of
             (None, None) \<Rightarrow> Some (if x = 0 then NoOp else OffsetSp x)
           | (None, Some lr) \<Rightarrow> map_option (OffsetSpAndRestoreLr x) (signed_to_i16 (idiv lr 8))
           | (Some _, None) \<Rightarrow> None
           | (Some fp, Some lr) \<Rightarrow>
               (case signed_to_i16 (idiv fp 8) of
                  None \<Rightarrow> None
                | Some y \<Rightarrow> map_option (OffsetSpAndRestoreFpAndLr x y) (signed_to_i16 (idiv lr 8)))))"

definition unwind_rule_from_detected_epilogue_aarch64 :: "bool \<Rightarrow> u8 list \<Rightarrow> nat \<Rightarrow> UnwindRuleAarch64 option outcome" where
  "unwind_rule_from_detected_epilogue_aarch64 oc bytes pc_offset =
     obind (analyze_slice oc bytes pc_offset) (\<lambda>r.
       Val (case r of
              ProbablyStillInBody _ \<Rightarrow> None
            | ReachedFunctionEndWithoutReturn \<Rightarrow> None
            | FoundReturnOrTailCall s f l \<Rightarrow> epilogue_rule s f l))"

definition rule_from_prologue_analysis_aarch64 :: "bool \<Rightarrow> u8 list \<Rightarrow> nat \<Rightarrow> UnwindRuleAarch64 option outcome" where
  "rule_from_prologue_analysis_aarch64 oc text_bytes pc_offset =
     (if pc_offset \<le> length text_bytes
      then unwind_rule_from_detected_prologue_aarch64 oc (take pc_offset text_bytes) (drop pc_offset text_bytes)
      else Panic IndexOutOfBounds)"

definition rule_from_instruction_analysis_aarch64 :: "bool \<Rightarrow> u8 list \<Rightarrow> nat \<Rightarrow> UnwindRuleAarch64 option outcome" where
  "rule_from_instruction_analysis_aarch64 oc text_bytes pc_offset =
     obind (rule_from_prologue_analysis_aarch64 oc text_bytes pc_offset) (\<lambda>r.
       case r of
         Some rule \<Rightarrow> Val (Some rule)
       | None \<Rightarrow> unwind_rule_from_detected_epilogue_aarch64 oc text_bytes pc_offset)"

end
