(* ===== verification/X86Regs.thy ===== *)
theory X86Regs
  imports Prelude
begin

text \<open>
  \<^verbatim>\<open>src/x86_64/unwindregs.rs\<close>: the register file of the x86_64 unwinder.  The array \<open>regs: [u64; 16]\<close> is
  only ever indexed with \<open>reg as usize\<close>, the discriminant of a \<open>Reg\<close>; \<open>reg_index\<close> is a bijection onto the
  sixteen indices, so the array is modelled as a function on \<open>Reg\<close>.
\<close>

datatype Reg =
    RAX | RDX | RCX | RBX | RSI | RDI | RBP | RSP
  | R8 | R9 | R10 | R11 | R12 | R13 | R14 | R15

primrec reg_index :: "Reg \<Rightarrow> nat" where
  "reg_index RAX = 0" | "reg_index RDX = 1" | "reg_index RCX = 2" | "reg_index RBX = 3"
| "reg_index RSI = 4" | "reg_index RDI = 5" | "reg_index RBP = 6" | "reg_index RSP = 7"
| "reg_index R8 = 8" | "reg_index R9 = 9" | "reg_index R10 = 10" | "reg_index R11 = 11"
| "reg_index R12 = 12" | "reg_index R13 = 13" | "reg_index R14 = 14" | "reg_index R15 = 15"

record UnwindRegsX86_64 =
  x86_ip :: u64
  x86_regs :: "Reg \<Rightarrow> u64"

definition get :: "UnwindRegsX86_64 \<Rightarrow> Reg \<Rightarrow> u64" where
  "get r reg = x86_regs r reg"

definition set_reg :: "Reg \<Rightarrow> u64 \<Rightarrow> UnwindRegsX86_64 \<Rightarrow> UnwindRegsX86_64" where
  "set_reg reg v r = r\<lparr>x86_regs := (x86_regs r)(reg := v)\<rparr>"

definition ip :: "UnwindRegsX86_64 \<Rightarrow> u64" where
  "ip r = x86_ip r"

definition set_ip :: "u64 \<Rightarrow> UnwindRegsX86_64 \<Rightarrow> UnwindRegsX86_64" where
  "set_ip v r = r\<lparr>x86_ip := v\<rparr>"

definition sp :: "UnwindRegsX86_64 \<Rightarrow> u64" where
  "sp r = get r RSP"

definition set_sp :: "u64 \<Rightarrow> UnwindRegsX86_64 \<Rightarrow> UnwindRegsX86_64" where
  "set_sp v r = set_reg RSP v r"

definition bp :: "UnwindRegsX86_64 \<Rightarrow> u64" where
  "bp r = get r RBP"

definition set_bp :: "u64 \<Rightarrow> UnwindRegsX86_64 \<Rightarrow> UnwindRegsX86_64" where
  "set_bp v r = set_reg RBP v r"

definition new_regs :: "u64 \<Rightarrow> u64 \<Rightarrow> u64 \<Rightarrow> UnwindRegsX86_64" where
  "new_regs i s b = set_bp b (set_sp s \<lparr>x86_ip = i, x86_regs = (\<lambda>_. 0)\<rparr>)"

lemma reg_index_bij: "bij_betw reg_index UNIV {..<16}"
proof -
  have "inj reg_index"
  proof (rule injI)
    fix x y assume "reg_index x = reg_index y"
    then show "x = y" by (cases x; cases y; simp)
  qed
  moreover have "range reg_index = {..<16}"
  proof
    show "range reg_index \<subseteq> {..<16}"
    proof
      fix n assume "n \<in> range reg_index"
      then obtain r where "n = reg_index r" by blast
      then show "n \<in> {..<16}" by (cases r) simp_all
    qed
    have "{..<16} \<subseteq> set (map reg_index
       [RAX, RDX, RCX, RBX, RSI, RDI, RBP, RSP, R8, R9, R10, R11, R12, R13, R14, R15])"
      by (simp add: lessThan_nat_numeral lessThan_Suc)
    also have "\<dots> \<subseteq> range reg_index" by (simp only: set_map) blast
    finally show "{..<16} \<subseteq> range reg_index" .
  qed
  ultimately show ?thesis by (simp add: bij_betw_def)
qed

lemma get_set_reg [simp]: "get (set_reg r v s) r' = (if r' = r then v else get s r')"
  by (simp add: get_def set_reg_def)

lemma get_set_ip [simp]: "get (set_ip v s) r = get s r"
  by (simp add: get_def set_ip_def)

lemma ip_simps [simp]:
  "ip (set_ip v s) = v" "ip (set_reg r w s) = ip s" "ip (set_sp w s) = ip s" "ip (set_bp w s) = ip s"
  by (simp_all add: ip_def set_ip_def set_reg_def set_sp_def set_bp_def)

lemma sp_simps [simp]:
  "sp (set_ip v s) = sp s" "sp (set_sp v s) = v" "sp (set_bp v s) = sp s"
  "sp (set_reg r v s) = (if r = RSP then v else sp s)"
  by (simp_all add: sp_def set_sp_def set_bp_def)

lemma bp_simps [simp]:
  "bp (set_ip v s) = bp s" "bp (set_bp v s) = v" "bp (set_sp v s) = bp s"
  "bp (set_reg r v s) = (if r = RBP then v else bp s)"
  by (simp_all add: bp_def set_sp_def set_bp_def)

lemma get_special: "get s RSP = sp s" "get s RBP = bp s"
  by (simp_all add: sp_def bp_def)

lemma new_regs_simps [simp]:
  "ip (new_regs i s b) = i" "sp (new_regs i s b) = s" "bp (new_regs i s b) = b"
  by (simp_all add: new_regs_def) (simp add: ip_def)

lemma UnwindRegs_eqI:
  assumes "ip r = ip s" "\<And>x. get r x = get s x"
  shows "r = s"
proof -
  from assms(2) have "x86_regs r = x86_regs s" by (auto simp: get_def)
  with assms(1) show ?thesis by (simp add: ip_def)
qed

end
