(* ===== verification/RegisterOrdering.thy ===== *)
theory RegisterOrdering
  imports X86Regs "HOL-Library.Multiset"
begin

text \<open>
  \<^verbatim>\<open>src/x86_64/register_ordering.rs\<close>: the compressed encoding of the order in which callee-saved registers
  are popped.  An ordering of \<open>k\<close> of the eight registers is a mixed-radix number with digits
  \<open>index\<^sub>i < 8 - i\<close>, the position of the \<open>i\<close>-th register in the not yet used part of a working permutation.

  The \<open>u16\<close> arithmetic of \<open>encode\<close> is modelled on \<open>nat\<close> with the overflow written out (\<open>u16_result\<close>);
  \<open>encode_loop_code_of\<close> shows that it never overflows.  \<open>decode\<close> divides by a counter that reaches zero, so
  it panics on codes that are too large; \<open>decode_loop_panics_iff\<close> says exactly when.
\<close>

section \<open>The two functions\<close>

definition ENCODE_REGISTERS :: "Reg list" where
  "ENCODE_REGISTERS = [RBX, RBP, RDI, RSI, R12, R13, R14, R15]"

definition swap_elems :: "nat \<Rightarrow> nat \<Rightarrow> 'a list \<Rightarrow> 'a list" where
  "swap_elems i j xs = xs[i := xs ! j, j := xs ! i]"

fun decode_loop :: "nat \<Rightarrow> nat \<Rightarrow> Reg list \<Rightarrow> Reg list outcome" where
  "decode_loop r n regs =
     (if r = 0 then Val regs
      else if n = 0 then Panic DivisionByZero
      else let index = r mod n;
               regs' = (if index \<noteq> 0 then swap_elems (8 - n + index) (8 - n) regs else regs)
           in decode_loop (r div n) (n - 1) regs')"

declare decode_loop.simps [simp del]

definition decode :: "u8 \<Rightarrow> u16 \<Rightarrow> Reg list outcome" where
  "decode cnt encoded_ordering =
     obind (decode_loop (unat encoded_ordering) 8 ENCODE_REGISTERS) (\<lambda>regs. Val (take (unat cnt) regs))"

definition u16_result :: "bool \<Rightarrow> nat \<Rightarrow> nat outcome" where
  "u16_result oc x =
     (if x < 65536 then Val x else if oc then Panic ArithmeticOverflow else Val (x mod 65536))"

fun position :: "'a \<Rightarrow> 'a list \<Rightarrow> nat option" where
  "position x [] = None"
| "position x (y # ys) = (if y = x then Some 0 else map_option Suc (position x ys))"

fun encode_loop :: "bool \<Rightarrow> nat \<Rightarrow> Reg list \<Rightarrow> Reg list \<Rightarrow> nat \<Rightarrow> nat \<Rightarrow> nat option outcome" where
  "encode_loop oc i [] reg_order r scale = Val (Some r)"
| "encode_loop oc i (reg # registers) reg_order r scale =
     (case position reg (drop i reg_order) of
        None \<Rightarrow> Val None
      | Some index \<Rightarrow>
          let reg_order' = (if index \<noteq> 0 then swap_elems (i + index) i reg_order else reg_order) in
          obind (u16_result oc (index * scale)) (\<lambda>p.
          obind (u16_result oc (r + p)) (\<lambda>r'.
          obind (u16_result oc (scale * (8 - i))) (\<lambda>scale'.
            encode_loop oc (Suc i) registers reg_order' r' scale'))))"

definition encode :: "bool \<Rightarrow> Reg list \<Rightarrow> (u8 \<times> u16) option outcome" where
  "encode oc registers =
     (if length registers > length ENCODE_REGISTERS then Val None
      else obind (encode_loop oc 0 registers ENCODE_REGISTERS 0 1)
             (\<lambda>r. Val (map_option (\<lambda>r. (of_nat (length registers), of_nat r)) r)))"

section \<open>Positions and swaps\<close>

lemma position_Some_iff:
  "position x xs = Some k \<longleftrightarrow> k < length xs \<and> xs ! k = x \<and> x \<notin> set (take k xs)"
proof (induction xs arbitrary: k)
  case (Cons y ys)
  then show ?case by (cases k) auto
qed simp

lemma position_None_iff: "position x xs = None \<longleftrightarrow> x \<notin> set xs"
  by (induction xs) auto

lemma position_nth: "distinct xs \<Longrightarrow> k < length xs \<Longrightarrow> position (xs ! k) xs = Some k"
  by (auto simp: position_Some_iff in_set_conv_nth nth_eq_iff_index_eq)

lemma length_swap_elems [simp]: "length (swap_elems i j xs) = length xs"
  by (simp add: swap_elems_def)

lemma swap_elems_same [simp]: "swap_elems i i xs = xs"
  by (simp add: swap_elems_def)

lemma swap_elems_nth:
  "i < length xs \<Longrightarrow> j < length xs \<Longrightarrow> swap_elems i j xs ! j = xs ! i"
  by (simp add: swap_elems_def)

lemma take_swap_elems: "k \<le> i \<Longrightarrow> k \<le> j \<Longrightarrow> take k (swap_elems i j xs) = take k xs"
  by (simp add: swap_elems_def)

lemma mset_swap_elems: "i < length xs \<Longrightarrow> j < length xs \<Longrightarrow> mset (swap_elems i j xs) = mset xs"
  unfolding swap_elems_def by (cases "i = j") (simp_all add: mset_swap)


lemma swap_elems_distinct:
  "distinct xs \<Longrightarrow> i < length xs \<Longrightarrow> j < length xs \<Longrightarrow> distinct (swap_elems i j xs)"
  by (metis mset_eq_imp_distinct_iff mset_swap_elems)

text \<open>One step of the working permutation: bring the element \<open>index\<close> places after \<open>i\<close> to place \<open>i\<close>.\<close>

definition bring :: "nat \<Rightarrow> nat \<Rightarrow> 'a list \<Rightarrow> 'a list" where
  "bring i index xs = (if index \<noteq> 0 then swap_elems (i + index) i xs else xs)"

lemma bring_facts:
  assumes "i + index < length xs"
  shows length_bring: "length (bring i index xs) = length xs"
    and take_bring: "take i (bring i index xs) = take i xs"
    and nth_bring: "bring i index xs ! i = xs ! (i + index)"
    and mset_bring: "mset (bring i index xs) = mset xs"
    and distinct_bring: "distinct (bring i index xs) = distinct xs"
  using assms by (auto simp: bring_def take_swap_elems swap_elems_nth mset_swap_elems
      intro!: mset_eq_imp_distinct_iff)

lemma take_Suc_bring:
  "i + index < length xs \<Longrightarrow> take (Suc i) (bring i index xs) = take i xs @ [xs ! (i + index)]"
  by (simp add: take_Suc_conv_app_nth bring_facts)

lemma set_drop_bring:
  assumes "distinct xs" "i + index < length xs"
  shows "set (drop (Suc i) (bring i index xs)) = set (drop i xs) - {xs ! (i + index)}"
proof -
  have d: "set (drop k ys) = set ys - set (take k ys)" if "distinct ys" for k and ys :: "'a list"
    using that by (metis Diff_cancel Diff_disjoint Un_Diff Un_Diff_Int append_take_drop_id
        distinct_append set_append Diff_triv Int_commute sup_bot_left)
  have "set (drop (Suc i) (bring i index xs)) = set xs - set (take (Suc i) (bring i index xs))"
    using assms mset_eq_setD [OF mset_bring [OF assms(2)]] by (simp add: d distinct_bring)
  also have "\<dots> = (set xs - set (take i xs)) - {xs ! (i + index)}"
    using assms by (auto simp: take_Suc_bring)
  finally show ?thesis using assms by (simp add: d)
qed

section \<open>The mixed-radix code\<close>

fun code_of :: "nat \<Rightarrow> Reg list \<Rightarrow> Reg list \<Rightarrow> nat option" where
  "code_of i [] order = Some 0"
| "code_of i (reg # registers) order =
     (case position reg (drop i order) of
        None \<Rightarrow> None
      | Some index \<Rightarrow>
          map_option (\<lambda>c. index + (8 - i) * c) (code_of (Suc i) registers (bring i index order)))"

fun radix :: "nat \<Rightarrow> nat \<Rightarrow> nat" where
  "radix n 0 = 1"
| "radix n (Suc k) = n * radix (n - 1) k"

lemma code_of_Cons_Some:
  assumes "code_of i (reg # registers) order = Some c" "length order = 8" "i < 8"
  obtains index c' where "i + index < 8" "order ! (i + index) = reg" "index < 8 - i"
    "position reg (drop i order) = Some index"
    "code_of (Suc i) registers (bring i index order) = Some c'" "c = index + (8 - i) * c'"
proof (cases "position reg (drop i order)")
  case (Some index)
  then have "i + index < 8" "order ! (i + index) = reg" "index < 8 - i"
    using assms by (auto simp: position_Some_iff)
  with Some assms that show thesis by auto
qed (use assms in simp)

lemma digit_bound: "index < n \<Longrightarrow> c < b \<Longrightarrow> index + n * c < n * b" for index n c b :: nat
proof -
  assume "index < n" "c < b"
  then have "index + n * c < n + n * c" by simp
  also have "\<dots> = n * Suc c" by simp
  also have "\<dots> \<le> n * b" using \<open>c < b\<close> by (intro mult_le_mono2) simp
  finally show ?thesis .
qed

lemma code_of_less_radix:
  "code_of i registers order = Some c \<Longrightarrow> length order = 8 \<Longrightarrow> i + length registers \<le> 8 \<Longrightarrow>
   c < radix (8 - i) (length registers)"
proof (induction registers arbitrary: i order c)
  case (Cons reg registers)
  from Cons.prems(3) have "i < 8" by simp
  from code_of_Cons_Some [OF Cons.prems(1,2) this] obtain index c' where *:
    "i + index < 8" "index < 8 - i" "code_of (Suc i) registers (bring i index order) = Some c'"
    "c = index + (8 - i) * c'" by metis
  have "c' < radix (8 - Suc i) (length registers)"
    using * Cons.prems by (intro Cons.IH [OF *(3)]) (auto simp: length_bring)
  with * show ?case by (simp add: digit_bound)
qed simp

lemma radix_le_fact: "k \<le> n \<Longrightarrow> radix n k \<le> fact n"
proof (induction k arbitrary: n)
  case (Suc k)
  then obtain m where "n = Suc m" by (cases n) auto
  with Suc have "radix m k \<le> fact m" by simp
  then have "Suc m * radix m k \<le> Suc m * fact m" by (rule mult_le_mono2)
  with \<open>n = Suc m\<close> show ?case by simp
qed (simp add: fact_ge_1)

lemma code_of_Some_iff:
  "distinct order \<Longrightarrow> length order = 8 \<Longrightarrow> i + length registers \<le> 8 \<Longrightarrow>
   (\<exists>c. code_of i registers order = Some c) \<longleftrightarrow> distinct registers \<and> set registers \<subseteq> set (drop i order)"
proof (induction registers arbitrary: i order)
  case (Cons reg registers)
  show ?case
  proof (cases "position reg (drop i order)")
    case None
    then have "reg \<notin> set (drop i order)" by (simp add: position_None_iff)
    with None show ?thesis by simp
  next
    case (Some index)
    then have k: "i + index < length order" and r: "reg = order ! (i + index)"
      using Cons.prems by (auto simp: position_Some_iff)
    have "(\<exists>c. code_of (Suc i) registers (bring i index order) = Some c) \<longleftrightarrow>
       distinct registers \<and> set registers \<subseteq> set (drop i order) - {reg}"
      using Cons.IH [of "bring i index order" "Suc i"] Cons.prems k
      by (simp add: length_bring distinct_bring set_drop_bring r)
    moreover have "reg \<in> set (drop i order)"
      using Some position_None_iff by (metis option.distinct(1))
    ultimately show ?thesis using Some by auto
  qed
qed simp

section \<open>\<open>encode\<close> computes the code\<close>

lemma u16_result_Val [simp]: "x < 65536 \<Longrightarrow> u16_result oc x = Val x"
  by (simp add: u16_result_def)

lemma encode_loop_code_of:
  "length order = 8 \<Longrightarrow> i + length registers \<le> 8 \<Longrightarrow> r < scale \<Longrightarrow> scale * fact (8 - i) \<le> 40320 \<Longrightarrow>
   encode_loop oc i registers order r scale = Val (map_option (\<lambda>c. r + scale * c) (code_of i registers order))"
proof (induction registers arbitrary: i order r scale)
  case (Cons reg registers)
  show ?case
  proof (cases "position reg (drop i order)")
    case (Some index)
    then have k: "i + index < 8" using Cons.prems by (auto simp: position_Some_iff)
    define n where "n = 8 - i"
    have n: "index < n" "8 - i = n" "Suc (8 - Suc i) = n" using k by (auto simp: n_def)
    have f: "fact n = n * fact (8 - Suc i)" by (metis n(3) fact_Suc of_nat_id)
    have sn: "scale * n \<le> 40320"
    proof -
      have "scale * n * 1 \<le> scale * n * fact (8 - Suc i)" by (intro mult_le_mono2 fact_ge_1)
      also have "\<dots> \<le> 40320" using Cons.prems(4) n(2) f by (simp add: mult.assoc)
      finally show ?thesis by simp
    qed
    have "r + index * scale < scale * n" using digit_bound [of r scale index n] Cons.prems(3) n
      by (simp add: mult.commute)
    moreover from this have "index * scale < scale * n" by linarith
    ultimately have "encode_loop oc i (reg # registers) order r scale =
        encode_loop oc (Suc i) registers (bring i index order) (r + index * scale) (scale * n)"
      using Some sn n by (simp add: bring_def Let_def mult.commute)
    also have "\<dots> = Val (map_option (\<lambda>c. r + index * scale + scale * n * c)
                         (code_of (Suc i) registers (bring i index order)))"
      using Cons.prems k f n \<open>r + index * scale < scale * n\<close>
      by (intro Cons.IH) (auto simp: length_bring mult.assoc)
    also have "\<dots> = Val (map_option (\<lambda>c. r + scale * c) (code_of i (reg # registers) order))"
      using Some n by (simp add: option.map_comp comp_def algebra_simps)
    finally show ?thesis .
  qed (use Cons in simp)
qed simp

lemma length_ENCODE_REGISTERS [simp]: "length ENCODE_REGISTERS = 8"
  by (simp add: ENCODE_REGISTERS_def)

lemma distinct_ENCODE_REGISTERS [simp]: "distinct ENCODE_REGISTERS"
  by (simp add: ENCODE_REGISTERS_def)

lemma fact_8: "fact 8 = (40320 :: nat)"
  by (simp add: fact_numeral)

lemma encode_eq:
  "encode oc registers =
     Val (if length registers > 8 then None
          else map_option (\<lambda>c. (of_nat (length registers), of_nat c)) (code_of 0 registers ENCODE_REGISTERS))"
  by (simp add: encode_def encode_loop_code_of fact_8 option.map_comp comp_def)

section \<open>\<open>decode\<close> inverts the code\<close>

lemma decode_loop_0 [simp]: "decode_loop 0 n order = Val order"
  by (subst decode_loop.simps) simp

lemma decode_loop_step:
  assumes "index < n"
  shows "decode_loop (index + n * c) n order = decode_loop c (n - 1) (bring (8 - n) index order)"
proof (cases "index + n * c = 0")
  case False
  with assms show ?thesis by (subst decode_loop.simps) (simp add: bring_def Let_def)
qed (use assms in \<open>auto simp: bring_def\<close>)

lemma decode_loop_panics_iff: "decode_loop r n order = Panic p \<longleftrightarrow> fact n \<le> r \<and> p = DivisionByZero"
proof (induction n arbitrary: r order)
  case 0
  then show ?case by (subst decode_loop.simps) auto
next
  case (Suc n)
  let ?o = "bring (8 - Suc n) (r mod Suc n) order"
  have "decode_loop r (Suc n) order = decode_loop (r div Suc n) n ?o"
    using decode_loop_step [of "r mod Suc n" "Suc n" "r div Suc n" order]
    unfolding mod_mult_div_eq by simp
  moreover have "fact n \<le> r div Suc n \<longleftrightarrow> fact (Suc n) \<le> r"
    by (subst less_eq_div_iff_mult_less_eq) (simp_all add: mult.commute)
  ultimately show ?case using Suc.IH by simp
qed

lemma decode_loop_prefix:
  "decode_loop c n order = Val order' \<Longrightarrow> length order = 8 \<Longrightarrow> n \<le> 8 \<Longrightarrow>
   length order' = 8 \<and> take (8 - n) order' = take (8 - n) order \<and> mset order' = mset order"
proof (induction n arbitrary: c order)
  case 0
  then show ?case by (subst (asm) decode_loop.simps) (auto split: if_splits)
next
  case (Suc n)
  define order\<^sub>1 where "order\<^sub>1 = bring (8 - Suc n) (c mod Suc n) order"
  have k: "8 - Suc n + c mod Suc n < length order"
    using Suc.prems(2,3) mod_less_divisor [OF zero_less_Suc, of c n] by linarith
  have o: "length order\<^sub>1 = 8" "mset order\<^sub>1 = mset order" "take (8 - Suc n) order\<^sub>1 = take (8 - Suc n) order"
    using Suc.prems(2) bring_facts [OF k] by (simp_all only: order\<^sub>1_def)
  have "decode_loop (c div Suc n) n order\<^sub>1 = Val order'"
    using decode_loop_step [of "c mod Suc n" "Suc n" "c div Suc n" order] Suc.prems
    unfolding mod_mult_div_eq order\<^sub>1_def by simp
  from Suc.IH [OF this o(1)] Suc.prems(3) have IH: "length order' = 8"
    "take (8 - n) order' = take (8 - n) order\<^sub>1" "mset order' = mset order"
    by (simp_all add: o)
  have "take (8 - Suc n) order' = take (8 - Suc n) (take (8 - n) order')" by (simp add: min_def)
  also have "\<dots> = take (8 - Suc n) order\<^sub>1" by (simp add: IH min_def)
  finally show ?case using IH o by simp
qed

lemma decode_code_of:
  "code_of i registers order = Some c \<Longrightarrow> length order = 8 \<Longrightarrow> i + length registers \<le> 8 \<Longrightarrow>
   \<exists>order'. decode_loop c (8 - i) order = Val order' \<and>
            take (i + length registers) order' = take i order @ registers"
proof (induction registers arbitrary: i order c)
  case (Cons reg registers)
  from Cons.prems(3) have "i < 8" by simp
  from code_of_Cons_Some [OF Cons.prems(1,2) this] obtain index c' where *:
    "i + index < 8" "index < 8 - i" "order ! (i + index) = reg"
    "code_of (Suc i) registers (bring i index order) = Some c'" "c = index + (8 - i) * c'" by metis
  have "decode_loop c (8 - i) order = decode_loop c' (8 - Suc i) (bring i index order)"
    using * decode_loop_step [of index "8 - i" c' order] \<open>i < 8\<close> by simp
  moreover obtain order' where "decode_loop c' (8 - Suc i) (bring i index order) = Val order'"
    "take (Suc i + length registers) order' = take (Suc i) (bring i index order) @ registers"
    using Cons.IH [OF *(4)] * Cons.prems by (auto simp: length_bring)
  ultimately show ?case using * Cons.prems by (simp add: take_Suc_bring)
qed auto

lemma code_of_decode:
  "c < radix (8 - i) k \<Longrightarrow> i + k \<le> 8 \<Longrightarrow> length order = 8 \<Longrightarrow> distinct order \<Longrightarrow>
   \<exists>order'. decode_loop c (8 - i) order = Val order' \<and> code_of i (take k (drop i order')) order = Some c"
proof (induction k arbitrary: i order c)
  case (Suc k)
  define n index where "n = 8 - i" and "index = c mod n"
  have "0 < n" using Suc.prems(2) by (simp add: n_def)
  then have "index < n" by (simp add: index_def)
  then have n: "0 < n" "i + index < length order" "8 - n = i" "8 - Suc i = n - 1"
    using Suc.prems(2,3) by (auto simp: n_def)
  have "c div n < radix (8 - Suc i) k"
    using Suc.prems(1) n by (simp add: n_def less_mult_imp_div_less mult.commute)
  from Suc.IH [OF this, of "bring i index order"] Suc.prems n obtain order' where o:
    "decode_loop (c div n) (8 - Suc i) (bring i index order) = Val order'"
    "code_of (Suc i) (take k (drop (Suc i) order')) (bring i index order) = Some (c div n)"
    by (auto simp: length_bring distinct_bring)
  have "decode_loop c n order = Val order'"
    using decode_loop_step [of index n "c div n" order] o n by (simp add: index_def)
  moreover have t: "length order' = 8" "take (Suc i) order' = take i order @ [order ! (i + index)]"
    using decode_loop_prefix [OF o(1)] n Suc.prems by (auto simp: length_bring take_Suc_bring)
  have "order' ! i = order ! (i + index)"
    by (metis Suc.prems(3) Suc_leI add_leD1 lessI n(2) length_take min.absorb2 nth_append_length nth_take
        order_less_imp_le t(2))
  then have "take (Suc k) (drop i order') = order ! (i + index) # take k (drop (Suc i) order')"
    using t(1) n Suc.prems by (metis Cons_nth_drop_Suc Suc_leD add_Suc_right add_lessD1 take_Suc_Cons)
  moreover have "position (order ! (i + index)) (drop i order) = Some index"
    using Suc.prems n by (auto simp: position_nth [of "drop i order" index, simplified])
  ultimately show ?case using o(2) by (simp add: n_def index_def)
qed simp


section \<open>The codec\<close>

lemma encode_SomeD:
  assumes "encode oc registers = Val (Some (c, r))"
  obtains k where "length registers \<le> 8" "unat c = length registers" "unat r = k"
    "code_of 0 registers ENCODE_REGISTERS = Some k" "k < 40320"
proof -
  from assms obtain k where k: "length registers \<le> 8" "c = of_nat (length registers)" "r = of_nat k"
    "code_of 0 registers ENCODE_REGISTERS = Some k"
    by (auto simp: encode_eq split: if_splits)
  have "k < radix 8 (length registers)"
    using code_of_less_radix [OF k(4)] k(1) by simp
  also have "\<dots> \<le> 40320" using radix_le_fact [OF k(1)] by (simp only: fact_8)
  finally have "k < 40320" .
  moreover have "unat c = length registers" using k by (simp add: unat_of_nat)
  moreover have "unat r = k" using k(3) \<open>k < 40320\<close> by (simp add: unat_of_nat)
  ultimately show thesis using that k by blast
qed

lemma decode_of_encode: "encode oc registers = Val (Some (c, r)) \<Longrightarrow> decode c r = Val registers"
proof -
  assume "encode oc registers = Val (Some (c, r))"
  then obtain k where k: "length registers \<le> 8" "unat c = length registers" "unat r = k"
    "code_of 0 registers ENCODE_REGISTERS = Some k" by (rule encode_SomeD)
  then obtain order' where "decode_loop k 8 ENCODE_REGISTERS = Val order'"
    "take (length registers) order' = registers"
    using decode_code_of [OF k(4)] by auto
  with k show ?thesis by (simp add: decode_def)
qed

definition encode_opt :: "Reg list \<Rightarrow> (u8 \<times> u16) option" where
  "encode_opt registers = (case encode False registers of Val e \<Rightarrow> e | Panic _ \<Rightarrow> None)"

lemma encode_eq_opt: "encode oc registers = Val (encode_opt registers)"
  by (simp add: encode_opt_def encode_eq)

interpretation register_codec: codec encode_opt "\<lambda>(c, r). decode c r"
  by unfold_locales (auto simp: encode_eq_opt intro: decode_of_encode [of False])

lemma encode_opt_SomeD:
  "encode_opt registers = Some (c, r) \<Longrightarrow> decode c r = Val registers"
  using register_codec.dec_enc [of registers "(c, r)"] by simp

section \<open>Properties\<close>

text \<open>
  C25: Every register ordering that \<open>encode\<close> accepts is restored exactly by \<open>decode\<close>: the round trip which the
  source's test \<open>roundtrip_all\<close> enumerates holds for every list of registers, whatever the overflow checks.
\<close>

theorem register_ordering_roundtrip:
  assumes "encode oc registers = Val (Some (c, r))"
  shows "decode c r = Val registers"
  using encode_opt_SomeD assms by (simp add: encode_eq_opt)

theorem register_ordering_roundtrip_witness:
  "decode 3 119 = Val [R15, RBP, R12]"
proof -
  have "encode True [R15, RBP, R12] = Val (Some (3, 119))"
    by (simp add: encode_eq ENCODE_REGISTERS_def bring_def swap_elems_def)
  then show ?thesis by (rule register_ordering_roundtrip)
qed

text \<open>
  \<open>encode\<close> never panics, and it finds a code exactly for the duplicate-free lists of the eight callee-saved
  registers; the code of such a list is below \<open>8! = 40320\<close> and the count is the length of the list.
\<close>

lemma encode_total_and_exact:
  "\<exists>e. encode oc registers = Val e \<and>
       (e \<noteq> None \<longleftrightarrow> distinct registers \<and> set registers \<subseteq> set ENCODE_REGISTERS) \<and>
       (case e of None \<Rightarrow> True | Some (c, r) \<Rightarrow> unat c = length registers \<and> unat r < 40320)"
proof -
  have "length registers \<le> 8" if "distinct registers" "set registers \<subseteq> set ENCODE_REGISTERS"
    using that card_mono [of "set ENCODE_REGISTERS" "set registers"]
    by (simp add: distinct_card)
  moreover have "(\<exists>c. code_of 0 registers ENCODE_REGISTERS = Some c) \<longleftrightarrow>
      distinct registers \<and> set registers \<subseteq> set ENCODE_REGISTERS" if "length registers \<le> 8"
    using that code_of_Some_iff [of ENCODE_REGISTERS 0 registers] by simp
  ultimately have "encode_opt registers \<noteq> None \<longleftrightarrow> distinct registers \<and> set registers \<subseteq> set ENCODE_REGISTERS"
    by (auto simp: encode_opt_def encode_eq)
  moreover have "case encode_opt registers of None \<Rightarrow> True
                 | Some (c, r) \<Rightarrow> unat c = length registers \<and> unat r < 40320"
    by (auto split: option.splits simp: encode_eq_opt intro: encode_SomeD [of False registers])
  ultimately show ?thesis by (auto simp: encode_eq_opt)
qed

text \<open>
  The other direction: every code with a count of at most eight that is in the range of that count decodes to
  an ordering which encodes to the same code, so the encoding is a bijection.
\<close>

lemma decode_encode_roundtrip:
  assumes "unat c \<le> 8" and "unat r < radix 8 (unat c)"
  shows "\<exists>registers. decode c r = Val registers \<and> encode oc registers = Val (Some (c, r))"
proof -
  obtain order' where o: "decode_loop (unat r) 8 ENCODE_REGISTERS = Val order'"
    "code_of 0 (take (unat c) order') ENCODE_REGISTERS = Some (unat r)"
    using code_of_decode [of "unat r" 0 "unat c" ENCODE_REGISTERS] assms by auto
  moreover have "length order' = 8" using decode_loop_prefix [OF o(1)] by simp
  ultimately show ?thesis using assms by (simp add: decode_def encode_eq)
qed

text \<open>
  \<open>decode\<close> panics with a division by zero exactly on the codes from \<open>8! = 40320\<close> on, which \<open>encode\<close> never
  produces.
\<close>

lemma decode_panics_iff: "decode c r = Panic p \<longleftrightarrow> 40320 \<le> unat r \<and> p = DivisionByZero"
  by (auto simp: decode_def obind_Panic_iff decode_loop_panics_iff fact_8)

end
