(* ===== verification/X86Rule.thy ===== *)
theory X86Rule
  imports RegisterOrdering AddSigned UnwindRule
begin

text \<open>
  \<^verbatim>\<open>src/x86_64/unwind_rule.rs\<close>: the cacheable unwind rules of x86_64 and their execution.  The callback
  \<open>read_stack: FnMut(u64) -> Result<u64, ()>\<close> is a function from addresses to an optional value, a fixed view
  of the stack memory during the execution of a rule.  \<open>exec_x86_64\<close> returns the registers it leaves behind
  together with the result, because the source mutates them in place, also on some error paths.
\<close>

datatype UnwindRuleX86_64 =
    EndOfStack
  | JustReturn
  | JustReturnIfFirstFrameOtherwiseFp
  | OffsetSp u16
  | OffsetSpAndRestoreBp u16 i16
  | UseFramePointer
  | OffsetSpAndPopRegisters u16 u8 u16

datatype OffsetOrPop = NoOffsetOrPop | OffsetBy8 u16 | Pop Reg

section \<open>Construction of rules\<close>

text \<open>The \<open>for\<close> loop that collects the popped registers into an \<open>ArrayVec<Reg, 8>\<close>.\<close>

fun collect_pops :: "OffsetOrPop list \<Rightarrow> Reg list \<Rightarrow> Reg list option" where
  "collect_pops [] regs = Some regs"
| "collect_pops (Pop reg # ops) regs = (if length regs < 8 then collect_pops ops (regs @ [reg]) else None)"
| "collect_pops (_ # ops) regs = None"

definition for_sequence_of_offset_or_pop :: "bool \<Rightarrow> OffsetOrPop list \<Rightarrow> UnwindRuleX86_64 option outcome" where
  "for_sequence_of_offset_or_pop oc ops =
     (let (sp_offset_by_8, rest) = (case ops of OffsetBy8 offset # rest \<Rightarrow> (offset, rest) | _ \<Rightarrow> (0, ops)) in
      case collect_pops rest [] of
        None \<Rightarrow> Val None
      | Some regs \<Rightarrow>
          if regs = [] \<and> sp_offset_by_8 = 0 then Val (Some JustReturn)
          else obind (encode oc regs) (\<lambda>e.
                 Val (map_option (\<lambda>(register_count, encoded).
                        OffsetSpAndPopRegisters sp_offset_by_8 register_count encoded) e)))"

definition rule_for_stub_functions_x86_64 :: UnwindRuleX86_64 where
  "rule_for_stub_functions_x86_64 = JustReturn"

definition rule_for_function_start_x86_64 :: UnwindRuleX86_64 where
  "rule_for_function_start_x86_64 = JustReturn"

definition fallback_rule_x86_64 :: UnwindRuleX86_64 where
  "fallback_rule_x86_64 = UseFramePointer"

section \<open>Execution\<close>

text \<open>\<open>u64::from(x) * 8\<close> for a \<open>u16\<close> and \<open>i64::from(x) * 8\<close> for an \<open>i16\<close>; neither product can overflow
  (\<open>uint_offset_by_8\<close>, \<open>sint_soffset_by_8\<close>).\<close>

definition offset_by_8 :: "u16 \<Rightarrow> u64" where
  "offset_by_8 x = ucast x * 8"

definition soffset_by_8 :: "i16 \<Rightarrow> i64" where
  "soffset_by_8 x = scast x * 8"

fun pop_registers ::
  "Reg list \<Rightarrow> u64 \<Rightarrow> UnwindRegsX86_64 \<Rightarrow> stack_reader \<Rightarrow> UnwindRegsX86_64 \<times> (u64, Error) result" where
  "pop_registers [] s regs rd = (regs, Ok s)"
| "pop_registers (reg # rs) s regs rd =
     (case rd s of
        None \<Rightarrow> (regs, Err (CouldNotReadStack s))
      | Some v \<Rightarrow>
          (case checked_add s 8 of
             None \<Rightarrow> (regs, Err IntegerOverflow)
           | Some s' \<Rightarrow> pop_registers rs s' (set_reg reg v regs) rd))"

fun finish_pops ::
  "UnwindRegsX86_64 \<times> (u64, Error) result \<Rightarrow>
   UnwindRegsX86_64 \<times> (u64 \<times> u64, (u64 option, Error) result) flow" where
  "finish_pops (regs', Err e) = (regs', Return (Err e))"
| "finish_pops (regs', Ok s') =
     (regs', case checked_add s' 8 of
               None \<Rightarrow> Return (Err IntegerOverflow)
             | Some new_sp \<Rightarrow> Continue (new_sp, bp regs'))"

text \<open>The walk along the frame pointer shared by two rules.\<close>

definition use_frame_pointer_x86_64 ::
  "UnwindRegsX86_64 \<Rightarrow> stack_reader \<Rightarrow> (u64 \<times> u64, Error) result" where
  "use_frame_pointer_x86_64 regs rd =
     (case checked_add (bp regs) 16 of
        None \<Rightarrow> Err IntegerOverflow
      | Some new_sp \<Rightarrow>
          if new_sp \<le> sp regs then Err FramepointerUnwindingMovedBackwards
          else (case rd (bp regs) of
                  None \<Rightarrow> Err (CouldNotReadStack (bp regs))
                | Some new_bp \<Rightarrow> Ok (new_sp, new_bp)))"

definition flow_of_result :: "('c, 'e) result \<Rightarrow> ('c, ('r, 'e) result) flow" where
  "flow_of_result r = (case r of Ok x \<Rightarrow> Continue x | Err e \<Rightarrow> Return (Err e))"

text \<open>The \<open>match self\<close> of \<open>exec\<close>: either an early return or the new stack and base pointers.\<close>

fun exec_match_x86_64 ::
  "UnwindRuleX86_64 \<Rightarrow> bool \<Rightarrow> UnwindRegsX86_64 \<Rightarrow> stack_reader \<Rightarrow>
   (UnwindRegsX86_64 \<times> (u64 \<times> u64, (u64 option, Error) result) flow) outcome" where
  "exec_match_x86_64 EndOfStack first regs rd = Val (regs, Return (Ok None))"
| "exec_match_x86_64 JustReturn first regs rd =
     Val (regs, flow_of_result (map_result (\<lambda>new_sp. (new_sp, bp regs))
                 (ok_or (checked_add (sp regs) 8) IntegerOverflow)))"
| "exec_match_x86_64 JustReturnIfFirstFrameOtherwiseFp first regs rd =
     (if first
      then Val (regs, flow_of_result (map_result (\<lambda>new_sp. (new_sp, bp regs))
                       (ok_or (checked_add (sp regs) 8) IntegerOverflow)))
      else Val (regs, flow_of_result (use_frame_pointer_x86_64 regs rd)))"
| "exec_match_x86_64 (OffsetSp sp_offset_by_8) first regs rd =
     Val (regs, flow_of_result (map_result (\<lambda>new_sp. (new_sp, bp regs))
                 (ok_or (checked_add (sp regs) (offset_by_8 sp_offset_by_8)) IntegerOverflow)))"
| "exec_match_x86_64 (OffsetSpAndRestoreBp sp_offset_by_8 bp_storage_offset_from_sp_by_8) first regs rd =
     Val (regs,
       case checked_add (sp regs) (offset_by_8 sp_offset_by_8) of
         None \<Rightarrow> Return (Err IntegerOverflow)
       | Some new_sp \<Rightarrow>
           (case checked_add_signed (sp regs) (soffset_by_8 bp_storage_offset_from_sp_by_8) of
              None \<Rightarrow> Return (Err IntegerOverflow)
            | Some bp_location \<Rightarrow>
                (case rd bp_location of
                   Some new_bp \<Rightarrow> Continue (new_sp, new_bp)
                 | None \<Rightarrow>
                     if first \<and> bp_location < sp regs then Continue (new_sp, bp regs)
                     else Return (Err (CouldNotReadStack bp_location)))))"
| "exec_match_x86_64 UseFramePointer first regs rd =
     (if bp regs = 0 then Val (regs, Return (Ok None))
      else Val (regs, flow_of_result (use_frame_pointer_x86_64 regs rd)))"
| "exec_match_x86_64 (OffsetSpAndPopRegisters sp_offset_by_8 register_count encoded) first regs rd =
     (case checked_add (sp regs) (offset_by_8 sp_offset_by_8) of
        None \<Rightarrow> Val (regs, Return (Err IntegerOverflow))
      | Some s \<Rightarrow>
          obind (decode register_count encoded) (\<lambda>to_pop.
            Val (finish_pops (pop_registers to_pop s regs rd))))"

text \<open>The end of \<open>exec\<close>: read the return address below the new stack pointer, detect the end of the stack and
  the lack of progress, and commit the new register values.\<close>

definition return_to_caller_x86_64 ::
  "bool \<Rightarrow> u64 \<Rightarrow> UnwindRegsX86_64 \<Rightarrow> u64 \<Rightarrow> u64 \<Rightarrow> stack_reader \<Rightarrow>
   (UnwindRegsX86_64 \<times> (u64 option, Error) result) outcome" where
  "return_to_caller_x86_64 oc old_sp regs new_sp new_bp rd =
     obind (sub_oc oc new_sp 8) (\<lambda>ra_location.
       case rd ra_location of
         None \<Rightarrow> Val (regs, Err (CouldNotReadStack ra_location))
       | Some return_address \<Rightarrow>
           if return_address = 0 then Val (regs, Ok None)
           else if new_sp = old_sp \<and> return_address = ip regs then Val (regs, Err DidNotAdvance)
           else Val (set_bp new_bp (set_sp new_sp (set_ip return_address regs)), Ok (Some return_address)))"

definition exec_x86_64 ::
  "bool \<Rightarrow> UnwindRuleX86_64 \<Rightarrow> bool \<Rightarrow> UnwindRegsX86_64 \<Rightarrow> stack_reader \<Rightarrow>
   (UnwindRegsX86_64 \<times> (u64 option, Error) result) outcome" where
  "exec_x86_64 oc rule is_first_frame regs rd =
     obind (exec_match_x86_64 rule is_first_frame regs rd) (\<lambda>(regs', fl).
       case fl of
         Return r \<Rightarrow> Val (regs', r)
       | Continue (new_sp, new_bp) \<Rightarrow> return_to_caller_x86_64 oc (sp regs) regs' new_sp new_bp rd)"

section \<open>Facts about the parts of an execution\<close>

lemma uint_offset_by_8: "uint (offset_by_8 x) = 8 * uint x"
proof -
  have "uint x < 2 ^ 16" using uint_lt2p [of x] by simp
  then have "uint (word_of_int (8 * uint x) :: u64) = 8 * uint x" by (intro uint_of_range) simp_all
  moreover have "offset_by_8 x = word_of_int (8 * uint x)" by (simp add: offset_by_8_def)
  ultimately show ?thesis by metis
qed

lemma sint_soffset_by_8: "sint (soffset_by_8 x) = 8 * sint x"
proof -
  have "- (2 ^ 15) \<le> sint x" "sint x < 2 ^ 15" using sint_lt [of x] sint_ge [of x] by simp_all
  then have "sint (word_of_int (8 * sint x) :: i64) = 8 * sint x"
    by (intro sint_of_range) (simp add: in_signed_range_def)
  moreover have "soffset_by_8 x = word_of_int (8 * sint x)" by (simp add: soffset_by_8_def)
  ultimately show ?thesis by metis
qed

lemma offset_by_8_0_iff [simp]: "offset_by_8 x = 0 \<longleftrightarrow> x = 0"
  by (metis uint_offset_by_8 uint_0_iff mult_eq_0_iff zero_neq_numeral)

lemma offset_by_8_ge_8: "x \<noteq> 0 \<Longrightarrow> 8 \<le> offset_by_8 x"
proof -
  assume "x \<noteq> 0"
  then have "1 \<le> uint x" by (metis int_one_le_iff_zero_less order_less_le uint_0_iff uint_ge_0)
  then show ?thesis by (simp add: word_le_def uint_offset_by_8)
qed

lemma flow_of_result_simps [simp]:
  "flow_of_result (Ok x) = Continue x" "flow_of_result (Err e) = Return (Err e)"
  by (simp_all add: flow_of_result_def)

lemma flow_of_result_Continue [simp]: "flow_of_result r = Continue x \<longleftrightarrow> r = Ok x"
  by (cases r) auto

lemma flow_of_result_Return: "flow_of_result r = Return x \<longleftrightarrow> (\<exists>e. r = Err e \<and> x = Err e)"
  by (cases r) auto

lemma map_result_Ok [simp]: "map_result f r = Ok y \<longleftrightarrow> (\<exists>x. r = Ok x \<and> y = f x)"
  by (cases r) auto

lemma ok_or_Ok [simp]: "ok_or m e = Ok x \<longleftrightarrow> m = Some x"
  by (cases m) auto

lemma use_frame_pointer_Ok_iff:
  "use_frame_pointer_x86_64 regs rd = Ok (new_sp, new_bp) \<longleftrightarrow>
     checked_add (bp regs) 16 = Some new_sp \<and> sp regs < new_sp \<and> rd (bp regs) = Some new_bp"
  by (auto simp: use_frame_pointer_x86_64_def split: option.splits)

lemma pop_registers_frame:
  "pop_registers rs s regs rd = (regs', res) \<Longrightarrow>
     ip regs' = ip regs \<and> (\<forall>r. r \<notin> set rs \<longrightarrow> get regs' r = get regs r)"
proof (induction rs arbitrary: s regs)
  case (Cons r rs)
  then show ?case by (fastforce split: option.splits)
qed auto

lemma pop_registers_Ok_ge: "pop_registers rs s regs rd = (regs', Ok s') \<Longrightarrow> s \<le> s'"
proof (induction rs arbitrary: s regs)
  case (Cons r rs)
  then obtain s1 where "checked_add s 8 = Some s1" "s1 \<le> s'" by (auto split: option.splits)
  then show ?case using checked_add_SomeD(2) by fastforce
qed auto

lemma set_decode: "decode c r = Val rs \<Longrightarrow> set rs \<subseteq> set ENCODE_REGISTERS"
proof -
  assume "decode c r = Val rs"
  then obtain order' where o: "decode_loop (unat r) 8 ENCODE_REGISTERS = Val order'" "rs = take (unat c) order'"
    by (auto simp: decode_def)
  from decode_loop_prefix [OF o(1)] have "mset order' = mset ENCODE_REGISTERS" by simp
  then have "set order' = set ENCODE_REGISTERS" by (rule mset_eq_setD)
  then show ?thesis using set_take_subset [of "unat c" order'] o(2) by simp
qed

lemma RSP_notin_ENCODE_REGISTERS: "RSP \<notin> set ENCODE_REGISTERS"
  by (simp add: ENCODE_REGISTERS_def)


lemma fst_finish_pops [simp]: "fst (finish_pops p) = fst p"
  by (cases p rule: finish_pops.cases) simp_all

lemma finish_pops_Continue:
  "finish_pops p = (regs', Continue (new_sp, new_bp)) \<longleftrightarrow>
     (\<exists>s'. p = (regs', Ok s') \<and> checked_add s' 8 = Some new_sp \<and> new_bp = bp regs')"
  by (cases p rule: finish_pops.cases) (auto split: option.splits)

lemma finish_pops_never_Some: "finish_pops p \<noteq> (regs', Return (Ok (Some ra)))"
  by (cases p rule: finish_pops.cases) (auto split: option.splits)

lemma exec_match_pop_cases:
  assumes "exec_match_x86_64 (OffsetSpAndPopRegisters off c e) first regs rd = Val (regs', fl)"
  obtains "checked_add (sp regs) (offset_by_8 off) = None" "regs' = regs" "fl = Return (Err IntegerOverflow)"
  | s to_pop where "checked_add (sp regs) (offset_by_8 off) = Some s" "decode c e = Val to_pop"
      "finish_pops (pop_registers to_pop s regs rd) = (regs', fl)"
  using assms by (auto split: option.splits)

lemma exec_match_frame:
  assumes "exec_match_x86_64 rule first regs rd = Val (regs', fl)"
  shows "ip regs' = ip regs" "sp regs' = sp regs"
    "(\<And>off c e. rule \<noteq> OffsetSpAndPopRegisters off c e) \<Longrightarrow> regs' = regs"
proof -
  have "ip regs' = ip regs \<and> sp regs' = sp regs \<and>
        ((\<forall>off c e. rule \<noteq> OffsetSpAndPopRegisters off c e) \<longrightarrow> regs' = regs)"
  proof (cases rule)
    case (OffsetSpAndPopRegisters off c e)
    from assms [unfolded OffsetSpAndPopRegisters] show ?thesis
    proof (cases rule: exec_match_pop_cases)
      case (2 s to_pop)
      then obtain res where p: "pop_registers to_pop s regs rd = (regs', res)"
        by (metis fst_conv fst_finish_pops surjective_pairing)
      from 2(2) have "RSP \<notin> set to_pop" using set_decode RSP_notin_ENCODE_REGISTERS by blast
      with pop_registers_frame [OF p] OffsetSpAndPopRegisters show ?thesis
        by (simp add: sp_def)
    qed (use OffsetSpAndPopRegisters in simp)
  qed (use assms in \<open>auto split: if_splits\<close>)
  then show "ip regs' = ip regs" "sp regs' = sp regs"
    "(\<And>off c e. rule \<noteq> OffsetSpAndPopRegisters off c e) \<Longrightarrow> regs' = regs" by auto
qed

lemma exec_match_pop_Continue:
  assumes "exec_match_x86_64 (OffsetSpAndPopRegisters off c e) first regs rd = Val (regs', Continue (new_sp, new_bp))"
  obtains to_pop s s' where "checked_add (sp regs) (offset_by_8 off) = Some s" "decode c e = Val to_pop"
    "pop_registers to_pop s regs rd = (regs', Ok s')" "checked_add s' 8 = Some new_sp" "new_bp = bp regs'"
  using assms by (cases rule: exec_match_pop_cases) (auto simp: finish_pops_Continue)

lemma exec_match_sp_ge:
  assumes "exec_match_x86_64 rule first regs rd = Val (regs', Continue (new_sp, new_bp))"
  shows "sp regs \<le> new_sp"
proof (cases rule)
  case (OffsetSpAndPopRegisters off c e)
  from assms [unfolded OffsetSpAndPopRegisters] show ?thesis
  proof (rule exec_match_pop_Continue)
    fix to_pop s s' assume "checked_add (sp regs) (offset_by_8 off) = Some s"
      "pop_registers to_pop s regs rd = (regs', Ok s')" "checked_add s' 8 = Some new_sp"
    then have "sp regs \<le> s" "s \<le> s'" "s' \<le> new_sp"
      using checked_add_SomeD(2) pop_registers_Ok_ge by blast+
    then show ?thesis by simp
  qed
qed (use assms in \<open>auto simp: use_frame_pointer_Ok_iff dest: checked_add_SomeD(2) split: if_splits option.splits\<close>)

text \<open>The rules whose execution cannot underflow at \<open>new_sp - 8\<close> nor divide by zero while decoding.\<close>

definition wf_rule_x86_64 :: "UnwindRuleX86_64 \<Rightarrow> bool" where
  "wf_rule_x86_64 rule =
     (case rule of OffsetSp x \<Rightarrow> x \<noteq> 0 | OffsetSpAndRestoreBp x y \<Rightarrow> x \<noteq> 0
      | OffsetSpAndPopRegisters off c e \<Rightarrow> unat e < 40320 | _ \<Rightarrow> True)"

lemma exec_match_new_sp_ge_8:
  assumes "exec_match_x86_64 rule first regs rd = Val (regs', Continue (new_sp, new_bp))"
    and "\<And>y. rule \<noteq> OffsetSp 0 \<and> rule \<noteq> OffsetSpAndRestoreBp 0 y"
  shows "8 \<le> new_sp"
proof -
  have ge: "8 \<le> c" if "checked_add a b = Some c" "8 \<le> b" for a b c :: u64
    using checked_add_SomeD(3) [OF that(1)] that(2) by (rule order_trans [rotated])
  have "8 \<le> (16 :: u64)" by simp
  note ge16 = ge [OF _ this]
  show ?thesis
  proof (cases rule)
    case (OffsetSpAndPopRegisters off c e)
    from assms(1) [unfolded this] show ?thesis by (rule exec_match_pop_Continue) (auto intro: ge)
  next
    case (OffsetSp x)
    with assms show ?thesis by (auto intro: ge offset_by_8_ge_8)
  next
    case (OffsetSpAndRestoreBp x y)
    with assms(2) have "x \<noteq> 0" by blast
    with assms(1) OffsetSpAndRestoreBp show ?thesis
      by (auto intro: ge offset_by_8_ge_8 split: option.splits if_splits)
  qed (use assms(1) in \<open>auto simp: use_frame_pointer_Ok_iff intro: ge ge16 split: if_splits\<close>)
qed

lemma exec_match_panics_iff:
  "exec_match_x86_64 rule first regs rd = Panic p \<longleftrightarrow>
   (\<exists>off c e. rule = OffsetSpAndPopRegisters off c e \<and> checked_add (sp regs) (offset_by_8 off) \<noteq> None \<and>
      40320 \<le> unat e \<and> p = DivisionByZero)"
proof (cases rule)
  case (OffsetSpAndPopRegisters off c e)
  have "decode c e = Panic p \<longleftrightarrow> 40320 \<le> unat e \<and> p = DivisionByZero"
    by (auto simp: decode_def obind_Panic_iff decode_loop_panics_iff fact_8)
  with OffsetSpAndPopRegisters show ?thesis
    by (auto simp: obind_Panic_iff split: option.splits)
qed (auto split: if_splits)

lemma return_to_caller_panics_iff:
  "return_to_caller_x86_64 oc old_sp regs new_sp new_bp rd = Panic p \<longleftrightarrow>
     oc \<and> new_sp < 8 \<and> p = ArithmeticOverflow"
  by (auto simp: return_to_caller_x86_64_def obind_Panic_iff sub_oc_def split: option.splits)

lemma return_to_caller_cases:
  assumes "return_to_caller_x86_64 oc old_sp regs new_sp new_bp rd = Val (regs', res)"
  obtains (returned) ra where "rd (new_sp - 8) = Some ra" "ra \<noteq> 0" "\<not> (new_sp = old_sp \<and> ra = ip regs)"
      "regs' = set_bp new_bp (set_sp new_sp (set_ip ra regs))" "res = Ok (Some ra)"
  | (stopped) "regs' = regs" "\<forall>ra. res \<noteq> Ok (Some ra)"
proof (cases "rd (new_sp - 8)")
  case None
  with assms stopped show thesis
    by (cases "sub_oc oc new_sp 8") (auto simp: return_to_caller_x86_64_def dest!: sub_oc_ValD)
next
  case (Some ra)
  show thesis
  proof (cases "ra = 0 \<or> (new_sp = old_sp \<and> ra = ip regs)")
    case True
    with Some assms stopped show thesis
      by (cases "sub_oc oc new_sp 8")
         (auto simp: return_to_caller_x86_64_def dest!: sub_oc_ValD split: if_splits)
  next
    case False
    with Some assms returned show thesis
      by (cases "sub_oc oc new_sp 8") (auto simp: return_to_caller_x86_64_def dest!: sub_oc_ValD)
  qed
qed

lemma exec_x86_64_cases:
  obtains (panic) p where "exec_match_x86_64 rule first regs rd = Panic p" "exec_x86_64 oc rule first regs rd = Panic p"
  | (return) regs\<^sub>1 r where "exec_match_x86_64 rule first regs rd = Val (regs\<^sub>1, Return r)"
      "exec_x86_64 oc rule first regs rd = Val (regs\<^sub>1, r)"
  | (continue) regs\<^sub>1 new_sp new_bp where
      "exec_match_x86_64 rule first regs rd = Val (regs\<^sub>1, Continue (new_sp, new_bp))"
      "exec_x86_64 oc rule first regs rd = return_to_caller_x86_64 oc (sp regs) regs\<^sub>1 new_sp new_bp rd"
proof (cases "exec_match_x86_64 rule first regs rd")
  case (Val p)
  then show thesis using return continue
    by (cases p; cases "snd p") (auto simp: exec_x86_64_def)
qed (use panic in \<open>simp add: exec_x86_64_def\<close>)

lemma exec_match_never_returns_Some:
  "exec_match_x86_64 rule first regs rd \<noteq> Val (regs', Return (Ok (Some ra)))"
  by (cases rule)
     (auto simp: flow_of_result_Return finish_pops_never_Some split: option.splits if_splits)

lemma exec_UseFramePointer:
  assumes "bp regs \<noteq> 0" "checked_add (bp regs) 16 = Some new_sp" "sp regs < new_sp"
    "rd (bp regs) = Some new_bp" "rd (bp regs + 8) = Some ra" "ra \<noteq> 0"
  shows "exec_x86_64 oc UseFramePointer first regs rd =
     Val (set_bp new_bp (set_sp new_sp (set_ip ra regs)), Ok (Some ra))"
proof -
  have m: "exec_match_x86_64 UseFramePointer first regs rd = Val (regs, Continue (new_sp, new_bp))"
    using assms by (simp add: use_frame_pointer_x86_64_def)
  have "8 \<le> new_sp" by (rule exec_match_new_sp_ge_8 [OF m]) simp
  moreover have "rd (new_sp - 8) = Some ra"
    using checked_add_SomeD(1) [OF assms(2)] assms(5) by (simp add: add.commute)
  ultimately have "return_to_caller_x86_64 oc (sp regs) regs new_sp new_bp rd =
     Val (set_bp new_bp (set_sp new_sp (set_ip ra regs)), Ok (Some ra))"
    using assms(3,6) by (auto simp: return_to_caller_x86_64_def)
  with m show ?thesis by (simp add: exec_x86_64_def)
qed


section \<open>Popping sequences\<close>

lemma collect_pops_Some:
  "collect_pops ops regs = Some rs \<longleftrightarrow> (\<exists>rs'. ops = map Pop rs' \<and> rs = regs @ rs') \<and> length rs \<le> max 8 (length regs)"
proof (induction ops regs rule: collect_pops.induct)
  case (2 reg ops regs)
  show ?case
  proof (cases "length regs < 8")
    case True
    with 2 show ?thesis by (auto simp: Cons_eq_map_conv)
  next
    case False
    then show ?thesis by auto
  qed
qed auto

text \<open>What the source means by an optional stack pointer offset followed by pops and a return.\<close>

definition offset_then_pops ::
  "u16 \<Rightarrow> Reg list \<Rightarrow> UnwindRegsX86_64 \<Rightarrow> stack_reader \<Rightarrow>
   UnwindRegsX86_64 \<times> (u64 \<times> u64, (u64 option, Error) result) flow" where
  "offset_then_pops off rs regs rd =
     (case checked_add (sp regs) (offset_by_8 off) of
        None \<Rightarrow> (regs, Return (Err IntegerOverflow))
      | Some s \<Rightarrow> finish_pops (pop_registers rs s regs rd))"

lemma checked_add_0 [simp]: "checked_add a 0 = Some a" for a :: "'a::len word"
  by (simp add: checked_add_Some_iff)

lemma for_sequence_cases:
  assumes "for_sequence_of_offset_or_pop oc ops = Val (Some rule)"
  obtains off rs where "ops = OffsetBy8 off # map Pop rs \<or> (ops = map Pop rs \<and> off = 0)" "length rs \<le> 8"
    "\<forall>first regs rd. exec_match_x86_64 rule first regs rd = Val (offset_then_pops off rs regs rd)"
    "wf_rule_x86_64 rule"
proof -
  obtain off rest where o: "(case ops of OffsetBy8 offset # rest \<Rightarrow> (offset, rest) | _ \<Rightarrow> (0, ops)) = (off, rest)"
    by fastforce
  with assms obtain rs where rs: "collect_pops rest [] = Some rs"
    by (cases "collect_pops rest []") (auto simp: for_sequence_of_offset_or_pop_def)
  then have rest: "rest = map Pop rs" "length rs \<le> 8" by (auto simp: collect_pops_Some)
  have ops: "ops = OffsetBy8 off # map Pop rs \<or> (ops = map Pop rs \<and> off = 0)"
    using o rest(1) by (auto split: list.splits OffsetOrPop.splits)
  show thesis
  proof (cases "rs = [] \<and> off = 0")
    case True
    with assms o rs have "rule = JustReturn" by (auto simp: for_sequence_of_offset_or_pop_def)
    with True show thesis
      by (intro that [OF ops rest(2)])
         (auto simp: offset_then_pops_def offset_by_8_def wf_rule_x86_64_def split: option.splits)
  next
    case False
    with assms o rs obtain c e where e: "encode oc rs = Val (Some (c, e))"
      and r: "rule = OffsetSpAndPopRegisters off c e"
      by (auto simp: for_sequence_of_offset_or_pop_def)
    have "unat e < 40320" using e by (rule encode_SomeD) simp
    with r show thesis
      by (intro that [OF ops rest(2)])
         (auto simp: offset_then_pops_def decode_of_encode [OF e] wf_rule_x86_64_def split: option.splits)
  qed
qed

lemma pop_registers_sp:
  "pop_registers rs s regs rd = (regs', Ok s') \<Longrightarrow> uint s' = uint s + 8 * int (length rs)"
proof (induction rs arbitrary: s regs)
  case (Cons r rs)
  then obtain s1 v where "checked_add s 8 = Some s1" "pop_registers rs s1 (set_reg r v regs) rd = (regs', Ok s')"
    by (auto split: option.splits)
  then show ?case using Cons.IH by (simp add: checked_add_Some_iff)
qed auto

lemma pop_registers_values:
  "pop_registers rs s regs rd = (regs', Ok s') \<Longrightarrow> distinct rs \<Longrightarrow> i < length rs \<Longrightarrow>
   rd (s + 8 * of_nat i) = Some (get regs' (rs ! i))"
proof (induction rs arbitrary: s regs i)
  case (Cons r rs)
  then obtain s1 v where s1: "rd s = Some v" "checked_add s 8 = Some s1"
    "pop_registers rs s1 (set_reg r v regs) rd = (regs', Ok s')"
    by (auto split: option.splits)
  show ?case
  proof (cases i)
    case 0
    have "get regs' r = v" using pop_registers_frame [OF s1(3)] Cons.prems(2) by simp
    with 0 s1(1) show ?thesis by simp
  next
    case (Suc j)
    have "rd (s1 + 8 * of_nat j) = Some (get regs' (rs ! j))"
      using Cons.prems(2,3) Suc by (intro Cons.IH [OF s1(3)]) auto
    moreover have "s1 = s + 8" using checked_add_SomeD(1) [OF s1(2)] .
    ultimately show ?thesis using Suc by (simp add: algebra_simps)
  qed
qed auto

lemma distinct_decode: "decode c e = Val rs \<Longrightarrow> distinct rs"
proof -
  assume "decode c e = Val rs"
  then obtain order' where o: "decode_loop (unat e) 8 ENCODE_REGISTERS = Val order'" "rs = take (unat c) order'"
    by (auto simp: decode_def)
  from decode_loop_prefix [OF o(1)] have "distinct order'"
    by (metis distinct_ENCODE_REGISTERS length_ENCODE_REGISTERS mset_eq_imp_distinct_iff order_refl)
  then show ?thesis by (simp add: o(2))
qed

section \<open>Properties\<close>

lemma exec_x86_64_returns:
  assumes "exec_x86_64 oc rule is_first_frame regs rd = Val (regs', Ok (Some ra))"
  shows "ra \<noteq> 0 \<and> ip regs' = ra \<and> rd (sp regs' - 8) = Some ra \<and> sp regs \<le> sp regs' \<and>
         (sp regs' = sp regs \<longrightarrow> ra \<noteq> ip regs)"
proof (cases rule: exec_x86_64_cases [of rule is_first_frame regs rd oc])
  case (continue regs\<^sub>1 new_sp new_bp)
  from assms continue(2) have "return_to_caller_x86_64 oc (sp regs) regs\<^sub>1 new_sp new_bp rd = Val (regs', Ok (Some ra))"
    by simp
  then show ?thesis using exec_match_frame [OF continue(1)] exec_match_sp_ge [OF continue(1)]
    by (cases rule: return_to_caller_cases) auto
qed (use assms exec_match_never_returns_Some in auto)

lemma exec_x86_64_stops:
  assumes "exec_x86_64 oc rule is_first_frame regs rd = Val (regs', res)" and "\<And>ra. res \<noteq> Ok (Some ra)"
  shows "ip regs' = ip regs \<and> sp regs' = sp regs \<and>
         ((\<exists>off c e. rule = OffsetSpAndPopRegisters off c e) \<or> regs' = regs)"
proof (cases rule: exec_x86_64_cases [of rule is_first_frame regs rd oc])
  case (continue regs\<^sub>1 new_sp new_bp)
  from assms(1) continue(2) have "return_to_caller_x86_64 oc (sp regs) regs\<^sub>1 new_sp new_bp rd = Val (regs', res)"
    by simp
  then have "regs' = regs\<^sub>1" using assms(2) by (cases rule: return_to_caller_cases) auto
  then show ?thesis using exec_match_frame [OF continue(1)] by auto
next
  case (return regs\<^sub>1 r)
  with assms(1) have "regs' = regs\<^sub>1" by simp
  then show ?thesis using exec_match_frame [OF return(1)] by auto
qed (use assms in simp)

text \<open>
  When no return address is produced (the end of the stack or an error), the instruction pointer and the stack
  pointer are unchanged, and every rule except the popping one leaves all registers unchanged.
\<close>

lemma exec_x86_64_stop_keeps_position:
  assumes "exec_x86_64 oc rule is_first_frame regs rd = Val (regs', res)" and "\<And>ra. res \<noteq> Ok (Some ra)"
  shows "ip regs' = ip regs \<and> sp regs' = sp regs \<and>
         ((\<exists>off c e. rule = OffsetSpAndPopRegisters off c e) \<or> regs' = regs)"
  using assms by (rule exec_x86_64_stops)


text \<open>
  C27: Executing a rule panics in exactly two situations: decoding a register ordering that no encoder produces,
  and, with overflow checks, the subtraction \<open>new_sp - 8\<close> for a stack pointer offset of zero when the stack
  pointer is below 8.
\<close>

theorem exec_x86_64_panics_exactly:
  "exec_x86_64 oc rule is_first_frame regs rd = Panic p \<longleftrightarrow>
     (\<exists>off c e. rule = OffsetSpAndPopRegisters off c e \<and> checked_add (sp regs) (offset_by_8 off) \<noteq> None \<and>
        40320 \<le> unat e \<and> p = DivisionByZero) \<or>
     (oc \<and> sp regs < 8 \<and> p = ArithmeticOverflow \<and>
        (rule = OffsetSp 0 \<or>
         (\<exists>y new_bp. rule = OffsetSpAndRestoreBp 0 y \<and>
            exec_match_x86_64 rule is_first_frame regs rd = Val (regs, Continue (sp regs, new_bp)))))"
proof (cases rule: exec_x86_64_cases [of rule is_first_frame regs rd oc])
  case (panic q)
  then show ?thesis unfolding exec_match_panics_iff by auto
next
  case (return regs\<^sub>1 r)
  then have "\<not> (rule = OffsetSp 0)" by (auto simp: offset_by_8_def)
  then show ?thesis using return exec_match_panics_iff [of rule is_first_frame regs rd p] by auto
next
  case (continue regs\<^sub>1 new_sp new_bp)
  have 0: "new_sp = sp regs \<and> regs\<^sub>1 = regs" if "rule = OffsetSp 0 \<or> (\<exists>y. rule = OffsetSpAndRestoreBp 0 y)"
    using that continue(1) by (auto simp: offset_by_8_def split: option.splits if_splits)
  have "new_sp < 8 \<longleftrightarrow> sp regs < 8 \<and> (rule = OffsetSp 0 \<or> (\<exists>y. rule = OffsetSpAndRestoreBp 0 y))"
    using exec_match_new_sp_ge_8 [OF continue(1)] 0 by (metis linorder_not_less)
  then show ?thesis
    using continue 0 exec_match_panics_iff [of rule is_first_frame regs rd p]
    by (auto simp: return_to_caller_panics_iff)
qed


lemma exec_x86_64_effects:
  assumes "exec_x86_64 oc rule is_first_frame regs rd = Val (regs', Ok (Some ra))"
  shows "case rule of
     EndOfStack \<Rightarrow> False
   | JustReturn \<Rightarrow> uint (sp regs') = uint (sp regs) + 8 \<and> bp regs' = bp regs
   | JustReturnIfFirstFrameOtherwiseFp \<Rightarrow>
       if is_first_frame then uint (sp regs') = uint (sp regs) + 8 \<and> bp regs' = bp regs
       else uint (sp regs') = uint (bp regs) + 16 \<and> rd (bp regs) = Some (bp regs') \<and> sp regs < sp regs'
   | OffsetSp x \<Rightarrow> uint (sp regs') = uint (sp regs) + 8 * uint x \<and> bp regs' = bp regs
   | OffsetSpAndRestoreBp x y \<Rightarrow>
       uint (sp regs') = uint (sp regs) + 8 * uint x \<and>
       (\<exists>loc. uint loc = uint (sp regs) + 8 * sint y \<and>
          (rd loc = Some (bp regs') \<or>
           rd loc = None \<and> is_first_frame \<and> loc < sp regs \<and> bp regs' = bp regs))
   | UseFramePointer \<Rightarrow>
       bp regs \<noteq> 0 \<and> uint (sp regs') = uint (bp regs) + 16 \<and> rd (bp regs) = Some (bp regs') \<and> sp regs < sp regs'
   | OffsetSpAndPopRegisters off c e \<Rightarrow>
       (\<exists>rs. decode c e = Val rs \<and>
          uint (sp regs') = uint (sp regs) + 8 * (uint off + int (length rs)) + 8 \<and>
          list_all (\<lambda>i. rd (sp regs + offset_by_8 off + 8 * of_nat i) = Some (get regs' (rs ! i))) [0..<length rs])"
proof (cases rule: exec_x86_64_cases [of rule is_first_frame regs rd oc])
  case (continue regs\<^sub>1 new_sp new_bp)
  from assms continue(2) have "return_to_caller_x86_64 oc (sp regs) regs\<^sub>1 new_sp new_bp rd = Val (regs', Ok (Some ra))"
    by simp
  then have r: "regs' = set_bp new_bp (set_sp new_sp (set_ip ra regs\<^sub>1))"
    by (cases rule: return_to_caller_cases) auto
  show ?thesis
  proof (cases rule)
    case (OffsetSpAndPopRegisters off c e)
    from continue(1) [unfolded this] obtain rs s s' where p: "checked_add (sp regs) (offset_by_8 off) = Some s"
      "decode c e = Val rs" "pop_registers rs s regs rd = (regs\<^sub>1, Ok s')" "checked_add s' 8 = Some new_sp"
      "new_bp = bp regs\<^sub>1" by (rule exec_match_pop_Continue)
    have g: "get regs' x = get regs\<^sub>1 x" if "x \<in> set rs" for x
      using that set_decode [OF p(2)] RSP_notin_ENCODE_REGISTERS
      by (auto simp: r p(5) set_bp_def set_sp_def get_special)
    have "uint (sp regs') = uint (sp regs) + 8 * (uint off + int (length rs)) + 8"
      using p(1,4) pop_registers_sp [OF p(3)] by (simp add: r checked_add_Some_iff uint_offset_by_8)
    moreover have "s = sp regs + offset_by_8 off" using checked_add_SomeD(1) [OF p(1)] .
    ultimately show ?thesis
      using OffsetSpAndPopRegisters p(2) pop_registers_values [OF p(3) distinct_decode [OF p(2)]] g
      by (auto simp: list_all_iff)
  qed (use continue(1) in \<open>auto simp: r use_frame_pointer_Ok_iff checked_add_Some_iff uint_offset_by_8
        checked_add_signed_Some_iff sint_soffset_by_8 split: if_splits option.splits\<close>)
qed (use assms exec_match_never_returns_Some in auto)




text \<open>
  C26: A rule built from an optional stack pointer offset followed by pops executes as exactly that sequence: the
  compressed register ordering inside the rule is invisible, and the rule can be executed without a panic.
\<close>

theorem pop_sequence_rule_correct:
  assumes "for_sequence_of_offset_or_pop oc ops = Val (Some rule)"
  shows "\<exists>off rs. (ops = OffsetBy8 off # map Pop rs \<or> (ops = map Pop rs \<and> off = 0)) \<and>
           exec_match_x86_64 rule is_first_frame regs rd = Val (offset_then_pops off rs regs rd) \<and>
           no_panic (exec_x86_64 oc' rule is_first_frame regs rd)"
proof -
  from assms obtain off rs where o: "ops = OffsetBy8 off # map Pop rs \<or> (ops = map Pop rs \<and> off = 0)"
    and "length rs \<le> 8" and e: "\<forall>first regs rd. exec_match_x86_64 rule first regs rd = Val (offset_then_pops off rs regs rd)"
    and wf: "wf_rule_x86_64 rule" by (rule for_sequence_cases)
  have "exec_x86_64 oc' rule is_first_frame regs rd \<noteq> Panic p" for p
  proof (cases rule: exec_x86_64_cases [of rule is_first_frame regs rd oc'])
    case (continue regs\<^sub>1 new_sp new_bp)
    have "8 \<le> new_sp" by (rule exec_match_new_sp_ge_8 [OF continue(1)]) (use wf in \<open>auto simp: wf_rule_x86_64_def\<close>)
    then show ?thesis using continue(2) by (simp add: return_to_caller_panics_iff linorder_not_less)
  qed (simp_all add: e)
  then show ?thesis using o e unfolding no_panic_iff by blast
qed

theorem pop_sequence_rule_correct_witness:
  "\<exists>off rs. ([OffsetBy8 3, Pop RBX] = OffsetBy8 off # map Pop rs \<or> ([OffsetBy8 3, Pop RBX] = map Pop rs \<and> off = 0)) \<and>
     exec_match_x86_64 (OffsetSpAndPopRegisters 3 1 0) True (new_regs 5 0x10 0x20) (\<lambda>_. None) =
       Val (offset_then_pops off rs (new_regs 5 0x10 0x20) (\<lambda>_. None)) \<and>
     no_panic (exec_x86_64 True (OffsetSpAndPopRegisters 3 1 0) True (new_regs 5 0x10 0x20) (\<lambda>_. None))"
  by (rule pop_sequence_rule_correct [of True])
     (simp add: for_sequence_of_offset_or_pop_def encode_eq ENCODE_REGISTERS_def bring_def)

section \<open>The implementation of the trait\<close>

definition ops_x86_64 :: "bool \<Rightarrow> (UnwindRuleX86_64, UnwindRegsX86_64) UnwindRuleOps" where
  "ops_x86_64 oc = \<lparr>op_exec = exec_x86_64 oc, op_rule_for_stub_functions = rule_for_stub_functions_x86_64,
     op_rule_for_function_start = rule_for_function_start_x86_64, op_fallback_rule = fallback_rule_x86_64\<rparr>"

lemma ops_x86_64_simps [simp]:
  "op_exec (ops_x86_64 oc) = exec_x86_64 oc" "op_fallback_rule (ops_x86_64 oc) = fallback_rule_x86_64"
  by (simp_all add: ops_x86_64_def)

text \<open>A frame that does not move the stack pointer reads the same return address again, which is refused the second
  time.\<close>

definition rank_x86_64 :: "stack_reader \<Rightarrow> UnwindRegsX86_64 \<Rightarrow> nat" where
  "rank_x86_64 rd regs = 2 * (2 ^ 64 - unat (sp regs)) - (if rd (sp regs - 8) = Some (ip regs) then 1 else 0)"

lemma rank_x86_64_less:
  assumes "sp regs \<le> sp regs'" "rd (sp regs' - 8) = Some (ip regs')" "\<not> (sp regs' = sp regs \<and> ip regs' = ip regs)"
  shows "rank_x86_64 rd regs' < rank_x86_64 rd regs"
proof -
  have b: "unat (sp regs') < 2 ^ 64" using unsigned_less [where w = "sp regs'"] by simp
  have le: "unat (sp regs) \<le> unat (sp regs')" using assms(1) by (simp add: word_le_nat_alt)
  show ?thesis
  proof (cases "sp regs' = sp regs")
    case True
    with assms b show ?thesis by (auto simp: rank_x86_64_def)
  next
    case False
    then have "unat (sp regs) < unat (sp regs')" using le by (metis le_neq_implies_less word_unat_eq_iff)
    with assms b show ?thesis by (auto simp: rank_x86_64_def)
  qed
qed

lemma rank_x86_64_decreases:
  assumes "exec_x86_64 oc rule is_first_frame regs rd = Val (regs', Ok (Some ra))"
  shows "rank_x86_64 rd regs' < rank_x86_64 rd regs"
  by (rule rank_x86_64_less) (use exec_x86_64_returns [OF assms] in auto)

interpretation x86_rule: advancing_rule "ops_x86_64 oc" sp rank_x86_64 for oc
proof unfold_locales
  fix rule first regs rd regs' ra
  assume "op_exec (ops_x86_64 oc) rule first regs rd = Val (regs', Ok (Some ra))"
  then show "ra \<noteq> 0 \<and> sp regs \<le> sp regs'" using exec_x86_64_returns by simp
next
  fix rule first regs rd regs' and res :: "(u64 option, Error) result"
  assume "op_exec (ops_x86_64 oc) rule first regs rd = Val (regs', res)" "\<forall>ra. res \<noteq> Ok (Some ra)"
  then show "sp regs' = sp regs" using exec_x86_64_stops [of oc rule first regs rd regs' res] by simp
next
  fix rule regs rd regs' ra
  assume "op_exec (ops_x86_64 oc) rule False regs rd = Val (regs', Ok (Some ra))"
  then show "rank_x86_64 rd regs' < rank_x86_64 rd regs" using rank_x86_64_decreases by simp
qed

end
