(* ===== verification/UnitTests.thy ===== *)
theory UnitTests
  imports A64Epilogue AddSigned X86Rule A64Rule
begin

text \<open>
  The unit tests of the crate (the modules \<open>test\<close> of \<^verbatim>\<open>add_signed.rs\<close>, \<^verbatim>\<open>aarch64/unwindregs.rs\<close>, \<^verbatim>\<open>x86_64/register_ordering.rs\<close>,
  \<^verbatim>\<open>unwind_rule.rs\<close> of both architectures and \<^verbatim>\<open>aarch64/instruction_analysis/\<close>), one boolean definition per test function: the
  conjunction of its assertions on the model, where a panic is a failed assertion.  The flag \<open>oc\<close> is that of the
  build; the tests of the repository run with overflow checks.
\<close>

section \<open>Signed addition, masks and register orderings\<close>

definition test_wrapping :: bool where
  "test_wrapping \<longleftrightarrow>
      wrapping_add_signed 1 2 = (3 :: u64) \<and>
      wrapping_add_signed 2 1 = (3 :: u64) \<and>
      wrapping_add_signed 5 (- 4) = (1 :: u64) \<and>
      wrapping_add_signed 5 (- 5) = (0 :: u64) \<and>
      wrapping_add_signed (- 1 - 5) 3 = (- 1 - 2 :: u64) \<and>
      wrapping_add_signed (- 1 - 5) 5 = (- 1 :: u64) \<and>
      wrapping_add_signed (- 1 - 5) (- 5) = (- 1 - 10 :: u64) \<and>
      wrapping_add_signed 1 (- 2) = (- 1 :: u64) \<and>
      wrapping_add_signed 2 (- 4) = (- 1 - 1 :: u64) \<and>
      wrapping_add_signed (- 1) 1 = (0 :: u64) \<and>
      wrapping_add_signed (- 1 - 5) 6 = (0 :: u64) \<and>
      wrapping_add_signed (- 1 - 5) 9 = (3 :: u64)"

definition test_checked :: bool where
  "test_checked \<longleftrightarrow>
      checked_add_signed 1 2 = Some (3 :: u64) \<and>
      checked_add_signed 2 1 = Some (3 :: u64) \<and>
      checked_add_signed 5 (- 4) = Some (1 :: u64) \<and>
      checked_add_signed 5 (- 5) = Some (0 :: u64) \<and>
      checked_add_signed (- 1 - 5) 3 = Some (- 1 - 2 :: u64) \<and>
      checked_add_signed (- 1 - 5) 5 = Some (- 1 :: u64) \<and>
      checked_add_signed (- 1 - 5) (- 5) = Some (- 1 - 10 :: u64) \<and>
      checked_add_signed (1 :: u64) (- 2) = None \<and>
      checked_add_signed (2 :: u64) (- 4) = None \<and>
      checked_add_signed (- 1 :: u64) 1 = None \<and>
      checked_add_signed (- 1 - 5 :: u64) 6 = None \<and>
      checked_add_signed (- 1 - 5 :: u64) 9 = None"

definition test_ptr_auth_mask :: "bool \<Rightarrow> bool" where
  "test_ptr_auth_mask oc \<longleftrightarrow>
      new_24_40 = drop_bit 24 (- 1) \<and>
      new_24_40 = push_bit 40 1 - 1 \<and>
      from_max_known_address oc 0x0000aaaab54f7000 = Val 0x0000ffffffffffff \<and>
      from_max_known_address oc 0x0000ffffa3206000 = Val 0x0000ffffffffffff \<and>
      from_max_known_address oc 0xffffffffc05a9000 = Val 0xffffffffffffffff \<and>
      from_max_known_address oc 0x000055ba9f07e000 = Val 0x00007fffffffffff \<and>
      from_max_known_address oc 0x00007f76b8019000 = Val 0x00007fffffffffff \<and>
      from_max_known_address oc 0x000000022a3ccff7 = Val 0x00000003ffffffff"

definition unhandled_orderings :: "bool \<Rightarrow> bool" where
  "unhandled_orderings oc \<longleftrightarrow> encode oc [RAX] = Val None \<and> encode oc [RSI, RSI] = Val None"

text \<open>\<open>Itertools::permutations\<close>: the arrangements of \<open>k\<close> elements of a list.\<close>

fun permutations :: "nat \<Rightarrow> 'a list \<Rightarrow> 'a list list" where
  "permutations 0 xs = [[]]"
| "permutations (Suc k) xs = concat (map (\<lambda>x. map ((#) x) (permutations k (remove1 x xs))) xs)"

definition roundtrip_all :: "bool \<Rightarrow> bool" where
  "roundtrip_all oc \<longleftrightarrow>
     list_all (\<lambda>permutation.
       case encode oc permutation of
         Val (Some (cnt, encoded)) \<Rightarrow> decode cnt encoded = Val permutation
       | _ \<Rightarrow> False)
     (concat (map (\<lambda>k. permutations k ENCODE_REGISTERS) [0..<9]))"

section \<open>Unwind rules\<close>

text \<open>\<open>|addr| Ok(stack[(addr / 8) as usize])\<close>; the tests only read inside the array.\<close>

definition stack_array :: "u64 list \<Rightarrow> stack_reader" where
  "stack_array stack = (\<lambda>addr. let i = unat (addr div 8) in if i < length stack then Some (stack ! i) else None)"

definition test_basic_x86_64 :: "bool \<Rightarrow> bool" where
  "test_basic_x86_64 oc \<longleftrightarrow>
     (let read_stack = stack_array [1, 2, 0x100300, 4, 0x40, 0x100200, 5, 6, 0x70, 0x100100, 7, 8, 9, 10, 0x0, 0x0];
          regs = new_regs 0x100400 0x10 0x20 in
      case exec_x86_64 oc (UnwindRuleX86_64.OffsetSp 1) True regs read_stack of Panic _ \<Rightarrow> False | Val (regs, res) \<Rightarrow>
      res = Ok (Some 0x100300) \<and> ip regs = 0x100300 \<and> sp regs = 0x18 \<and> bp regs = 0x20 \<and>
      (case exec_x86_64 oc UnwindRuleX86_64.UseFramePointer True regs read_stack of Panic _ \<Rightarrow> False | Val (regs, res) \<Rightarrow>
       res = Ok (Some 0x100200) \<and> ip regs = 0x100200 \<and> sp regs = 0x30 \<and> bp regs = 0x40 \<and>
       (case exec_x86_64 oc UnwindRuleX86_64.UseFramePointer False regs read_stack of Panic _ \<Rightarrow> False | Val (regs, res) \<Rightarrow>
        res = Ok (Some 0x100100) \<and> ip regs = 0x100100 \<and> sp regs = 0x50 \<and> bp regs = 0x70 \<and>
        (case exec_x86_64 oc UnwindRuleX86_64.UseFramePointer False regs read_stack of Panic _ \<Rightarrow> False | Val (regs, res) \<Rightarrow>
         res = Ok None))))"

definition test_overflow_x86_64 :: "bool \<Rightarrow> bool" where
  "test_overflow_x86_64 oc \<longleftrightarrow>
     (let read_stack = stack_array [1, 2, 0x100300, 4, 0x40, 0x100200, 5, 6, 0x70, 0x100100, 7, 8, 9, 10, 0x0, 0x0];
          regs = new_regs 0x100400 (- 1 div 8 * 8) (- 1) in
      case exec_x86_64 oc JustReturn True regs read_stack of Panic _ \<Rightarrow> False | Val (regs, res) \<Rightarrow>
      res = Err IntegerOverflow \<and>
      (case exec_x86_64 oc (UnwindRuleX86_64.OffsetSp 1) True regs read_stack of Panic _ \<Rightarrow> False | Val (regs, res) \<Rightarrow>
       res = Err IntegerOverflow \<and>
       (case exec_x86_64 oc (OffsetSpAndRestoreBp 1 2) True regs read_stack of Panic _ \<Rightarrow> False | Val (regs, res) \<Rightarrow>
        res = Err IntegerOverflow \<and>
        (case exec_x86_64 oc UnwindRuleX86_64.UseFramePointer True regs read_stack of Panic _ \<Rightarrow> False | Val (regs, res) \<Rightarrow>
         res = Err IntegerOverflow))))"

definition test_basic_aarch64 :: "bool \<Rightarrow> bool" where
  "test_basic_aarch64 oc \<longleftrightarrow>
     (let read_stack = stack_array [1, 2, 3, 4, 0x40, 0x100200, 5, 6, 0x70, 0x100100, 7, 8, 9, 10, 0x0, 0x0];
          regs = new_regs_aarch64 0x100300 0x10 0x20 in
      case exec_aarch64 oc NoOp True regs read_stack of Panic _ \<Rightarrow> False | Val (regs, res) \<Rightarrow>
      res = Ok (Some 0x100300) \<and> a64_sp regs = 0x10 \<and>
      (case exec_aarch64 oc UnwindRuleAarch64.UseFramePointer False regs read_stack of Panic _ \<Rightarrow> False | Val (regs, res) \<Rightarrow>
       res = Ok (Some 0x100200) \<and> a64_sp regs = 0x30 \<and> a64_fp regs = 0x40 \<and>
       (case exec_aarch64 oc UnwindRuleAarch64.UseFramePointer False regs read_stack of Panic _ \<Rightarrow> False | Val (regs, res) \<Rightarrow>
        res = Ok (Some 0x100100) \<and> a64_sp regs = 0x50 \<and> a64_fp regs = 0x70 \<and>
        (case exec_aarch64 oc UnwindRuleAarch64.UseFramePointer False regs read_stack of Panic _ \<Rightarrow> False | Val (regs, res) \<Rightarrow>
         res = Ok None))))"

section \<open>Instruction analysis of aarch64\<close>

definition test_prologue_1 :: "bool \<Rightarrow> bool" where
  "test_prologue_1 oc \<longleftrightarrow>
     (let bytes = [
        0xff, 0x43, 0x01, 0xd1, 0xf6, 0x57, 0x02, 0xa9, 0xf4, 0x4f, 0x03, 0xa9, 0xfd, 0x7b, 0x04, 0xa9,
        0xfd, 0x03, 0x01, 0x91, 0xf4, 0x03, 0x04, 0xaa, 0xf5, 0x03, 0x01, 0xaa] in
      unwind_rule_from_detected_prologue_aarch64 oc (take 0 bytes) (drop 0 bytes) = Val (Some NoOp) \<and>
      unwind_rule_from_detected_prologue_aarch64 oc (take 4 bytes) (drop 4 bytes) = Val (Some (UnwindRuleAarch64.OffsetSp 5)) \<and>
      unwind_rule_from_detected_prologue_aarch64 oc (take 8 bytes) (drop 8 bytes) = Val (Some (UnwindRuleAarch64.OffsetSp 5)) \<and>
      unwind_rule_from_detected_prologue_aarch64 oc (take 12 bytes) (drop 12 bytes) = Val (Some (UnwindRuleAarch64.OffsetSp 5)) \<and>
      unwind_rule_from_detected_prologue_aarch64 oc (take 16 bytes) (drop 16 bytes) = Val (Some (UnwindRuleAarch64.OffsetSp 5)) \<and>
      unwind_rule_from_detected_prologue_aarch64 oc (take 20 bytes) (drop 20 bytes) = Val None \<and>
      unwind_rule_from_detected_prologue_aarch64 oc (take 24 bytes) (drop 24 bytes) = Val None \<and>
      unwind_rule_from_detected_prologue_aarch64 oc (take 28 bytes) (drop 28 bytes) = Val None)"

definition test_prologue_with_pacibsp :: "bool \<Rightarrow> bool" where
  "test_prologue_with_pacibsp oc \<longleftrightarrow>
     (let bytes = [
        0x08, 0x58, 0x29, 0xb8, 0xc0, 0x03, 0x5f, 0xd6, 0x7f, 0x23, 0x03, 0xd5, 0xf8, 0x5f, 0xbc, 0xa9,
        0xf6, 0x57, 0x01, 0xa9, 0xf4, 0x4f, 0x02, 0xa9, 0xfd, 0x7b, 0x03, 0xa9, 0xfd, 0xc3, 0x00, 0x91,
        0xf3, 0x03, 0x02, 0xaa, 0xf4, 0x03, 0x01, 0xaa] in
      unwind_rule_from_detected_prologue_aarch64 oc (take 0 bytes) (drop 0 bytes) = Val None \<and>
      unwind_rule_from_detected_prologue_aarch64 oc (take 4 bytes) (drop 4 bytes) = Val None \<and>
      unwind_rule_from_detected_prologue_aarch64 oc (take 8 bytes) (drop 8 bytes) = Val (Some NoOp) \<and>
      unwind_rule_from_detected_prologue_aarch64 oc (take 12 bytes) (drop 12 bytes) = Val (Some NoOp) \<and>
      unwind_rule_from_detected_prologue_aarch64 oc (take 16 bytes) (drop 16 bytes) = Val (Some (UnwindRuleAarch64.OffsetSp 4)) \<and>
      unwind_rule_from_detected_prologue_aarch64 oc (take 20 bytes) (drop 20 bytes) = Val (Some (UnwindRuleAarch64.OffsetSp 4)) \<and>
      unwind_rule_from_detected_prologue_aarch64 oc (take 24 bytes) (drop 24 bytes) = Val (Some (UnwindRuleAarch64.OffsetSp 4)) \<and>
      unwind_rule_from_detected_prologue_aarch64 oc (take 28 bytes) (drop 28 bytes) = Val (Some (UnwindRuleAarch64.OffsetSp 4)) \<and>
      unwind_rule_from_detected_prologue_aarch64 oc (take 32 bytes) (drop 32 bytes) = Val None)"

definition test_prologue_with_mov_fp_sp :: "bool \<Rightarrow> bool" where
  "test_prologue_with_mov_fp_sp oc \<longleftrightarrow>
     (let bytes = [
        0x7f, 0x23, 0x03, 0xd5, 0xfd, 0x7b, 0xbf, 0xa9, 0xfd, 0x03, 0x00, 0x91, 0x68, 0x04, 0x00, 0x51] in
      unwind_rule_from_detected_prologue_aarch64 oc (take 0 bytes) (drop 0 bytes) = Val (Some NoOp) \<and>
      unwind_rule_from_detected_prologue_aarch64 oc (take 4 bytes) (drop 4 bytes) = Val (Some NoOp) \<and>
      unwind_rule_from_detected_prologue_aarch64 oc (take 8 bytes) (drop 8 bytes) = Val (Some (UnwindRuleAarch64.OffsetSp 1)) \<and>
      unwind_rule_from_detected_prologue_aarch64 oc (take 12 bytes) (drop 12 bytes) = Val None)"

definition test_no_prologue_despite_stack_store :: "bool \<Rightarrow> bool" where
  "test_no_prologue_despite_stack_store oc \<longleftrightarrow>
     (let bytes = [
        0xe8, 0x17, 0x00, 0xf9, 0x03, 0x00, 0x00, 0x14, 0xff, 0xff, 0x01, 0xa9, 0xff, 0x17, 0x00, 0xf9,
        0xe0, 0x03, 0x00, 0x91] in
      unwind_rule_from_detected_prologue_aarch64 oc (take 0 bytes) (drop 0 bytes) = Val None \<and>
      unwind_rule_from_detected_prologue_aarch64 oc (take 4 bytes) (drop 4 bytes) = Val None \<and>
      unwind_rule_from_detected_prologue_aarch64 oc (take 8 bytes) (drop 8 bytes) = Val None \<and>
      unwind_rule_from_detected_prologue_aarch64 oc (take 12 bytes) (drop 12 bytes) = Val None \<and>
      unwind_rule_from_detected_prologue_aarch64 oc (take 16 bytes) (drop 16 bytes) = Val None)"

definition test_epilogue_1 :: "bool \<Rightarrow> bool" where
  "test_epilogue_1 oc \<longleftrightarrow>
     (let bytes = [
        0xfd, 0x7b, 0x44, 0xa9, 0xf4, 0x4f, 0x43, 0xa9, 0xf6, 0x57, 0x42, 0xa9, 0xff, 0x43, 0x01, 0x91,
        0xc0, 0x03, 0x5f, 0xd6] in
      unwind_rule_from_detected_epilogue_aarch64 oc bytes 0 = Val (Some (OffsetSpAndRestoreFpAndLr 5 8 9)) \<and>
      unwind_rule_from_detected_epilogue_aarch64 oc bytes 4 = Val (Some (UnwindRuleAarch64.OffsetSp 5)) \<and>
      unwind_rule_from_detected_epilogue_aarch64 oc bytes 8 = Val (Some (UnwindRuleAarch64.OffsetSp 5)) \<and>
      unwind_rule_from_detected_epilogue_aarch64 oc bytes 12 = Val (Some (UnwindRuleAarch64.OffsetSp 5)) \<and>
      unwind_rule_from_detected_epilogue_aarch64 oc bytes 16 = Val (Some NoOp) \<and>
      unwind_rule_from_detected_epilogue_aarch64 oc bytes 20 = Val None)"

definition test_epilogue_with_retab :: "bool \<Rightarrow> bool" where
  "test_epilogue_with_retab oc \<longleftrightarrow>
     (let bytes = [
        0xe0, 0x03, 0x16, 0xaa, 0xfd, 0x7b, 0x43, 0xa9, 0xf4, 0x4f, 0x42, 0xa9, 0xf6, 0x57, 0x41, 0xa9,
        0xf8, 0x5f, 0xc4, 0xa8, 0xff, 0x0f, 0x5f, 0xd6, 0xa0, 0x01, 0x80, 0x52, 0x20, 0x60, 0xa6, 0x72] in
      unwind_rule_from_detected_epilogue_aarch64 oc bytes 0 = Val None \<and>
      unwind_rule_from_detected_epilogue_aarch64 oc bytes 4 = Val (Some (OffsetSpAndRestoreFpAndLr 4 6 7)) \<and>
      unwind_rule_from_detected_epilogue_aarch64 oc bytes 8 = Val (Some (UnwindRuleAarch64.OffsetSp 4)) \<and>
      unwind_rule_from_detected_epilogue_aarch64 oc bytes 12 = Val (Some (UnwindRuleAarch64.OffsetSp 4)) \<and>
      unwind_rule_from_detected_epilogue_aarch64 oc bytes 16 = Val (Some (UnwindRuleAarch64.OffsetSp 4)) \<and>
      unwind_rule_from_detected_epilogue_aarch64 oc bytes 20 = Val (Some NoOp) \<and>
      unwind_rule_from_detected_epilogue_aarch64 oc bytes 24 = Val None)"

definition test_epilogue_with_retab_2 :: "bool \<Rightarrow> bool" where
  "test_epilogue_with_retab_2 oc \<longleftrightarrow>
     (let bytes = [
        0x28, 0x01, 0x00, 0x79, 0xfd, 0x7b, 0xc1, 0xa8, 0xff, 0x0f, 0x5f, 0xd6, 0xe2, 0x03, 0x08, 0xaa,
        0x38, 0x76, 0x00, 0x94] in
      unwind_rule_from_detected_epilogue_aarch64 oc bytes 0 = Val None \<and>
      unwind_rule_from_detected_epilogue_aarch64 oc bytes 4 = Val (Some (OffsetSpAndRestoreFpAndLr 1 0 1)) \<and>
      unwind_rule_from_detected_epilogue_aarch64 oc bytes 8 = Val (Some NoOp) \<and>
      unwind_rule_from_detected_epilogue_aarch64 oc bytes 12 = Val None \<and>
      unwind_rule_from_detected_epilogue_aarch64 oc bytes 16 = Val None)"

definition test_epilogue_with_regular_tail_call :: "bool \<Rightarrow> bool" where
  "test_epilogue_with_regular_tail_call oc \<longleftrightarrow>
     (let bytes = [
        0xfc, 0x6f, 0xc6, 0xa8, 0xbc, 0xba, 0xff, 0x17] in
      unwind_rule_from_detected_epilogue_aarch64 oc bytes 0 = Val (Some (UnwindRuleAarch64.OffsetSp 6)))"

definition test_epilogue_with_register_tail_call :: "bool \<Rightarrow> bool" where
  "test_epilogue_with_register_tail_call oc \<longleftrightarrow>
     (let bytes = [
        0xfa, 0x67, 0xc5, 0xa8, 0x60, 0x00, 0x1f, 0xd6] in
      unwind_rule_from_detected_epilogue_aarch64 oc bytes 4 = Val (Some NoOp))"

definition test_epilogue_with_auth_tail_call :: "bool \<Rightarrow> bool" where
  "test_epilogue_with_auth_tail_call oc \<longleftrightarrow>
     (let bytes = [
        0xe1, 0x03, 0x13, 0xaa, 0xfd, 0x7b, 0x42, 0xa9, 0xf4, 0x4f, 0x41, 0xa9, 0xf6, 0x57, 0xc3, 0xa8,
        0xff, 0x23, 0x03, 0xd5, 0xd0, 0x07, 0x1e, 0xca, 0x50, 0x00, 0xf0, 0xb6, 0x20, 0x8e, 0x38, 0xd4,
        0x13, 0x00, 0x00, 0x14, 0xa0, 0x16, 0x78, 0xf9, 0x03, 0x3c, 0x40, 0xf9] in
      unwind_rule_from_detected_epilogue_aarch64 oc bytes 0 = Val None \<and>
      unwind_rule_from_detected_epilogue_aarch64 oc bytes 4 = Val (Some (OffsetSpAndRestoreFpAndLr 3 4 5)) \<and>
      unwind_rule_from_detected_epilogue_aarch64 oc bytes 8 = Val (Some (UnwindRuleAarch64.OffsetSp 3)) \<and>
      unwind_rule_from_detected_epilogue_aarch64 oc bytes 12 = Val (Some (UnwindRuleAarch64.OffsetSp 3)) \<and>
      unwind_rule_from_detected_epilogue_aarch64 oc bytes 16 = Val (Some NoOp) \<and>
      unwind_rule_from_detected_epilogue_aarch64 oc bytes 20 = Val (Some NoOp) \<and>
      unwind_rule_from_detected_epilogue_aarch64 oc bytes 24 = Val (Some NoOp) \<and>
      unwind_rule_from_detected_epilogue_aarch64 oc bytes 28 = Val (Some NoOp))"

definition test_epilogue_with_auth_tail_call_2 :: "bool \<Rightarrow> bool" where
  "test_epilogue_with_auth_tail_call_2 oc \<longleftrightarrow>
     (let bytes = [
        0xe1, 0x03, 0x13, 0xaa, 0xfd, 0x7b, 0x41, 0xa9, 0xf4, 0x4f, 0xc2, 0xa8, 0xff, 0x23, 0x03, 0xd5,
        0xd0, 0x07, 0x1e, 0xca, 0x50, 0x00, 0xf0, 0xb6, 0x20, 0x8e, 0x38, 0xd4, 0xf0, 0x77, 0x9c, 0xd2,
        0x50, 0x08, 0x1f, 0xd7] in
      unwind_rule_from_detected_epilogue_aarch64 oc bytes 0 = Val None \<and>
      unwind_rule_from_detected_epilogue_aarch64 oc bytes 4 = Val (Some (OffsetSpAndRestoreFpAndLr 2 2 3)) \<and>
      unwind_rule_from_detected_epilogue_aarch64 oc bytes 8 = Val (Some (UnwindRuleAarch64.OffsetSp 2)) \<and>
      unwind_rule_from_detected_epilogue_aarch64 oc bytes 12 = Val (Some NoOp) \<and>
      unwind_rule_from_detected_epilogue_aarch64 oc bytes 16 = Val (Some NoOp) \<and>
      unwind_rule_from_detected_epilogue_aarch64 oc bytes 20 = Val (Some NoOp) \<and>
      unwind_rule_from_detected_epilogue_aarch64 oc bytes 24 = Val (Some NoOp) \<and>
      unwind_rule_from_detected_epilogue_aarch64 oc bytes 28 = Val (Some NoOp))"

section \<open>The tests pass\<close>

lemma both_builds: "P True \<Longrightarrow> P False \<Longrightarrow> P oc"
  by (cases oc) simp_all

lemma permutations_sound:
  assumes "p \<in> set (permutations k xs)" "distinct xs"
  shows "distinct p \<and> set p \<subseteq> set xs \<and> length p = k"
  using assms
proof (induction k xs arbitrary: p rule: permutations.induct)
  case (2 k xs)
  then obtain x q where x: "x \<in> set xs" "p = x # q" "q \<in> set (permutations k (remove1 x xs))" by auto
  from "2.IH" [OF x(1,3)] "2.prems"(2) have "distinct q" "set q \<subseteq> set (remove1 x xs)" "length q = k" by auto
  with x "2.prems"(2) show ?case by auto
qed simp

lemma add_signed_tests_pass: "test_wrapping" "test_checked"
  subgoal by code_simp
  subgoal by code_simp
  done

lemma test_ptr_auth_mask_passes: "test_ptr_auth_mask oc"
  by (rule both_builds; code_simp)

lemma unhandled_orderings_passes: "unhandled_orderings oc"
  by (simp add: unhandled_orderings_def encode_eq ENCODE_REGISTERS_def bring_def swap_elems_def)

lemma roundtrip_all_passes: "roundtrip_all oc"
proof -
  have "case encode oc p of Val (Some (cnt, encoded)) \<Rightarrow> decode cnt encoded = Val p | _ \<Rightarrow> False"
    if "p \<in> set (permutations k ENCODE_REGISTERS)" for k p
  proof -
    have "distinct p \<and> set p \<subseteq> set ENCODE_REGISTERS"
      using permutations_sound [OF that] by (simp add: ENCODE_REGISTERS_def)
    then obtain c r where "encode oc p = Val (Some (c, r))"
      using encode_total_and_exact [of oc p] by (metis option.exhaust surj_pair)
    then show ?thesis using decode_of_encode by auto
  qed
  then show ?thesis by (auto simp: roundtrip_all_def list_all_iff)
qed

lemma rule_tests_pass: "test_basic_x86_64 oc" "test_overflow_x86_64 oc" "test_basic_aarch64 oc"
  subgoal by (rule both_builds; code_simp)
  subgoal by (rule both_builds; code_simp)
  subgoal by (rule both_builds; code_simp)
  done

lemma test_prologue_1_passes: "test_prologue_1 oc"
  by (rule both_builds; code_simp)

lemma test_prologue_with_pacibsp_passes: "test_prologue_with_pacibsp oc"
  by (rule both_builds; code_simp)

lemma test_prologue_with_mov_fp_sp_passes: "test_prologue_with_mov_fp_sp oc"
  by (rule both_builds; code_simp)

lemma test_no_prologue_despite_stack_store_passes: "test_no_prologue_despite_stack_store oc"
  by (rule both_builds; code_simp)

lemma test_epilogue_1_passes: "test_epilogue_1 oc"
  by (rule both_builds; code_simp)

lemma test_epilogue_with_retab_passes: "test_epilogue_with_retab oc"
  by (rule both_builds; code_simp)

lemma test_epilogue_with_retab_2_passes: "test_epilogue_with_retab_2 oc"
  by (rule both_builds; code_simp)

lemma test_epilogue_with_regular_tail_call_passes: "test_epilogue_with_regular_tail_call oc"
  by (rule both_builds; code_simp)

lemma test_epilogue_with_register_tail_call_passes: "test_epilogue_with_register_tail_call oc"
  by (rule both_builds; code_simp)

lemma test_epilogue_with_auth_tail_call_passes: "test_epilogue_with_auth_tail_call oc"
  by (rule both_builds; code_simp)

lemma test_epilogue_with_auth_tail_call_2_passes: "test_epilogue_with_auth_tail_call_2 oc"
  by (rule both_builds; code_simp)

lemmas prologue_tests_pass = test_prologue_1_passes
  test_prologue_with_pacibsp_passes
  test_prologue_with_mov_fp_sp_passes
  test_no_prologue_despite_stack_store_passes

lemmas epilogue_tests_pass = test_epilogue_1_passes
  test_epilogue_with_retab_passes
  test_epilogue_with_retab_2_passes
  test_epilogue_with_regular_tail_call_passes
  test_epilogue_with_register_tail_call_passes
  test_epilogue_with_auth_tail_call_passes
  test_epilogue_with_auth_tail_call_2_passes


end
