(* ===== verification/CodeAddress.thy ===== *)
theory CodeAddress
  imports Prelude
begin

text \<open>
  \<^verbatim>\<open>src/code_address.rs\<close>: the address of a stack frame.  The payload of \<open>ReturnAddress\<close> is a
  \<open>NonZeroU64\<close>; here it is a \<open>u64\<close> together with the well-formedness predicate \<open>wf_frame_address\<close>, which
  \<open>from_return_address\<close> establishes and under which \<open>address_for_lookup\<close> cannot underflow.
\<close>

datatype FrameAddress = InstructionPointer u64 | ReturnAddress u64

definition from_instruction_pointer :: "u64 \<Rightarrow> FrameAddress" where
  "from_instruction_pointer ip = InstructionPointer ip"

definition from_return_address :: "u64 \<Rightarrow> FrameAddress option" where
  "from_return_address ra = (if ra = 0 then None else Some (ReturnAddress ra))"

primrec address :: "FrameAddress \<Rightarrow> u64" where
  "address (InstructionPointer a) = a"
| "address (ReturnAddress a) = a"

primrec address_for_lookup :: "bool \<Rightarrow> FrameAddress \<Rightarrow> u64 outcome" where
  "address_for_lookup oc (InstructionPointer a) = Val a"
| "address_for_lookup oc (ReturnAddress a) = sub_oc oc a 1"

primrec is_return_address :: "FrameAddress \<Rightarrow> bool" where
  "is_return_address (InstructionPointer a) = False"
| "is_return_address (ReturnAddress a) = True"

definition wf_frame_address :: "FrameAddress \<Rightarrow> bool" where
  "wf_frame_address fa \<longleftrightarrow> is_return_address fa \<longrightarrow> address fa \<noteq> 0"

lemma wf_frame_address_simps [simp]:
  "wf_frame_address (InstructionPointer a)"
  "wf_frame_address (ReturnAddress a) \<longleftrightarrow> a \<noteq> 0"
  by (simp_all add: wf_frame_address_def)

lemma from_return_address_Some_iff [simp]:
  "from_return_address ra = Some fa \<longleftrightarrow> ra \<noteq> 0 \<and> fa = ReturnAddress ra"
  by (auto simp: from_return_address_def)

lemma from_return_address_None_iff [simp]: "from_return_address ra = None \<longleftrightarrow> ra = 0"
  by (simp add: from_return_address_def)

lemma from_return_address_wf: "from_return_address ra = Some fa \<Longrightarrow> wf_frame_address fa"
  by auto

lemma one_le_nonzero: "a \<noteq> 0 \<Longrightarrow> (1 :: 'a::len word) \<le> a"
  by (simp add: word_le_def) (metis add_0 int_one_le_iff_zero_less order_less_le uint_0_iff uint_ge_0)

definition lookup_address :: "FrameAddress \<Rightarrow> u64" where
  "lookup_address fa = (case fa of InstructionPointer a \<Rightarrow> a | ReturnAddress a \<Rightarrow> a - 1)"

lemma address_for_lookup_wf: "wf_frame_address fa \<Longrightarrow> address_for_lookup oc fa = Val (lookup_address fa)"
  by (cases fa) (auto simp: lookup_address_def one_le_nonzero)

end
