(* ===== verification/Search.thy ===== *)
theory Search
  imports Prelude
begin

text \<open>
  The parts of the standard library's slices and vectors that the sorted tables of the crate rest on:
  \<open>binary_search_by_key\<close> (the loop of the current standard library), \<open>Vec::insert\<close> and \<open>Vec::remove\<close>.

  The locale \<open>sorted_search\<close> states what the documentation of \<open>binary_search\<close> promises on a sorted slice; it leaves
  open which of several equal elements is found.  The lemmas about the module list and about the index of frame
  descriptions are proved from these laws only.
\<close>

section \<open>Binary search and vectors\<close>

function bsearch_loop :: "'k::linorder list \<Rightarrow> 'k \<Rightarrow> nat \<Rightarrow> nat \<Rightarrow> nat" where
  "bsearch_loop xs k base sz =
     (if 1 < sz
      then let half = sz div 2; mid = base + half in
           bsearch_loop xs k (if k < xs ! mid then base else mid) (sz - half)
      else base)"
  by auto
termination by (relation "measure (\<lambda>(xs, k, base, sz). sz)") auto

declare bsearch_loop.simps [simp del]

definition binary_search :: "'k::linorder list \<Rightarrow> 'k \<Rightarrow> (nat, nat) result" where
  "binary_search xs k =
     (if xs = [] then Err 0
      else let base = bsearch_loop xs k 0 (length xs) in
           if xs ! base = k then Ok base
           else Err (base + (if xs ! base < k then 1 else 0)))"

definition vec_insert :: "nat \<Rightarrow> 'a \<Rightarrow> 'a list \<Rightarrow> 'a list outcome" where
  "vec_insert i x xs = (if i \<le> length xs then Val (take i xs @ x # drop i xs) else Panic IndexOutOfBounds)"

definition vec_remove :: "nat \<Rightarrow> 'a list \<Rightarrow> 'a list outcome" where
  "vec_remove i xs = (if i < length xs then Val (take i xs @ drop (Suc i) xs) else Panic IndexOutOfBounds)"

definition vec_index :: "nat \<Rightarrow> 'a list \<Rightarrow> 'a outcome" where
  "vec_index i xs = (if i < length xs then Val (xs ! i) else Panic IndexOutOfBounds)"

lemma vec_index_Val [simp]: "i < length xs \<Longrightarrow> vec_index i xs = Val (xs ! i)"
  by (simp add: vec_index_def)

text \<open>The entry at which a lookup in a table of start addresses ends: the match of both table lookups,
  \<open>Ok(i) => i\<close>, \<open>Err(0) => return None\<close>, \<open>Err(i) => i - 1\<close>.\<close>

definition predecessor_of :: "(nat, nat) result \<Rightarrow> nat option" where
  "predecessor_of r = (case r of Ok i \<Rightarrow> Some i | Err i \<Rightarrow> if i = 0 then None else Some (i - 1))"

section \<open>The contract of a search in a sorted table\<close>

locale sorted_search =
  fixes search :: "'k::linorder list \<Rightarrow> 'k \<Rightarrow> (nat, nat) result"
  assumes search_Ok: "sorted xs \<Longrightarrow> search xs k = Ok i \<Longrightarrow> i < length xs \<and> xs ! i = k"
    and search_Err: "sorted xs \<Longrightarrow> search xs k = Err i \<Longrightarrow>
          i \<le> length xs \<and> (\<forall>j < i. xs ! j < k) \<and> (\<forall>j. i \<le> j \<and> j < length xs \<longrightarrow> k < xs ! j)"
begin

lemma search_finds: "sorted xs \<Longrightarrow> (\<exists>i. search xs k = Ok i) \<longleftrightarrow> k \<in> set xs"
proof
  assume "sorted xs" "\<exists>i. search xs k = Ok i"
  then show "k \<in> set xs" using search_Ok nth_mem by metis
next
  assume s: "sorted xs" and "k \<in> set xs"
  then obtain j where j: "j < length xs" "xs ! j = k" by (auto simp: in_set_conv_nth)
  show "\<exists>i. search xs k = Ok i"
  proof (cases "search xs k")
    case (Err i)
    with search_Err [OF s Err] j show ?thesis by (metis less_irrefl not_le)
  qed auto
qed

lemma search_pos: "sorted xs \<Longrightarrow> search xs k = Ok i \<or> search xs k = Err i \<Longrightarrow> i \<le> length xs"
  using search_Ok search_Err by (metis less_imp_le)

text \<open>Inserting at the position reported, found or not, keeps the table sorted.\<close>

lemma sorted_insert_at:
  assumes s: "sorted xs" and r: "search xs k = Ok i \<or> search xs k = Err i"
  shows "sorted (take i xs @ k # drop i xs)"
proof -
  have i: "i \<le> length xs" using search_pos [OF s r] .
  have l: "xs ! j \<le> k" if "j < i" for j
  proof (cases "search xs k")
    case (Ok i')
    with r have "i' = i" by simp
    with search_Ok [OF s Ok] that s show ?thesis by (metis less_imp_le sorted_nth_mono)
  next
    case (Err i')
    with r have "i' = i" by simp
    with search_Err [OF s Err] that show ?thesis by (simp add: less_imp_le)
  qed
  have u: "k \<le> xs ! j" if "i \<le> j" "j < length xs" for j
  proof (cases "search xs k")
    case (Ok i')
    with r have "i' = i" by simp
    with search_Ok [OF s Ok] that s show ?thesis by (metis sorted_nth_mono)
  next
    case (Err i')
    with r have "i' = i" by simp
    with search_Err [OF s Err] that show ?thesis by (simp add: less_imp_le)
  qed
  have "\<forall>x \<in> set (take i xs). x \<le> k" using l by (auto simp: in_set_conv_nth)
  moreover have "\<forall>x \<in> set (drop i xs). k \<le> x" using u i by (auto simp: in_set_conv_nth)
  ultimately show ?thesis
    using s by (auto simp: sorted_append sorted_wrt_take sorted_wrt_drop intro: order_trans)
qed

text \<open>A lookup by predecessor finds the last start that is not beyond the key.\<close>

lemma predecessor_Some:
  assumes s: "sorted xs" and p: "predecessor_of (search xs k) = Some i"
  shows "i < length xs \<and> xs ! i \<le> k \<and> (\<forall>x \<in> set xs. x \<le> k \<longrightarrow> x \<le> xs ! i)"
proof (cases "search xs k")
  case (Ok j)
  with p search_Ok [OF s Ok] show ?thesis by (auto simp: predecessor_of_def)
next
  case (Err j)
  with p have j: "0 < j" "i = j - 1" by (auto simp: predecessor_of_def split: if_splits)
  note e = search_Err [OF s Err]
  have i: "i < length xs" "xs ! i < k" using j e by auto
  have "x \<le> xs ! i" if "x \<in> set xs" "x \<le> k" for x
  proof -
    from that(1) obtain m where m: "m < length xs" "xs ! m = x" unfolding in_set_conv_nth by blast
    have "m < j" using e m that(2) by (metis not_le)
    then show ?thesis using s m i j by (metis One_nat_def Suc_pred less_Suc_eq_le sorted_nth_mono)
  qed
  with i show ?thesis by auto
qed

lemma predecessor_None:
  assumes s: "sorted xs" and p: "predecessor_of (search xs k) = None" and x: "x \<in> set xs"
  shows "k < x"
proof (cases "search xs k")
  case (Err j)
  with p have "j = 0" by (auto simp: predecessor_of_def split: if_splits)
  with search_Err [OF s Err] x show ?thesis by (auto simp: in_set_conv_nth)
qed (use p in \<open>simp add: predecessor_of_def\<close>)

text \<open>With distinct starts the predecessor is unique.\<close>

lemma predecessor_unique:
  assumes s: "sorted xs" and d: "distinct xs" and i: "i < length xs" "xs ! i \<le> k"
    and m: "\<forall>x \<in> set xs. x \<le> k \<longrightarrow> x \<le> xs ! i"
  shows "predecessor_of (search xs k) = Some i"
proof (cases "predecessor_of (search xs k)")
  case None
  with predecessor_None [OF s None, of "xs ! i"] i show ?thesis by auto
next
  case (Some j)
  with predecessor_Some [OF s Some] i m have "xs ! i = xs ! j" "j < length xs"
    by (metis nth_mem order_antisym, blast)
  with d i Some show ?thesis by (simp add: nth_eq_iff_index_eq)
qed

end

section \<open>The standard library's search has it\<close>

lemma bsearch_loop_invariant:
  assumes "sorted xs" "0 < sz" "base + sz \<le> length xs"
    "base = 0 \<or> xs ! base \<le> k" "\<forall>j. base + sz \<le> j \<and> j < length xs \<longrightarrow> k < xs ! j"
    and b: "b = bsearch_loop xs k base sz"
  shows "b < length xs \<and> (b = 0 \<or> xs ! b \<le> k) \<and> (\<forall>j. b < j \<and> j < length xs \<longrightarrow> k < xs ! j)"
  using assms
proof (induction sz arbitrary: base rule: less_induct)
  case (less sz base)
  show ?case
  proof (cases "1 < sz")
    case True
    define half where "half = sz div 2"
    define mid where "mid = base + half"
    define base' where "base' = (if k < xs ! mid then base else mid)"
    have h: "0 < half" "half < sz" "half \<le> sz - half" using True by (auto simp: half_def)
    have m: "mid < length xs" using h less.prems(3) by (simp add: mid_def)
    have up: "\<forall>j. base' + (sz - half) \<le> j \<and> j < length xs \<longrightarrow> k < xs ! j"
    proof (intro allI impI)
      fix j assume j: "base' + (sz - half) \<le> j \<and> j < length xs"
      show "k < xs ! j"
      proof (cases "k < xs ! mid")
        case True
        have "base' = base" using True by (simp add: base'_def)
        with j h(3) have "mid \<le> j" unfolding mid_def by linarith
        then have "xs ! mid \<le> xs ! j" using j less.prems(1) sorted_nth_mono by blast
        with True show ?thesis by order
      next
        case False
        then show ?thesis using j h less.prems(5) by (simp add: mid_def base'_def)
      qed
    qed
    have step: "b = bsearch_loop xs k base' (sz - half)"
      using True less.prems(6) by (subst (asm) bsearch_loop.simps) (simp add: Let_def half_def mid_def base'_def)
    show ?thesis
    proof (rule less.IH [of "sz - half" base'])
      show "sz - half < sz" "0 < sz - half" using h by simp_all
      show "base' + (sz - half) \<le> length xs" using h less.prems(3) by (auto simp: base'_def mid_def)
      show "base' = 0 \<or> xs ! base' \<le> k" using less.prems(4) by (simp add: base'_def not_less)
    qed (rule less.prems(1) up step)+
  next
    case False
    then have "b = base" "sz = 1" using less.prems by (subst (asm) bsearch_loop.simps; simp)+
    then show ?thesis using less.prems by (auto simp: Suc_le_eq)
  qed
qed

lemma binary_search_nonempty:
  assumes "sorted xs" "xs \<noteq> []"
  shows "bsearch_loop xs k 0 (length xs) < length xs"
    "bsearch_loop xs k 0 (length xs) = 0 \<or> xs ! bsearch_loop xs k 0 (length xs) \<le> k"
    "\<And>j. bsearch_loop xs k 0 (length xs) < j \<Longrightarrow> j < length xs \<Longrightarrow> k < xs ! j"
proof -
  have "0 < length xs" "\<forall>j. 0 + length xs \<le> j \<and> j < length xs \<longrightarrow> k < xs ! j" using assms by auto
  from bsearch_loop_invariant [OF assms(1) this(1) _ _ this(2) refl]
  show "bsearch_loop xs k 0 (length xs) < length xs"
    "bsearch_loop xs k 0 (length xs) = 0 \<or> xs ! bsearch_loop xs k 0 (length xs) \<le> k"
    "\<And>j. bsearch_loop xs k 0 (length xs) < j \<Longrightarrow> j < length xs \<Longrightarrow> k < xs ! j"
    by simp_all
qed

interpretation std: sorted_search binary_search
proof unfold_locales
  fix xs :: "'a list" and k i
  assume s: "sorted xs" and r: "binary_search xs k = Ok i"
  then have "xs \<noteq> []" "i = bsearch_loop xs k 0 (length xs)" "xs ! i = k"
    by (auto simp: binary_search_def Let_def split: if_splits)
  then show "i < length xs \<and> xs ! i = k" using binary_search_nonempty(1) [OF s, of k] by metis
next
  fix xs :: "'a list" and k i
  assume s: "sorted xs" and e: "binary_search xs k = Err i"
  show "i \<le> length xs \<and> (\<forall>j < i. xs ! j < k) \<and> (\<forall>j. i \<le> j \<and> j < length xs \<longrightarrow> k < xs ! j)"
  proof (cases "xs = []")
    case True
    with e show ?thesis by (simp add: binary_search_def)
  next
    case False
    define b where "b = bsearch_loop xs k 0 (length xs)"
    note b = binary_search_nonempty [OF s False, of k, folded b_def]
    have i: "i = b + (if xs ! b < k then 1 else 0)" "xs ! b \<noteq> k"
      using e False by (simp_all add: binary_search_def Let_def b_def split: if_splits)
    have lo: "xs ! j < k" if "j < i" for j
    proof -
      have "xs ! b < k \<and> j \<le> b"
      proof (cases "xs ! b < k")
        case False
        with b(2) i(2) have "b = 0" by auto
        with False that i(1) show ?thesis by simp
      qed (use that i(1) in simp)
      then show ?thesis using s b(1) by (metis order_le_less_trans sorted_nth_mono)
    qed
    have hi: "k < xs ! j" if "i \<le> j" "j < length xs" for j
    proof (cases "b < j")
      case True
      with b(3) that show ?thesis by blast
    next
      case False
      with that(1) i(1) have "j = b" "\<not> xs ! b < k" by (auto split: if_splits)
      with i(2) show ?thesis by auto
    qed
    have "i \<le> length xs" using i(1) b(1) by simp
    with lo hi show ?thesis by blast
  qed
qed

end
