(* ===== verification/RuleCache.thy ===== *)
theory RuleCache
  imports Search
begin

text \<open>
  \<^verbatim>\<open>src/rule_cache.rs\<close>: the direct-mapped cache of unwind rules, keyed by the lookup address and by the generation
  of the module list.  The rule type is a type parameter, as in the source.

  The locale \<open>lossy_map\<close> states the contract a client relies on: a cache is a partial map that may forget entries at
  any insertion but never invents one, and returns what was inserted last.  It is interpreted on the cache's
  operations.
\<close>

section \<open>State and operations\<close>

definition CACHE_ENTRY_COUNT :: nat where
  "CACHE_ENTRY_COUNT = 509"

record 'r CacheEntry =
  ce_address :: u64
  ce_modules_generation :: u16
  ce_unwind_rule :: 'r

record CacheStats =
  hit_count :: u64
  miss_empty_slot_count :: u64
  miss_wrong_modules_count :: u64
  miss_wrong_address_count :: u64

record 'r RuleCache =
  entries :: "'r CacheEntry option list"
  stats :: CacheStats

record CacheHandle =
  ch_slot :: u16
  ch_address :: u64
  ch_modules_generation :: u16

datatype 'r CacheResult = Miss CacheHandle | Hit 'r

definition new_stats :: CacheStats where
  "new_stats = \<lparr>hit_count = 0, miss_empty_slot_count = 0, miss_wrong_modules_count = 0, miss_wrong_address_count = 0\<rparr>"

definition new_rule_cache :: "'r RuleCache" where
  "new_rule_cache = \<lparr>entries = replicate CACHE_ENTRY_COUNT None, stats = new_stats\<rparr>"

definition slot_of :: "u64 \<Rightarrow> u16" where
  "slot_of addr = ucast (addr mod of_nat CACHE_ENTRY_COUNT)"

definition miss_handle :: "u64 \<Rightarrow> u16 \<Rightarrow> CacheHandle" where
  "miss_handle addr g = \<lparr>ch_slot = slot_of addr, ch_address = addr, ch_modules_generation = g\<rparr>"

definition lookup :: "bool \<Rightarrow> u64 \<Rightarrow> u16 \<Rightarrow> 'r RuleCache \<Rightarrow> ('r RuleCache \<times> 'r CacheResult) outcome" where
  "lookup oc addr g c =
     obind (vec_index (unat (slot_of addr)) (entries c)) (\<lambda>e.
       case e of
         None \<Rightarrow>
           obind (add_oc oc (miss_empty_slot_count (stats c)) 1) (\<lambda>n.
             Val (c\<lparr>stats := (stats c)\<lparr>miss_empty_slot_count := n\<rparr>\<rparr>, Miss (miss_handle addr g)))
       | Some entry \<Rightarrow>
           if ce_modules_generation entry = g then
             if ce_address entry = addr then
               obind (add_oc oc (hit_count (stats c)) 1) (\<lambda>n.
                 Val (c\<lparr>stats := (stats c)\<lparr>hit_count := n\<rparr>\<rparr>, Hit (ce_unwind_rule entry)))
             else
               obind (add_oc oc (miss_wrong_address_count (stats c)) 1) (\<lambda>n.
                 Val (c\<lparr>stats := (stats c)\<lparr>miss_wrong_address_count := n\<rparr>\<rparr>, Miss (miss_handle addr g)))
           else
             obind (add_oc oc (miss_wrong_modules_count (stats c)) 1) (\<lambda>n.
               Val (c\<lparr>stats := (stats c)\<lparr>miss_wrong_modules_count := n\<rparr>\<rparr>, Miss (miss_handle addr g))))"

definition insert_rule :: "CacheHandle \<Rightarrow> 'r \<Rightarrow> 'r RuleCache \<Rightarrow> 'r RuleCache outcome" where
  "insert_rule h r c =
     (if unat (ch_slot h) < length (entries c)
      then Val (c\<lparr>entries := (entries c)[unat (ch_slot h) :=
             Some \<lparr>ce_address = ch_address h, ce_modules_generation = ch_modules_generation h, ce_unwind_rule = r\<rparr>]\<rparr>)
      else Panic IndexOutOfBounds)"

definition hits :: "CacheStats \<Rightarrow> u64" where
  "hits s = hit_count s"

definition misses :: "bool \<Rightarrow> CacheStats \<Rightarrow> u64 outcome" where
  "misses oc s =
     obind (add_oc oc (miss_empty_slot_count s) (miss_wrong_modules_count s)) (\<lambda>n.
       add_oc oc n (miss_wrong_address_count s))"

definition total :: "bool \<Rightarrow> CacheStats \<Rightarrow> u64 outcome" where
  "total oc s = obind (misses oc s) (\<lambda>m. add_oc oc (hits s) m)"

section \<open>Invariant and abstraction\<close>

text \<open>Every entry lies in the slot of its address.\<close>

definition wf_cache :: "'r RuleCache \<Rightarrow> bool" where
  "wf_cache c \<longleftrightarrow> length (entries c) = CACHE_ENTRY_COUNT \<and>
     (\<forall>i < CACHE_ENTRY_COUNT. case entries c ! i of None \<Rightarrow> True | Some e \<Rightarrow> unat (slot_of (ce_address e)) = i)"

text \<open>The partial map a cache stands for.\<close>

definition cached :: "'r RuleCache \<Rightarrow> u64 \<Rightarrow> u16 \<Rightarrow> 'r option" where
  "cached c addr g =
     (case entries c ! unat (slot_of addr) of
        None \<Rightarrow> None
      | Some e \<Rightarrow> if ce_address e = addr \<and> ce_modules_generation e = g then Some (ce_unwind_rule e) else None)"

text \<open>The counters as mathematical integers.\<close>

definition counted :: "'r RuleCache \<Rightarrow> int" where
  "counted c = uint (hit_count (stats c)) + uint (miss_empty_slot_count (stats c)) +
     uint (miss_wrong_modules_count (stats c)) + uint (miss_wrong_address_count (stats c))"

lemma slot_of_unat: "unat (slot_of addr) = unat addr mod 509"
proof -
  have m: "unat (addr mod 509) = unat addr mod 509" by (simp add: unat_mod_distrib)
  then have lt: "unat (addr mod 509) < 2 ^ 16" by (simp add: less_imp_le order_less_trans [OF mod_less_divisor])
  have "unat (ucast (addr mod 509) :: u16) = take_bit 16 (unat (addr mod 509))"
    by (simp add: unsigned_ucast_eq)
  with m lt show ?thesis by (simp add: slot_of_def CACHE_ENTRY_COUNT_def take_bit_nat_eq_self)
qed

lemma slot_of_bound [simp]: "unat (slot_of addr) < CACHE_ENTRY_COUNT"
  by (simp add: slot_of_unat CACHE_ENTRY_COUNT_def)

lemma wf_new_rule_cache [simp]: "wf_cache new_rule_cache"
  by (simp add: wf_cache_def new_rule_cache_def)

lemma cached_new [simp]: "cached new_rule_cache addr g = None"
  by (simp add: cached_def new_rule_cache_def)

lemma counted_new [simp]: "counted new_rule_cache = 0"
  by (simp add: counted_def new_rule_cache_def new_stats_def)

lemma hit_count_new [simp]: "hit_count (stats new_rule_cache) = 0"
  by (simp add: new_rule_cache_def new_stats_def)

lemma wf_cache_stats [simp]: "wf_cache (c\<lparr>stats := s\<rparr>) = wf_cache c"
  by (simp add: wf_cache_def)

lemma cached_stats [simp]: "cached (c\<lparr>stats := s\<rparr>) = cached c"
  by (simp add: cached_def fun_eq_iff)

text \<open>One case per branch of \<open>lookup\<close>; every branch counts one event.\<close>

lemma lookup_cases:
  assumes "wf_cache c"
  obtains (hit) r where "cached c addr g = Some r"
      "lookup oc addr g c = obind (add_oc oc (hit_count (stats c)) 1) (\<lambda>n.
         Val (c\<lparr>stats := (stats c)\<lparr>hit_count := n\<rparr>\<rparr>, Hit r))"
  | (empty) "cached c addr g = None"
      "lookup oc addr g c = obind (add_oc oc (miss_empty_slot_count (stats c)) 1) (\<lambda>n.
         Val (c\<lparr>stats := (stats c)\<lparr>miss_empty_slot_count := n\<rparr>\<rparr>, Miss (miss_handle addr g)))"
  | (wrong_address) "cached c addr g = None"
      "lookup oc addr g c = obind (add_oc oc (miss_wrong_address_count (stats c)) 1) (\<lambda>n.
         Val (c\<lparr>stats := (stats c)\<lparr>miss_wrong_address_count := n\<rparr>\<rparr>, Miss (miss_handle addr g)))"
  | (wrong_modules) "cached c addr g = None"
      "lookup oc addr g c = obind (add_oc oc (miss_wrong_modules_count (stats c)) 1) (\<lambda>n.
         Val (c\<lparr>stats := (stats c)\<lparr>miss_wrong_modules_count := n\<rparr>\<rparr>, Miss (miss_handle addr g)))"
proof -
  have len: "unat (slot_of addr) < length (entries c)" using assms by (simp add: wf_cache_def)
  show thesis
  proof (cases "entries c ! unat (slot_of addr)")
    case None
    then show thesis using len by (intro empty) (simp_all add: lookup_def cached_def)
  next
    case (Some e)
    consider "ce_modules_generation e \<noteq> g" | "ce_modules_generation e = g" "ce_address e \<noteq> addr"
      | "ce_modules_generation e = g" "ce_address e = addr" by blast
    then show thesis
    proof cases
      case 1
      then show thesis using len Some by (intro wrong_modules) (simp_all add: lookup_def cached_def)
    next
      case 2
      then show thesis using len Some by (intro wrong_address) (simp_all add: lookup_def cached_def)
    next
      case 3
      then show thesis using len Some by (intro hit) (simp_all add: lookup_def cached_def)
    qed
  qed
qed

lemma lookup_effect:
  assumes "wf_cache c" "lookup oc addr g c = Val (c', r)"
  shows "wf_cache c'" "cached c' = cached c" "entries c' = entries c"
    "r = (case cached c addr g of None \<Rightarrow> Miss (miss_handle addr g) | Some x \<Rightarrow> Hit x)"
  using assms(2) by (cases rule: lookup_cases [OF assms(1), of addr g oc]; auto simp: assms(1))+

lemma uint_add_1: "uint n + 1 < 2 ^ 64 \<Longrightarrow> uint (n + 1) = uint n + 1" for n :: u64
  using checked_add_Some_iff [of n 1 "n + 1"] by (simp add: checked_add_def)

lemma add_oc_1: "uint n + 1 < 2 ^ 64 \<Longrightarrow> add_oc oc n 1 = Val (n + 1)" for n :: u64
  by (simp add: add_oc_def)

lemma counters_le_counted:
  "uint (hit_count (stats c)) \<le> counted c" "uint (miss_empty_slot_count (stats c)) \<le> counted c"
  "uint (miss_wrong_modules_count (stats c)) \<le> counted c" "uint (miss_wrong_address_count (stats c)) \<le> counted c"
  by (simp_all add: counted_def)

lemma lookup_counts:
  assumes "wf_cache c" "counted c + 1 < 2 ^ 64"
  shows "\<exists>c' r. lookup oc addr g c = Val (c', r) \<and> counted c' = counted c + 1 \<and>
    uint (hit_count (stats c')) = uint (hit_count (stats c)) + (if cached c addr g = None then 0 else 1)"
proof -
  have "uint n + 1 < 2 ^ 64" if "n \<in> {hit_count (stats c), miss_empty_slot_count (stats c),
      miss_wrong_modules_count (stats c), miss_wrong_address_count (stats c)}" for n
    using assms(2) counters_le_counted [of c] that by auto
  then have a: "add_oc oc n 1 = Val (n + 1) \<and> uint (n + 1) = uint n + 1" if "n \<in> {hit_count (stats c),
      miss_empty_slot_count (stats c), miss_wrong_modules_count (stats c), miss_wrong_address_count (stats c)}" for n
    using add_oc_1 uint_add_1 that by blast
  show ?thesis
    by (cases rule: lookup_cases [OF assms(1), of addr g oc]) (simp_all add: a counted_def)
qed

lemma insert_effect:
  assumes "wf_cache c"
  obtains c' where "insert_rule (miss_handle addr g) r c = Val c'" "wf_cache c'" "stats c' = stats c"
    "\<And>a' g'. cached c' a' g' =
       (if slot_of a' = slot_of addr then if a' = addr \<and> g' = g then Some r else None else cached c a' g')"
proof -
  let ?e = "\<lparr>ce_address = addr, ce_modules_generation = g, ce_unwind_rule = r\<rparr>"
  let ?c = "c\<lparr>entries := (entries c)[unat (slot_of addr) := Some ?e]\<rparr>"
  have len: "length (entries c) = CACHE_ENTRY_COUNT" using assms by (simp add: wf_cache_def)
  have "insert_rule (miss_handle addr g) r c = Val ?c" by (simp add: insert_rule_def miss_handle_def len)
  moreover have "wf_cache ?c" using assms by (auto simp: wf_cache_def nth_list_update)
  moreover have "stats ?c = stats c" by simp
  moreover have "cached ?c a' g' =
       (if slot_of a' = slot_of addr then if a' = addr \<and> g' = g then Some r else None else cached c a' g')" for a' g'
    by (auto simp: cached_def len nth_list_update word_unat_eq_iff)
  ultimately show thesis by (rule that)
qed

section \<open>The contract of a lossy map\<close>

locale lossy_map =
  fixes valid :: "'s \<Rightarrow> bool"
    and view :: "'s \<Rightarrow> 'k \<Rightarrow> 'v option"
    and find :: "'k \<Rightarrow> 's \<Rightarrow> ('s \<times> 'v option) outcome"
    and store :: "'k \<Rightarrow> 'v \<Rightarrow> 's \<Rightarrow> 's outcome"
  assumes find_Val: "valid s \<Longrightarrow> find k s = Val (s', r) \<Longrightarrow> valid s' \<and> r = view s k \<and> view s' = view s"
    and store_Val: "valid s \<Longrightarrow> \<exists>s'. store k v s = Val s' \<and> valid s' \<and> view s' k = Some v"
    and store_other: "valid s \<Longrightarrow> store k v s = Val s' \<Longrightarrow> k' \<noteq> k \<Longrightarrow> view s' k' = Some v' \<Longrightarrow> view s k' = Some v'"
begin

text \<open>What was stored is found, until another store.\<close>

lemma find_store:
  assumes "valid s" "store k v s = Val s'" "find k s' = Val (s'', r)"
  shows "r = Some v"
  using assms store_Val [of s k v] find_Val [of s' k s'' r] by auto

text \<open>A property of all associations is kept by both operations, whatever the map forgets.\<close>

lemma find_all:
  assumes "valid s" "find k s = Val (s', r)" "\<And>k v. view s k = Some v \<Longrightarrow> P k v"
  shows "(\<forall>k v. view s' k = Some v \<longrightarrow> P k v) \<and> (\<forall>v. r = Some v \<longrightarrow> P k v)"
  using find_Val [OF assms(1,2)] assms(3) by auto

lemma store_all:
  assumes "valid s" "store k v s = Val s'" "\<And>k' v'. k' \<noteq> k \<Longrightarrow> view s k' = Some v' \<Longrightarrow> P k' v'" "P k v"
  shows "\<forall>k v. view s' k = Some v \<longrightarrow> P k v"
proof (intro allI impI)
  fix k' v' assume v': "view s' k' = Some v'"
  show "P k' v'"
  proof (cases "k' = k")
    case True
    with v' store_Val [OF assms(1), of k v] assms(2,4) show ?thesis by auto
  next
    case False
    with v' store_other [OF assms(1,2)] assms(3) show ?thesis by blast
  qed
qed

end

definition find_rule :: "bool \<Rightarrow> u64 \<times> u16 \<Rightarrow> 'r RuleCache \<Rightarrow> ('r RuleCache \<times> 'r option) outcome" where
  "find_rule oc k c = obind (lookup oc (fst k) (snd k) c) (\<lambda>(c', r).
     Val (c', case r of Hit x \<Rightarrow> Some x | Miss _ \<Rightarrow> None))"

definition store_rule :: "u64 \<times> u16 \<Rightarrow> 'r \<Rightarrow> 'r RuleCache \<Rightarrow> 'r RuleCache outcome" where
  "store_rule k r c = insert_rule (miss_handle (fst k) (snd k)) r c"

definition view_cache :: "'r RuleCache \<Rightarrow> u64 \<times> u16 \<Rightarrow> 'r option" where
  "view_cache c k = cached c (fst k) (snd k)"

interpretation rule_cache: lossy_map wf_cache view_cache "find_rule oc" store_rule for oc
proof unfold_locales
  fix c c' :: "'r RuleCache" and k r
  assume w: "wf_cache c" and f: "find_rule oc k c = Val (c', r)"
  then obtain x where x: "lookup oc (fst k) (snd k) c = Val (c', x)" "r = (case x of Hit x \<Rightarrow> Some x | Miss _ \<Rightarrow> None)"
    by (auto simp: find_rule_def)
  show "wf_cache c' \<and> r = view_cache c k \<and> view_cache c' = view_cache c"
    using lookup_effect [OF w x(1)] x(2) by (auto simp: view_cache_def fun_eq_iff split: option.splits)
next
  fix c :: "'r RuleCache" and k r
  assume "wf_cache c"
  then show "\<exists>c'. store_rule k r c = Val c' \<and> wf_cache c' \<and> view_cache c' k = Some r"
    by (rule insert_effect [of c "fst k" "snd k" r]) (auto simp: store_rule_def view_cache_def)
next
  fix c c' :: "'r RuleCache" and k k' r r'
  assume w: "wf_cache c" and s: "store_rule k r c = Val c'" "k' \<noteq> k" "view_cache c' k' = Some r'"
  then show "view_cache c k' = Some r'"
    by (cases k; cases k')
       (rule insert_effect [OF w, of "fst k" "snd k" r], auto simp: store_rule_def view_cache_def split: if_splits)
qed

section \<open>Histories of a cache\<close>

text \<open>What a client does with a cache: look a key up, and insert with the handle of a miss.\<close>

datatype 'r cache_op = DoLookup u64 u16 | DoInsert u64 u16 'r

fun cache_step :: "bool \<Rightarrow> 'r cache_op \<Rightarrow> 'r RuleCache \<Rightarrow> ('r RuleCache \<times> 'r option) outcome" where
  "cache_step oc (DoLookup addr g) c = find_rule oc (addr, g) c"
| "cache_step oc (DoInsert addr g r) c = obind (store_rule (addr, g) r c) (\<lambda>c'. Val (c', None))"

fun run_cache :: "bool \<Rightarrow> 'r cache_op list \<Rightarrow> 'r RuleCache \<Rightarrow> ('r RuleCache \<times> 'r option list) outcome" where
  "run_cache oc [] c = Val (c, [])"
| "run_cache oc (x # xs) c =
     obind (cache_step oc x c) (\<lambda>(c', r). obind (run_cache oc xs c') (\<lambda>(c'', rs). Val (c'', r # rs)))"

text \<open>The abstract history: the rule inserted last for a key.\<close>

fun last_inserted :: "'r cache_op list \<Rightarrow> (u64 \<times> u16 \<Rightarrow> 'r option) \<Rightarrow> u64 \<times> u16 \<Rightarrow> 'r option" where
  "last_inserted [] m = m"
| "last_inserted (DoLookup a g # xs) m = last_inserted xs m"
| "last_inserted (DoInsert a g r # xs) m = last_inserted xs (\<lambda>k. if k = (a, g) then Some r else m k)"

definition is_lookup :: "'r cache_op \<Rightarrow> bool" where
  "is_lookup x = (case x of DoLookup _ _ \<Rightarrow> True | DoInsert _ _ _ \<Rightarrow> False)"

definition in_history :: "'r RuleCache \<Rightarrow> (u64 \<times> u16 \<Rightarrow> 'r option) \<Rightarrow> bool" where
  "in_history c m \<longleftrightarrow> (\<forall>k r. view_cache c k = Some r \<longrightarrow> m k = Some r)"

lemma in_history_step:
  assumes w: "wf_cache c" and m: "in_history c m" and s: "cache_step oc x c = Val (c', r)"
  shows "wf_cache c' \<and> in_history c' (last_inserted [x] m) \<and>
    (\<forall>v. r = Some v \<longrightarrow> (\<exists>a g. x = DoLookup a g \<and> m (a, g) = Some v))"
proof (cases x)
  case (DoLookup a g)
  with s have f: "find_rule oc (a, g) c = Val (c', r)" by simp
  show ?thesis
    using rule_cache.find_Val [OF w f] rule_cache.find_all [OF w f, of "\<lambda>k v. m k = Some v"] m DoLookup
    by (auto simp: in_history_def)
next
  case (DoInsert a g v)
  with s have f: "store_rule (a, g) v c = Val c'" "r = None" by auto
  have "\<forall>k x. view_cache c' k = Some x \<longrightarrow> (if k = (a, g) then Some v else m k) = Some x"
    by (rule rule_cache.store_all [OF w f(1)]) (use m in \<open>auto simp: in_history_def\<close>)
  moreover have "wf_cache c'" using rule_cache.store_Val [OF w, of "(a, g)" v] f(1) by auto
  ultimately show ?thesis using DoInsert f(2) by (simp add: in_history_def)
qed

lemma last_inserted_append: "last_inserted (xs @ ys) m = last_inserted ys (last_inserted xs m)"
proof (induction xs arbitrary: m)
  case (Cons x xs)
  then show ?case by (cases x) simp_all
qed simp

lemma in_history_run:
  assumes "wf_cache c" "in_history c m" "run_cache oc xs c = Val (c', rs)"
  shows "length rs = length xs \<and> wf_cache c' \<and> in_history c' (last_inserted xs m) \<and>
    (\<forall>i < length xs. \<forall>v. rs ! i = Some v \<longrightarrow>
       (\<exists>a g. xs ! i = DoLookup a g \<and> last_inserted (take i xs) m (a, g) = Some v))"
  using assms
proof (induction xs arbitrary: c m rs)
  case (Cons x xs)
  then obtain c1 r rs1 where s: "cache_step oc x c = Val (c1, r)" and run: "run_cache oc xs c1 = Val (c', rs1)"
    and rs: "rs = r # rs1" by auto
  note st = in_history_step [OF Cons.prems(1,2) s]
  have ih: "length rs1 = length xs \<and> wf_cache c' \<and> in_history c' (last_inserted xs (last_inserted [x] m)) \<and>
    (\<forall>i < length xs. \<forall>v. rs1 ! i = Some v \<longrightarrow>
       (\<exists>a g. xs ! i = DoLookup a g \<and> last_inserted (take i xs) (last_inserted [x] m) (a, g) = Some v))"
    using Cons.IH [OF _ _ run, of "last_inserted [x] m"] st by blast
  have app: "last_inserted (x # ys) m = last_inserted ys (last_inserted [x] m)" for ys
    using last_inserted_append [of "[x]" ys m] by simp
  have "\<exists>a g. (x # xs) ! i = DoLookup a g \<and> last_inserted (take i (x # xs)) m (a, g) = Some v"
    if "i < length (x # xs)" "rs ! i = Some v" for i v
  proof (cases i)
    case (Suc j)
    with that rs have "j < length xs" "rs1 ! j = Some v" by simp_all
    with ih have "\<exists>a g. xs ! j = DoLookup a g \<and> last_inserted (take j xs) (last_inserted [x] m) (a, g) = Some v"
      by blast
    with Suc app [of "take j xs"] show ?thesis by (metis nth_Cons_Suc take_Suc_Cons)
  next
    case 0
    with that st rs show ?thesis by auto
  qed
  note hits = this
  show ?case
  proof (intro conjI)
    show "length rs = length (x # xs)" "wf_cache c'" "in_history c' (last_inserted (x # xs) m)"
      using ih rs app [of xs] by simp_all
  qed (use hits in blast)
qed simp

text \<open>
  C24: No stale and no invented rule.  For every sequence of lookups and insertions on a new cache, each hit returns
  exactly the rule inserted last for the same address and the same module generation.
\<close>

theorem cache_hits_come_from_history:
  assumes "run_cache oc ops new_rule_cache = Val (c, rs)" and "i < length ops" and "rs ! i = Some r"
  shows "\<exists>addr g. ops ! i = DoLookup addr g \<and> last_inserted (take i ops) (\<lambda>_. None) (addr, g) = Some r"
proof -
  have "in_history new_rule_cache (\<lambda>_. None)" by (simp add: in_history_def view_cache_def)
  from in_history_run [OF wf_new_rule_cache this assms(1)] assms(2,3) show ?thesis by blast
qed

theorem cache_hits_come_from_history_witness:
  "\<exists>addr g. [DoInsert 1018 3 True, DoLookup 1018 3] ! 1 = DoLookup addr g \<and>
     last_inserted (take 1 [DoInsert 1018 3 True, DoLookup 1018 3]) (\<lambda>_. None) (addr, g) = Some True"
proof -
  let ?ops = "[DoInsert 1018 3 True, DoLookup 1018 3]"
  have "(case run_cache True ?ops new_rule_cache of Val (c, rs) \<Rightarrow> rs = [None, Some True] | Panic _ \<Rightarrow> False)"
    by code_simp
  then obtain c rs where "run_cache True ?ops new_rule_cache = Val (c, rs)" "rs = [None, Some True]"
    by (auto split: outcome.splits)
  with cache_hits_come_from_history [of True ?ops c rs 1 True] show ?thesis by simp
qed

lemma run_cache_counts:
  assumes "wf_cache c" "counted c + int (length (filter is_lookup ops)) < 2 ^ 64"
  shows "\<exists>c' rs. run_cache oc ops c = Val (c', rs) \<and> wf_cache c' \<and>
    counted c' = counted c + int (length (filter is_lookup ops)) \<and>
    uint (hit_count (stats c')) = uint (hit_count (stats c)) + int (length (filter (\<lambda>r. r \<noteq> None) rs))"
  using assms
proof (induction ops arbitrary: c)
  case (Cons x xs)
  have "\<exists>c1 r. cache_step oc x c = Val (c1, r) \<and> wf_cache c1 \<and>
      counted c1 = counted c + (if is_lookup x then 1 else 0) \<and>
      uint (hit_count (stats c1)) = uint (hit_count (stats c)) + (if r = None then 0 else 1)"
  proof (cases x)
    case (DoLookup a g)
    with Cons.prems obtain c1 r where c1: "lookup oc a g c = Val (c1, r)" "counted c1 = counted c + 1"
      "uint (hit_count (stats c1)) = uint (hit_count (stats c)) + (if cached c a g = None then 0 else 1)"
      using lookup_counts [of c oc a g] by (auto simp: is_lookup_def)
    with lookup_effect [OF Cons.prems(1) c1(1)] DoLookup show ?thesis
      by (auto simp: find_rule_def is_lookup_def split: option.splits)
  next
    case (DoInsert a g v)
    then show ?thesis
      by (auto intro: insert_effect [OF Cons.prems(1), of a g v] simp: store_rule_def is_lookup_def counted_def)
  qed
  then obtain c1 r where c1: "cache_step oc x c = Val (c1, r)" "wf_cache c1"
      "counted c1 = counted c + (if is_lookup x then 1 else 0)"
      "uint (hit_count (stats c1)) = uint (hit_count (stats c)) + (if r = None then 0 else 1)" by blast
  from Cons.prems(2) c1(3) have "counted c1 + int (length (filter is_lookup xs)) < 2 ^ 64"
    by (auto split: if_splits)
  from Cons.IH [OF c1(2) this] c1 show ?case by fastforce
qed simp

lemma total_counted:
  assumes "counted c < 2 ^ 64"
  shows "\<exists>t. total oc (stats c) = Val t \<and> uint t = counted c"
proof -
  let ?s = "stats c"
  have add: "add_oc oc a b = Val (a + b) \<and> uint (a + b) = uint a + uint b" if "uint a + uint b < 2 ^ 64" for a b :: u64
    using that checked_add_Some_iff [of a b "a + b"] by (simp add: checked_add_def add_oc_def)
  have 1: "uint (miss_empty_slot_count ?s) + uint (miss_wrong_modules_count ?s) < 2 ^ 64"
    using assms uint_ge_0 [of "hit_count ?s"] uint_ge_0 [of "miss_wrong_address_count ?s"]
    unfolding counted_def by linarith
  let ?m = "miss_empty_slot_count ?s + miss_wrong_modules_count ?s"
  have 2: "uint ?m + uint (miss_wrong_address_count ?s) < 2 ^ 64"
    using assms uint_ge_0 [of "hit_count ?s"] add [OF 1] unfolding counted_def by linarith
  have 3: "uint (hit_count ?s) + uint (?m + miss_wrong_address_count ?s) < 2 ^ 64"
    using assms add [OF 1] add [OF 2] unfolding counted_def by linarith
  have "uint (hit_count ?s + (?m + miss_wrong_address_count ?s)) = counted c"
    using add [OF 1] add [OF 2] add [OF 3] unfolding counted_def by linarith
  then show ?thesis using add [OF 1] add [OF 2] add [OF 3]
    by (intro exI [of _ "hit_count ?s + (?m + miss_wrong_address_count ?s)"])
       (simp add: total_def misses_def hits_def)
qed

text \<open>
  The statistics are exact.  Every sequence of operations with fewer than \<open>2 ^ 64\<close> lookups on a new cache runs
  without a panic (neither a slot index is out of bounds nor does a counter overflow), \<open>total\<close> is then the number of
  lookups made, and \<open>hits\<close> the number of lookups that returned a rule.
\<close>

lemma cache_stats_exact:
  assumes "int (length (filter is_lookup ops)) < 2 ^ 64"
  shows "\<exists>c rs t. run_cache oc ops new_rule_cache = Val (c, rs) \<and> total oc (stats c) = Val t \<and>
    uint t = int (length (filter is_lookup ops)) \<and>
    uint (hits (stats c)) = int (length (filter (\<lambda>r. r \<noteq> None) rs))"
proof -
  obtain c rs where c: "run_cache oc ops new_rule_cache = Val (c, rs)"
    "counted c = int (length (filter is_lookup ops))"
    "uint (hit_count (stats c)) = int (length (filter (\<lambda>r. r \<noteq> None) rs))"
    using run_cache_counts [of new_rule_cache ops oc] assms by auto
  with total_counted [of c oc] assms show ?thesis by (auto simp: hits_def)
qed

text \<open>
  An insertion never panics and is found: after inserting with the handle of a miss, a lookup of the same key hits
  with that rule; every other key whose address lies in another slot keeps its answer, and every other key of the same
  slot is forgotten.
\<close>

lemma insert_then_lookup:
  assumes "wf_cache c"
  shows "\<exists>c'. insert_rule (miss_handle addr g) r c = Val c' \<and> wf_cache c' \<and> stats c' = stats c \<and>
    (\<forall>a' g' c'' res. lookup oc a' g' c' = Val (c'', res) \<longrightarrow>
      res = (if a' = addr \<and> g' = g then Hit r
             else if unat a' mod 509 = unat addr mod 509 then Miss (miss_handle a' g')
             else case cached c a' g' of None \<Rightarrow> Miss (miss_handle a' g') | Some x \<Rightarrow> Hit x))"
proof -
  obtain c' where c': "insert_rule (miss_handle addr g) r c = Val c'" "wf_cache c'" "stats c' = stats c"
    "\<And>a' g'. cached c' a' g' =
       (if slot_of a' = slot_of addr then if a' = addr \<and> g' = g then Some r else None else cached c a' g')"
    using insert_effect [OF assms] by blast
  have s: "slot_of a' = slot_of addr \<longleftrightarrow> unat a' mod 509 = unat addr mod 509" for a'
    by (simp add: word_unat_eq_iff slot_of_unat)
  show ?thesis
  proof (intro exI [of _ c'] conjI c'(1-3) allI impI)
    fix a' g' c'' res
    assume "lookup oc a' g' c' = Val (c'', res)"
    from lookup_effect(4) [OF c'(2) this] show "res = (if a' = addr \<and> g' = g then Hit r
             else if unat a' mod 509 = unat addr mod 509 then Miss (miss_handle a' g')
             else case cached c a' g' of None \<Rightarrow> Miss (miss_handle a' g') | Some x \<Rightarrow> Hit x)"
      by (auto simp: c'(4) s)
  qed
qed

end
