(* ===== verification/Modules.thy ===== *)
theory Modules
  imports Search "HOL-Library.Multiset"
begin

text \<open>
  The module list of \<^verbatim>\<open>src/unwinder.rs\<close>: \<open>Module\<close>, \<open>UnwinderInternal\<close> with its \<open>new\<close>, \<open>add_module\<close>, \<open>remove_module\<close>,
  \<open>max_known_code_address\<close> and \<open>find_module_for_address\<close>, and the global generation counter.  The unwind data a module
  carries is a type parameter here.  The static atomic counter is a \<open>u16\<close> threaded through the operations that draw a
  generation; \<open>fetch_add\<close> wraps around and never panics.
\<close>

section \<open>State and operations\<close>

record 'u Module =
  mod_name :: string
  avma_range :: "u64 \<times> u64"
  base_avma :: u64
  base_svma :: u64
  unwind_data :: 'u

abbreviation avma_start :: "'u Module \<Rightarrow> u64" where
  "avma_start m \<equiv> fst (avma_range m)"

abbreviation avma_end :: "'u Module \<Rightarrow> u64" where
  "avma_end m \<equiv> snd (avma_range m)"

record 'u UnwinderInternal =
  modules :: "'u Module list"
  modules_generation :: u16

definition next_global_modules_generation :: "u16 \<Rightarrow> u16 \<times> u16" where
  "next_global_modules_generation global = (global + 1, global)"

definition new_unwinder :: "u16 \<Rightarrow> u16 \<times> 'u UnwinderInternal" where
  "new_unwinder global =
     (case next_global_modules_generation global of
        (global', g) \<Rightarrow> (global', \<lparr>modules = [], modules_generation = g\<rparr>))"

definition add_module ::
  "'u Module \<Rightarrow> u16 \<Rightarrow> 'u UnwinderInternal \<Rightarrow> (u16 \<times> 'u UnwinderInternal) outcome" where
  "add_module m global u =
     (let insertion_index = (case binary_search (map avma_start (modules u)) (avma_start m) of
                               Ok i \<Rightarrow> i | Err i \<Rightarrow> i) in
      obind (vec_insert insertion_index m (modules u)) (\<lambda>ms.
        case next_global_modules_generation global of
          (global', g) \<Rightarrow> Val (global', \<lparr>modules = ms, modules_generation = g\<rparr>)))"

definition remove_module ::
  "u64 \<Rightarrow> u16 \<Rightarrow> 'u UnwinderInternal \<Rightarrow> (u16 \<times> 'u UnwinderInternal) outcome" where
  "remove_module start global u =
     (case binary_search (map avma_start (modules u)) start of
        Ok i \<Rightarrow>
          obind (vec_remove i (modules u)) (\<lambda>ms.
            case next_global_modules_generation global of
              (global', g) \<Rightarrow> Val (global', \<lparr>modules = ms, modules_generation = g\<rparr>))
      | Err _ \<Rightarrow> Val (global, u))"

definition max_known_code_address :: "'u UnwinderInternal \<Rightarrow> u64" where
  "max_known_code_address u = (if modules u = [] then 0 else avma_end (last (modules u)))"

text \<open>The end of \<open>find_module_for_address\<close>: the address relative to the base of the module found.\<close>

definition relative_to_base :: "nat \<Rightarrow> 'u Module \<Rightarrow> u64 \<Rightarrow> (nat \<times> u32) option" where
  "relative_to_base i m addr =
     (if addr < base_avma m then None
      else case u64_to_u32 (addr - base_avma m) of
             None \<Rightarrow> None
           | Some relative_address \<Rightarrow> Some (i, relative_address))"

definition find_module_for_address :: "u64 \<Rightarrow> 'u UnwinderInternal \<Rightarrow> (nat \<times> u32) option outcome" where
  "find_module_for_address addr u =
     (case binary_search (map avma_start (modules u)) addr of
        Ok i \<Rightarrow> obind (vec_index i (modules u)) (\<lambda>m. Val (relative_to_base i m addr))
      | Err insertion_index \<Rightarrow>
          if insertion_index = 0 then Val None
          else let i = insertion_index - 1 in
            obind (vec_index i (modules u)) (\<lambda>m.
              if avma_end m \<le> addr then Val None else Val (relative_to_base i m addr)))"

section \<open>Invariants\<close>

text \<open>The field comment \<open>sorted by avma_range.start\<close>.\<close>

definition modules_sorted :: "'u UnwinderInternal \<Rightarrow> bool" where
  "modules_sorted u \<longleftrightarrow> sorted (map avma_start (modules u))"

text \<open>The address ranges of the modules of a process: proper and pairwise disjoint.\<close>

definition disjoint_ranges :: "'u Module list \<Rightarrow> bool" where
  "disjoint_ranges ms \<longleftrightarrow> (\<forall>m \<in> set ms. avma_start m < avma_end m) \<and>
     (\<forall>i < length ms. \<forall>j < length ms. i \<noteq> j \<longrightarrow>
        avma_end (ms ! i) \<le> avma_start (ms ! j) \<or> avma_end (ms ! j) \<le> avma_start (ms ! i))"

definition contains_address :: "'u Module \<Rightarrow> u64 \<Rightarrow> bool" where
  "contains_address m addr \<longleftrightarrow> avma_start m \<le> addr \<and> addr < avma_end m"

section \<open>Adding and removing\<close>

lemma map_insert_at: "map f (take i xs @ x # drop i xs) = take i (map f xs) @ f x # drop i (map f xs)"
  by (simp add: take_map drop_map)

lemma map_remove_at: "map f (take i xs @ drop (Suc i) xs) = take i (map f xs) @ drop (Suc i) (map f xs)"
  by (simp add: take_map drop_map)

lemma sorted_remove_at: "sorted xs \<Longrightarrow> sorted (take i xs @ drop (Suc i) xs)" for xs :: "'a::linorder list"
  by (auto simp: sorted_append sorted_wrt_take sorted_wrt_drop in_set_conv_nth) (simp add: sorted_nth_mono)

lemma mset_remove_at: "i < length xs \<Longrightarrow> mset xs = add_mset (xs ! i) (mset (take i xs @ drop (Suc i) xs))"
  by (metis id_take_nth_drop mset_append mset.simps(2) union_mset_add_mset_right)

lemma mset_insert_at: "mset (take i xs @ x # drop i xs) = add_mset x (mset xs)"
  by (metis append_take_drop_id mset.simps(2) mset_append union_mset_add_mset_right)

lemma add_module_cases:
  assumes "modules_sorted u"
  obtains i where "i \<le> length (modules u)"
    "binary_search (map avma_start (modules u)) (avma_start m) \<in> {Ok i, Err i}"
    "add_module m global u = Val (global + 1,
       \<lparr>modules = take i (modules u) @ m # drop i (modules u), modules_generation = global\<rparr>)"
proof -
  let ?xs = "map avma_start (modules u)"
  define i where "i = (case binary_search ?xs (avma_start m) of Ok i \<Rightarrow> i | Err i \<Rightarrow> i)"
  have r: "binary_search ?xs (avma_start m) \<in> {Ok i, Err i}" by (simp add: i_def split: result.splits)
  moreover have "i \<le> length (modules u)"
    using std.search_pos [of ?xs "avma_start m" i] assms r by (auto simp: modules_sorted_def)
  ultimately show thesis
    by (intro that [of i]) (simp_all add: add_module_def vec_insert_def next_global_modules_generation_def flip: i_def)
qed

lemma add_module_sorted:
  assumes "modules_sorted u"
  shows "\<exists>u'. add_module m global u = Val (global + 1, u') \<and> modules_sorted u' \<and>
    mset (modules u') = add_mset m (mset (modules u)) \<and> modules_generation u' = global"
proof -
  obtain i where i: "binary_search (map avma_start (modules u)) (avma_start m) \<in> {Ok i, Err i}"
    "add_module m global u = Val (global + 1,
       \<lparr>modules = take i (modules u) @ m # drop i (modules u), modules_generation = global\<rparr>)"
    using add_module_cases [OF assms] by metis
  with std.sorted_insert_at [of "map avma_start (modules u)" "avma_start m" i] assms
  have "sorted (map avma_start (take i (modules u) @ m # drop i (modules u)))"
    unfolding map_insert_at modules_sorted_def by blast
  with i show ?thesis by (simp add: modules_sorted_def mset_insert_at del: map_append mset_append)
qed

text \<open>
  C30: Adding a module to a sorted list never panics, keeps the list sorted by start address, adds exactly that module,
  and gives the unwinder the next generation of the global counter.
\<close>

theorem add_module_correct:
  assumes "modules_sorted u"
  shows "\<exists>u'. add_module m global u = Val (global + 1, u') \<and> modules_sorted u' \<and>
    mset (modules u') = add_mset m (mset (modules u)) \<and> modules_generation u' = global"
  using assms by (rule add_module_sorted)

theorem add_module_correct_witness:
  "\<exists>u'. add_module \<lparr>mod_name = ''a'', avma_range = (0x1000, 0x2000), base_avma = 0x1000, base_svma = 0, unwind_data = ()\<rparr>
          7 (snd (new_unwinder 6)) = Val (8, u') \<and> modules_sorted u'"
proof -
  have "modules_sorted (snd (new_unwinder 6) :: unit UnwinderInternal)"
    by (simp add: modules_sorted_def new_unwinder_def next_global_modules_generation_def)
  from add_module_correct [OF this, of "\<lparr>mod_name = ''a'', avma_range = (0x1000, 0x2000), base_avma = 0x1000,
      base_svma = 0, unwind_data = ()\<rparr>" 7] show ?thesis by auto
qed

lemma remove_module_sorted:
  assumes "modules_sorted u"
  shows "if \<exists>m \<in> set (modules u). avma_start m = start
    then \<exists>m u'. remove_module start global u = Val (global + 1, u') \<and> avma_start m = start \<and>
           mset (modules u) = add_mset m (mset (modules u')) \<and> modules_sorted u' \<and> modules_generation u' = global
    else remove_module start global u = Val (global, u)"
proof (cases "binary_search (map avma_start (modules u)) start")
  case (Ok i)
  have i: "i < length (modules u)" "avma_start (modules u ! i) = start"
    using std.search_Ok [OF assms [unfolded modules_sorted_def] Ok] by auto
  let ?u = "\<lparr>modules = take i (modules u) @ drop (Suc i) (modules u), modules_generation = global\<rparr>"
  have "remove_module start global u = Val (global + 1, ?u)"
    using Ok i by (simp add: remove_module_def vec_remove_def next_global_modules_generation_def)
  moreover have "modules_sorted ?u"
    using sorted_remove_at [of "map avma_start (modules u)" i] assms
    unfolding modules_sorted_def by (simp add: map_remove_at take_map drop_map)
  moreover have "\<exists>m \<in> set (modules u). avma_start m = start" using i nth_mem by blast
  ultimately show ?thesis using mset_remove_at [OF i(1)] i(2) by auto
next
  case (Err i)
  then have "start \<notin> set (map avma_start (modules u))"
    using std.search_finds [OF assms [unfolded modules_sorted_def], of start] by auto
  with Err show ?thesis by (auto simp: remove_module_def)
qed

text \<open>
  C31: Removing by start address never panics.  If some module starts there, exactly one module with that start is
  removed, the list stays sorted and the unwinder gets a new generation; otherwise the call is ignored: neither the
  list, nor the generation, nor the global counter changes.
\<close>

theorem remove_module_correct:
  assumes "modules_sorted u"
  shows "if \<exists>m \<in> set (modules u). avma_start m = start
    then \<exists>m u'. remove_module start global u = Val (global + 1, u') \<and> avma_start m = start \<and>
           mset (modules u) = add_mset m (mset (modules u')) \<and> modules_sorted u' \<and> modules_generation u' = global
    else remove_module start global u = Val (global, u)"
  using assms by (rule remove_module_sorted)

theorem remove_module_correct_witness:
  "remove_module 5 7 (snd (new_unwinder 6) :: unit UnwinderInternal) = Val (7, snd (new_unwinder 6))"
proof -
  have "modules_sorted (snd (new_unwinder 6) :: unit UnwinderInternal)"
    by (simp add: modules_sorted_def new_unwinder_def next_global_modules_generation_def)
  from remove_module_correct [OF this, of 5 7] show ?thesis
    by (simp add: new_unwinder_def next_global_modules_generation_def)
qed

section \<open>Finding the module of an address\<close>

lemma relative_to_base_Some_iff:
  "relative_to_base i m addr = Some (j, rel) \<longleftrightarrow>
     j = i \<and> base_avma m \<le> addr \<and> uint addr - uint (base_avma m) = uint rel"
proof (cases "base_avma m \<le> addr")
  case True
  then have d: "uint (addr - base_avma m) = uint addr - uint (base_avma m)"
    by (simp add: uint_minus_simple_alt)
  have u: "u64_to_u32 (addr - base_avma m) = Some rel \<longleftrightarrow> uint (addr - base_avma m) = uint rel"
    by (rule u64_to_u32_Some_iff)
  from True d u show ?thesis
    by (auto simp: relative_to_base_def split: option.splits)
next
  case False
  then show ?thesis by (simp add: relative_to_base_def not_le)
qed

lemma find_module_cases:
  assumes "modules_sorted u"
  obtains (before) "find_module_for_address addr u = Val None" "\<forall>m \<in> set (modules u). addr < avma_start m"
  | (found) i where "i < length (modules u)"
      "predecessor_of (binary_search (map avma_start (modules u)) addr) = Some i"
      "avma_start (modules u ! i) \<le> addr"
      "find_module_for_address addr u =
         Val (if avma_end (modules u ! i) \<le> addr \<and> avma_start (modules u ! i) \<noteq> addr then None
              else relative_to_base i (modules u ! i) addr)"
proof -
  let ?xs = "map avma_start (modules u)"
  have s: "sorted ?xs" using assms by (simp add: modules_sorted_def)
  show thesis
  proof (cases "binary_search ?xs addr")
    case (Ok i)
    with std.search_Ok [OF s Ok] show thesis
      by (intro found [of i]) (auto simp: find_module_for_address_def predecessor_of_def)
  next
    case (Err j)
    show thesis
    proof (cases "j = 0")
      case True
      with std.search_Err [OF s Err] Err show thesis
        by (intro before) (auto simp: find_module_for_address_def in_set_conv_nth)
    next
      case False
      then have "j - 1 < length (modules u)" "avma_start (modules u ! (j - 1)) < addr"
        using std.search_Err [OF s Err] by auto
      with False Err show thesis
        by (intro found [of "j - 1"]) (auto simp: find_module_for_address_def predecessor_of_def Let_def)
    qed
  qed
qed

text \<open>
  The module search is sound and never panics: on a sorted list it returns only a module whose start is not beyond
  the address and whose range contains it (or starts exactly there), and the exact distance to that module's base.
\<close>

lemma find_module_for_address_sound:
  assumes "modules_sorted u"
  shows "\<exists>r. find_module_for_address addr u = Val r \<and>
    (\<forall>i rel. r = Some (i, rel) \<longrightarrow> i < length (modules u) \<and>
       (contains_address (modules u ! i) addr \<or> avma_start (modules u ! i) = addr) \<and>
       uint (base_avma (modules u ! i)) + uint rel = uint addr)"
  using assms
proof (cases rule: find_module_cases [where addr = addr])
  case (found i)
  then show ?thesis
    by (auto simp: contains_address_def relative_to_base_Some_iff split: if_splits)
qed auto

lemma disjoint_predecessor:
  assumes s: "modules_sorted u" and d: "disjoint_ranges (modules u)"
    and i: "i < length (modules u)" "contains_address (modules u ! i) addr"
  shows "predecessor_of (binary_search (map avma_start (modules u)) addr) = Some i"
proof (rule std.predecessor_unique)
  let ?ms = "modules u"
  have p: "avma_start (?ms ! j) < avma_end (?ms ! j)" if "j < length ?ms" for j
    using d that by (simp add: disjoint_ranges_def)
  have apart: "avma_end (?ms ! j) \<le> avma_start (?ms ! k) \<or> avma_end (?ms ! k) \<le> avma_start (?ms ! j)"
    if "j < length ?ms" "k < length ?ms" "j \<noteq> k" for j k using d that by (auto simp: disjoint_ranges_def)
  show "sorted (map avma_start ?ms)" using s by (simp add: modules_sorted_def)
  show "distinct (map avma_start ?ms)"
    unfolding distinct_conv_nth using p apart by (auto simp: not_less [symmetric]) (metis leD)
  show "i < length (map avma_start ?ms)" "map avma_start ?ms ! i \<le> addr"
    using i by (simp_all add: contains_address_def)
  have "avma_start (?ms ! j) \<le> avma_start (?ms ! i)" if "j < length ?ms" "avma_start (?ms ! j) \<le> addr" for j
  proof (cases "j = i")
    case False
    have a: "avma_start (?ms ! i) \<le> addr" "addr < avma_end (?ms ! i)" using i(2) by (simp_all add: contains_address_def)
    then have "\<not> avma_end (?ms ! i) \<le> avma_start (?ms ! j)" using that(2) by order
    with apart [OF that(1) i(1) False] have "avma_end (?ms ! j) \<le> avma_start (?ms ! i)" by blast
    with p [OF that(1)] show ?thesis by order
  qed simp
  then show "\<forall>x \<in> set (map avma_start ?ms). x \<le> addr \<longrightarrow> x \<le> map avma_start ?ms ! i"
    using i(1) by (auto simp: in_set_conv_nth)
qed

text \<open>
  C29: The module search is complete: when the module ranges are proper and disjoint, every address inside a module that
  is at most \<open>2 ^ 32 - 1\<close> beyond the module's base is found in that module, and no address outside all modules is found.
\<close>

theorem find_module_for_address_complete:
  assumes "modules_sorted u" and "disjoint_ranges (modules u)"
  shows "find_module_for_address addr u = Val (Some (i, rel)) \<longleftrightarrow>
    i < length (modules u) \<and> contains_address (modules u ! i) addr \<and>
    uint (base_avma (modules u ! i)) + uint rel = uint addr"
proof
  assume f: "find_module_for_address addr u = Val (Some (i, rel))"
  from assms(1) show "i < length (modules u) \<and> contains_address (modules u ! i) addr \<and>
    uint (base_avma (modules u ! i)) + uint rel = uint addr"
  proof (cases rule: find_module_cases [where addr = addr])
    case before
    with f show ?thesis by simp
  next
    case (found j)
    with f have r: "relative_to_base j (modules u ! j) addr = Some (i, rel)"
      "\<not> (avma_end (modules u ! j) \<le> addr \<and> avma_start (modules u ! j) \<noteq> addr)"
      by (simp_all split: if_splits)
    moreover have "avma_start (modules u ! j) < avma_end (modules u ! j)"
      using assms(2) found(1) by (simp add: disjoint_ranges_def)
    ultimately show ?thesis using found(1,3) by (auto simp: relative_to_base_Some_iff contains_address_def)
  qed
next
  assume i: "i < length (modules u) \<and> contains_address (modules u ! i) addr \<and>
    uint (base_avma (modules u ! i)) + uint rel = uint addr"
  then have p: "predecessor_of (binary_search (map avma_start (modules u)) addr) = Some i"
    using disjoint_predecessor [OF assms] by simp
  have "uint (base_avma (modules u ! i)) \<le> uint addr" using i uint_ge_0 [of rel] by linarith
  then have b: "base_avma (modules u ! i) \<le> addr" by (simp add: word_le_def)
  from assms(1) show "find_module_for_address addr u = Val (Some (i, rel))"
  proof (cases rule: find_module_cases [where addr = addr])
    case before
    with i nth_mem [of i "modules u"] show ?thesis unfolding contains_address_def by (meson leD)
  next
    case (found j)
    with p i b show ?thesis by (auto simp: relative_to_base_Some_iff contains_address_def)
  qed
qed

theorem find_module_for_address_complete_witness:
  "find_module_for_address 0x1234 \<lparr>modules = [\<lparr>mod_name = ''a'', avma_range = (0x1000, 0x2000), base_avma = 0x800,
      base_svma = 0, unwind_data = ()\<rparr>], modules_generation = 0\<rparr> = Val (Some (0, 0xA34))"
proof -
  let ?u = "\<lparr>modules = [\<lparr>mod_name = ''a'', avma_range = (0x1000, 0x2000), base_avma = 0x800,
      base_svma = 0, unwind_data = ()\<rparr>], modules_generation = 0\<rparr>"
  have "modules_sorted ?u" "disjoint_ranges (modules ?u)" by (simp_all add: modules_sorted_def disjoint_ranges_def)
  from find_module_for_address_complete [OF this, of "0x1234" 0 "0xA34"] show ?thesis
    by (simp add: contains_address_def)
qed

text \<open>
  \<open>max_known_code_address\<close> is 0 without modules; with disjoint ranges it bounds every module's range, so every code
  address of every module lies below it.
\<close>

lemma max_known_code_address_bounds:
  assumes "modules_sorted u" and "disjoint_ranges (modules u)" and "m \<in> set (modules u)"
  shows "avma_end m \<le> max_known_code_address u"
proof -
  let ?ms = "modules u"
  obtain i where i: "i < length ?ms" "m = ?ms ! i" using assms(3) by (auto simp: in_set_conv_nth)
  let ?l = "length ?ms - 1"
  have l: "?l < length ?ms" using i by simp
  have le: "avma_start (?ms ! i) \<le> avma_start (?ms ! ?l)"
    using assms(1) i l sorted_nth_mono [of "map avma_start ?ms" i ?l] by (simp add: modules_sorted_def)
  have p: "avma_start (?ms ! ?l) < avma_end (?ms ! ?l)" "avma_start (?ms ! i) < avma_end (?ms ! i)"
    using assms(2) l i by (simp_all add: disjoint_ranges_def)
  have "avma_end (?ms ! i) \<le> avma_end (?ms ! ?l)"
  proof (cases "i = ?l")
    case False
    with assms(2) i(1) l have "avma_end (?ms ! i) \<le> avma_start (?ms ! ?l) \<or> avma_end (?ms ! ?l) \<le> avma_start (?ms ! i)"
      unfolding disjoint_ranges_def by blast
    moreover have "\<not> avma_end (?ms ! ?l) \<le> avma_start (?ms ! i)" using le p by order
    ultimately have "avma_end (?ms ! i) \<le> avma_start (?ms ! ?l)" by blast
    with p show ?thesis by order
  qed simp
  with i show ?thesis by (auto simp: max_known_code_address_def last_conv_nth)
qed

end
