(* ===== verification/UnwinderCore.thy ===== *)
theory UnwinderCore
  imports UnwindRule CodeAddress RuleCache Modules
begin

text \<open>
  The generic part of \<^verbatim>\<open>src/unwinder.rs\<close>: \<open>with_cache\<close> (unwinding one frame through the rule cache) and the iterator
  \<open>UnwindIterator\<close>.  Both are parameterised by the operations of an \<open>UnwindRule\<close> implementation and by the callback
  that consults the module's unwind data (\<open>unwind_frame_impl\<close>, modelled in the theory \<open>FrameImpl\<close>).

  Of \<open>Cache\<close> only the rule cache is kept: the other field is gimli's unwind context, scratch memory which gimli
  resets for every evaluation.
\<close>

section \<open>Unwinding one frame\<close>

type_synonym ('u, 'regs, 'r, 'e) frame_callback =
  "'u Module \<Rightarrow> FrameAddress \<Rightarrow> u32 \<Rightarrow> 'regs \<Rightarrow> stack_reader \<Rightarrow> ('regs \<times> ('r UnwindResult, 'e) result) outcome"

text \<open>The rule to execute after a cache miss, or the final result when the unwind data gave a return address directly.\<close>

definition rule_on_miss ::
  "('r, 'regs) UnwindRuleOps \<Rightarrow> ('u, 'regs, 'r, 'e) frame_callback \<Rightarrow> 'u UnwinderInternal \<Rightarrow> FrameAddress \<Rightarrow> u64 \<Rightarrow>
   'regs \<Rightarrow> stack_reader \<Rightarrow> ('regs \<times> ('r, (u64 option, Error) result) flow) outcome" where
  "rule_on_miss ops callback u fa lookup_addr regs rd =
     obind (find_module_for_address lookup_addr u) (\<lambda>found.
       case found of
         None \<Rightarrow> Val (regs, Continue (op_fallback_rule ops))
       | Some (module_index, relative_lookup_address) \<Rightarrow>
           obind (vec_index module_index (modules u)) (\<lambda>m.
             obind (callback m fa relative_lookup_address regs rd) (\<lambda>(regs', res).
               Val (regs', case res of
                             Ok (ExecRule rule) \<Rightarrow> Continue rule
                           | Ok (Uncacheable return_address) \<Rightarrow> Return (Ok (Some return_address))
                           | Err _ \<Rightarrow> Continue (op_fallback_rule ops)))))"

definition with_cache ::
  "bool \<Rightarrow> ('r, 'regs) UnwindRuleOps \<Rightarrow> ('u, 'regs, 'r, 'e) frame_callback \<Rightarrow> 'u UnwinderInternal \<Rightarrow> FrameAddress \<Rightarrow>
   'regs \<Rightarrow> 'r RuleCache \<Rightarrow> stack_reader \<Rightarrow> ('regs \<times> 'r RuleCache \<times> (u64 option, Error) result) outcome" where
  "with_cache oc ops callback u fa regs c rd =
     obind (address_for_lookup oc fa) (\<lambda>lookup_addr.
       obind (lookup oc lookup_addr (modules_generation u) c) (\<lambda>(c1, cache_result).
         case cache_result of
           Hit rule \<Rightarrow>
             obind (op_exec ops rule (\<not> is_return_address fa) regs rd) (\<lambda>(regs', res). Val (regs', c1, res))
         | Miss handle \<Rightarrow>
             obind (rule_on_miss ops callback u fa lookup_addr regs rd) (\<lambda>(regs1, fl).
               case fl of
                 Return res \<Rightarrow> Val (regs1, c1, res)
               | Continue rule \<Rightarrow>
                   obind (insert_rule handle rule c1) (\<lambda>c2.
                     obind (op_exec ops rule (\<not> is_return_address fa) regs1 rd) (\<lambda>(regs2, res).
                       Val (regs2, c2, res))))))"

section \<open>The iterator\<close>

datatype UnwindIteratorState = Initial u64 | Unwinding FrameAddress | Done

text \<open>The mutable fields of the iterator; the unwinder and the stack are fixed during an iteration.\<close>

record ('regs, 'r) UnwindIterator =
  it_state :: UnwindIteratorState
  it_regs :: 'regs
  it_cache :: "'r RuleCache"

definition new_iterator :: "u64 \<Rightarrow> 'regs \<Rightarrow> 'r RuleCache \<Rightarrow> ('regs, 'r) UnwindIterator" where
  "new_iterator pc regs c = \<lparr>it_state = Initial pc, it_regs = regs, it_cache = c\<rparr>"

definition next_frame ::
  "bool \<Rightarrow> ('r, 'regs) UnwindRuleOps \<Rightarrow> ('u, 'regs, 'r, 'e) frame_callback \<Rightarrow> 'u UnwinderInternal \<Rightarrow> stack_reader \<Rightarrow>
   ('regs, 'r) UnwindIterator \<Rightarrow> (('regs, 'r) UnwindIterator \<times> (FrameAddress option, Error) result) outcome" where
  "next_frame oc ops callback u rd it =
     (case it_state it of
        Initial pc \<Rightarrow>
          Val (it\<lparr>it_state := Unwinding (InstructionPointer pc)\<rparr>, Ok (Some (InstructionPointer pc)))
      | Unwinding fa \<Rightarrow>
          obind (with_cache oc ops callback u fa (it_regs it) (it_cache it) rd) (\<lambda>(regs', c', res).
            let it' = it\<lparr>it_regs := regs', it_cache := c'\<rparr> in
            Val (case res of
                   Err e \<Rightarrow> (it', Err e)
                 | Ok None \<Rightarrow> (it'\<lparr>it_state := Done\<rparr>, Ok None)
                 | Ok (Some return_address) \<Rightarrow>
                     (case from_return_address return_address of
                        None \<Rightarrow> (it', Err ReturnAddressIsNull)
                      | Some fa' \<Rightarrow> (it'\<lparr>it_state := Unwinding fa'\<rparr>, Ok (Some fa')))))
      | Done \<Rightarrow> Val (it, Ok None))"

text \<open>A consumer that asks for at most \<open>n\<close> frames and stops at the first \<open>Ok(None)\<close> or error.\<close>

fun take_frames ::
  "bool \<Rightarrow> ('r, 'regs) UnwindRuleOps \<Rightarrow> ('u, 'regs, 'r, 'e) frame_callback \<Rightarrow> 'u UnwinderInternal \<Rightarrow> stack_reader \<Rightarrow>
   nat \<Rightarrow> ('regs, 'r) UnwindIterator \<Rightarrow> (FrameAddress list \<times> (unit, Error) result option) outcome" where
  "take_frames oc ops callback u rd 0 it = Val ([], None)"
| "take_frames oc ops callback u rd (Suc n) it =
     obind (next_frame oc ops callback u rd it) (\<lambda>(it', res).
       case res of
         Err e \<Rightarrow> Val ([], Some (Err e))
       | Ok None \<Rightarrow> Val ([], Some (Ok ()))
       | Ok (Some fa) \<Rightarrow>
           obind (take_frames oc ops callback u rd n it') (\<lambda>(fas, fin). Val (fa # fas, fin)))"

section \<open>One frame, case by case\<close>

lemma with_cache_Val:
  assumes w: "wf_cache c" and wf: "wf_frame_address fa" and r: "with_cache oc ops callback u fa regs c rd = Val (regs', c', res)"
  obtains (hit) rule where "cached c (lookup_address fa) (modules_generation u) = Some rule"
      "op_exec ops rule (\<not> is_return_address fa) regs rd = Val (regs', res)"
      "wf_cache c'" "cached c' = cached c"
  | (uncacheable) "cached c (lookup_address fa) (modules_generation u) = None"
      "rule_on_miss ops callback u fa (lookup_address fa) regs rd = Val (regs', Return res)"
      "wf_cache c'" "cached c' = cached c"
  | (miss) rule regs1 where "cached c (lookup_address fa) (modules_generation u) = None"
      "rule_on_miss ops callback u fa (lookup_address fa) regs rd = Val (regs1, Continue rule)"
      "op_exec ops rule (\<not> is_return_address fa) regs1 rd = Val (regs', res)"
      "wf_cache c'" "cached c' (lookup_address fa) (modules_generation u) = Some rule"
      "\<forall>a g r. cached c' a g = Some r \<longrightarrow> (a, g) \<noteq> (lookup_address fa, modules_generation u) \<longrightarrow> cached c a g = Some r"
proof -
  let ?a = "lookup_address fa" and ?g = "modules_generation u"
  from r obtain c1 cr where l: "lookup oc ?a ?g c = Val (c1, cr)"
    using address_for_lookup_wf [OF wf, of oc] by (auto simp: with_cache_def)
  note e = lookup_effect [OF w l]
  show thesis
  proof (cases "cached c ?a ?g")
    case (Some rule)
    with e r l show thesis
      by (intro hit [of rule]) (auto simp: with_cache_def address_for_lookup_wf [OF wf])
  next
    case None
    with e have cr: "cr = Miss (miss_handle ?a ?g)" by simp
    with r l obtain regs1 fl where m: "rule_on_miss ops callback u fa ?a regs rd = Val (regs1, fl)"
      by (auto simp: with_cache_def address_for_lookup_wf [OF wf])
    show thesis
    proof (cases fl)
      case (Return x)
      with None e r l cr m show thesis
        by (intro uncacheable) (auto simp: with_cache_def address_for_lookup_wf [OF wf])
    next
      case (Continue rule)
      obtain c2 where c2: "insert_rule (miss_handle ?a ?g) rule c1 = Val c2" "wf_cache c2"
        "\<And>a' g'. cached c2 a' g' =
          (if slot_of a' = slot_of ?a then if a' = ?a \<and> g' = ?g then Some rule else None else cached c1 a' g')"
        using insert_effect [OF e(1)] by blast
      have x: "op_exec ops rule (\<not> is_return_address fa) regs1 rd = Val (regs', res)" "c' = c2"
        using Continue r l cr m c2(1) by (auto simp: with_cache_def address_for_lookup_wf [OF wf])
      show thesis
        by (rule miss [OF None m [unfolded Continue] x(1)]) (use c2 x(2) e(2) in \<open>auto split: if_splits\<close>)
    qed
  qed
qed

text \<open>Nothing in the generic part of a frame can panic by itself.\<close>

lemma rule_on_miss_no_panic:
  assumes "modules_sorted u" "\<And>m rel. m \<in> set (modules u) \<Longrightarrow> no_panic (callback m fa rel regs rd)"
  shows "no_panic (rule_on_miss ops callback u fa addr regs rd)"
  using assms(1)
proof (cases rule: find_module_cases [where addr = addr])
  case before
  then show ?thesis by (simp add: rule_on_miss_def)
next
  case (found i)
  obtain fm where fm: "find_module_for_address addr u = Val fm" using found(4) by simp
  show ?thesis
  proof (cases fm)
    case None
    with fm show ?thesis by (simp add: rule_on_miss_def)
  next
    case (Some p)
    with fm found have p: "fst p = i" by (cases p) (auto simp: relative_to_base_Some_iff split: if_splits)
    obtain regs' res where "callback (modules u ! i) fa (snd p) regs rd = Val (regs', res)"
      using assms(2) [of "modules u ! i" "snd p"] found(1) by auto
    with fm Some p found(1) show ?thesis by (cases p) (simp add: rule_on_miss_def)
  qed
qed

lemma with_cache_no_panic:
  assumes w: "wf_cache c" "counted c + 1 < 2 ^ 64" and wf: "wf_frame_address fa" and s: "modules_sorted u"
    and cb: "\<And>m rel. m \<in> set (modules u) \<Longrightarrow> no_panic (callback m fa rel regs rd)"
    and ex: "\<And>rule regs. no_panic (op_exec ops rule (\<not> is_return_address fa) regs rd)"
  shows "no_panic (with_cache oc ops callback u fa regs c rd)"
proof -
  let ?a = "lookup_address fa" and ?g = "modules_generation u" and ?f = "\<not> is_return_address fa"
  obtain c1 cr where l: "lookup oc ?a ?g c = Val (c1, cr)" using lookup_counts [OF w] by blast
  note e = lookup_effect [OF w(1) l]
  have v: "\<exists>regs' res. op_exec ops rule ?f regs rd = Val (regs', res)" for rule regs
    using ex [of rule regs] by auto
  show ?thesis
  proof (cases "cached c ?a ?g")
    case (Some rule)
    with e(4) l v [of rule regs] show ?thesis by (auto simp: with_cache_def address_for_lookup_wf [OF wf])
  next
    case None
    with e have cr: "cr = Miss (miss_handle ?a ?g)" by simp
    obtain regs1 fl where m: "rule_on_miss ops callback u fa ?a regs rd = Val (regs1, fl)"
      using rule_on_miss_no_panic [of u callback fa regs rd ops ?a] s cb by force
    show ?thesis
    proof (cases fl)
      case (Return x)
      with l cr m show ?thesis by (simp add: with_cache_def address_for_lookup_wf [OF wf])
    next
      case (Continue rule)
      obtain c2 where "insert_rule (miss_handle ?a ?g) rule c1 = Val c2" using insert_effect [OF e(1)] by blast
      with Continue l cr m v [of rule regs1] show ?thesis
        by (auto simp: with_cache_def address_for_lookup_wf [OF wf])
    qed
  qed
qed

section \<open>Transparency of the cache\<close>

text \<open>The same frame without a cache.\<close>

definition without_cache ::
  "('r, 'regs) UnwindRuleOps \<Rightarrow> ('u, 'regs, 'r, 'e) frame_callback \<Rightarrow> 'u UnwinderInternal \<Rightarrow> FrameAddress \<Rightarrow>
   'regs \<Rightarrow> stack_reader \<Rightarrow> ('regs \<times> (u64 option, Error) result) outcome" where
  "without_cache ops callback u fa regs rd =
     obind (rule_on_miss ops callback u fa (lookup_address fa) regs rd) (\<lambda>(regs1, fl).
       case fl of
         Return res \<Rightarrow> Val (regs1, res)
       | Continue rule \<Rightarrow> op_exec ops rule (\<not> is_return_address fa) regs1 rd)"

text \<open>A rule some frame at this lookup address gets on a miss, with these modules.  The predicate \<open>legal\<close> says which frames
  are unwound at all.\<close>

definition rule_of_modules ::
  "(FrameAddress \<Rightarrow> bool) \<Rightarrow> ('r, 'regs) UnwindRuleOps \<Rightarrow> ('u, 'regs, 'r, 'e) frame_callback \<Rightarrow> 'u Module list \<Rightarrow> u64 \<Rightarrow> 'r \<Rightarrow> bool" where
  "rule_of_modules legal ops callback ms addr rule \<longleftrightarrow>
     (\<exists>g fa regs rd regs'. legal fa \<and> wf_frame_address fa \<and> lookup_address fa = addr \<and>
        rule_on_miss ops callback \<lparr>modules = ms, modules_generation = g\<rparr> fa addr regs rd = Val (regs', Continue rule))"

text \<open>The rule for an address is a function of the modules: once some frame got a rule there, every frame gets it.\<close>

definition stable_at ::
  "(FrameAddress \<Rightarrow> bool) \<Rightarrow> ('r, 'regs) UnwindRuleOps \<Rightarrow> ('u, 'regs, 'r, 'e) frame_callback \<Rightarrow> 'u Module list \<Rightarrow> u64 \<Rightarrow> bool" where
  "stable_at legal ops callback ms addr \<longleftrightarrow>
     (\<forall>rule g fa regs rd. rule_of_modules legal ops callback ms addr rule \<longrightarrow> legal fa \<longrightarrow> wf_frame_address fa \<longrightarrow> lookup_address fa = addr \<longrightarrow>
        rule_on_miss ops callback \<lparr>modules = ms, modules_generation = g\<rparr> fa addr regs rd = Val (regs, Continue rule))"

definition cache_agrees ::
  "(FrameAddress \<Rightarrow> bool) \<Rightarrow> ('r, 'regs) UnwindRuleOps \<Rightarrow> ('u, 'regs, 'r, 'e) frame_callback \<Rightarrow> 'u UnwinderInternal \<Rightarrow> 'r RuleCache \<Rightarrow> bool" where
  "cache_agrees legal ops callback u c \<longleftrightarrow> wf_cache c \<and>
     (\<forall>addr rule. cached c addr (modules_generation u) = Some rule \<longrightarrow>
        rule_of_modules legal ops callback (modules u) addr rule)"

lemma rule_on_miss_cong:
  assumes "modules v = modules u"
  shows "rule_on_miss ops callback v fa addr regs rd = rule_on_miss ops callback u fa addr regs rd"
  unfolding rule_on_miss_def find_module_for_address_def assms ..

lemma rule_on_miss_modules:
  "rule_on_miss ops callback \<lparr>modules = modules u, modules_generation = g\<rparr> fa addr regs rd =
     rule_on_miss ops callback u fa addr regs rd"
  by (rule rule_on_miss_cong) simp

lemma rule_of_modulesI:
  "legal fa \<Longrightarrow> wf_frame_address fa \<Longrightarrow> rule_on_miss ops callback u fa (lookup_address fa) regs rd = Val (regs', Continue rule) \<Longrightarrow>
   rule_of_modules legal ops callback (modules u) (lookup_address fa) rule"
  unfolding rule_of_modules_def using rule_on_miss_modules by metis

lemma cache_agrees_with_cache:
  assumes a: "cache_agrees legal ops callback u c" and l: "legal fa" and wf: "wf_frame_address fa"
    and r: "with_cache oc ops callback u fa regs c rd = Val (regs', c', res)"
  shows "cache_agrees legal ops callback u c'"
proof -
  have w: "wf_cache c" using a by (simp add: cache_agrees_def)
  from w wf r show ?thesis
  proof (cases rule: with_cache_Val)
    case (miss rule regs1)
    then show ?thesis
      using a rule_of_modulesI [of legal, OF l wf miss(2)] unfolding cache_agrees_def by (metis option.inject prod.inject)
  qed (use a in \<open>simp_all add: cache_agrees_def\<close>)
qed

lemma with_cache_transparent:
  assumes a: "cache_agrees legal ops callback u c" and l: "legal fa" and wf: "wf_frame_address fa"
    and st: "stable_at legal ops callback (modules u) (lookup_address fa)"
    and r: "with_cache oc ops callback u fa regs c rd = Val (regs', c', res)"
  shows "without_cache ops callback u fa regs rd = Val (regs', res)"
proof -
  have w: "wf_cache c" using a by (simp add: cache_agrees_def)
  from w wf r show ?thesis
  proof (cases rule: with_cache_Val)
    case (hit rule)
    with a have "rule_of_modules legal ops callback (modules u) (lookup_address fa) rule" by (simp add: cache_agrees_def)
    with st l wf have "rule_on_miss ops callback u fa (lookup_address fa) regs rd = Val (regs, Continue rule)"
      unfolding stable_at_def using rule_on_miss_modules by metis
    with hit(2) show ?thesis by (simp add: without_cache_def)
  qed (simp_all add: without_cache_def)
qed

section \<open>The iterator\<close>

lemma next_frame_Initial [simp]:
  "it_state it = Initial pc \<Longrightarrow> next_frame oc ops callback u rd it =
     Val (it\<lparr>it_state := Unwinding (InstructionPointer pc)\<rparr>, Ok (Some (InstructionPointer pc)))"
  by (simp add: next_frame_def)

lemma next_frame_Unwinding:
  assumes s: "it_state it = Unwinding fa" and n: "next_frame oc ops callback u rd it = Val (it', res)"
  obtains regs' c' r where "with_cache oc ops callback u fa (it_regs it) (it_cache it) rd = Val (regs', c', r)"
    "it_regs it' = regs'" "it_cache it' = c'"
    "(\<exists>e. r = Err e \<and> res = Err e \<and> it_state it' = it_state it) \<or>
     (r = Ok None \<and> res = Ok None \<and> it_state it' = Done) \<or>
     (r = Ok (Some 0) \<and> res = Err ReturnAddressIsNull \<and> it_state it' = it_state it) \<or>
     (\<exists>ra. ra \<noteq> 0 \<and> r = Ok (Some ra) \<and> res = Ok (Some (ReturnAddress ra)) \<and> it_state it' = Unwinding (ReturnAddress ra))"
proof -
  from n s obtain regs' c' r where w: "with_cache oc ops callback u fa (it_regs it) (it_cache it) rd = Val (regs', c', r)"
    by (auto simp: next_frame_def)
  show thesis
    by (rule that [OF w]) (use n s w in \<open>auto simp: next_frame_def Let_def from_return_address_def
        split: result.splits option.splits if_splits\<close>)
qed

lemma next_frame_cases:
  assumes n: "next_frame oc ops callback u rd it = Val (it', res)"
  shows "case it_state it of
     Initial pc \<Rightarrow> res = Ok (Some (InstructionPointer pc)) \<and> it' = it\<lparr>it_state := Unwinding (InstructionPointer pc)\<rparr>
   | Unwinding fa \<Rightarrow>
       (\<exists>ra. ra \<noteq> 0 \<and> res = Ok (Some (ReturnAddress ra)) \<and> it_state it' = Unwinding (ReturnAddress ra)) \<or>
       (res = Ok None \<and> it_state it' = Done) \<or> (\<exists>e. res = Err e \<and> it_state it' = it_state it)
   | Done \<Rightarrow> res = Ok None \<and> it' = it"
proof (cases "it_state it")
  case (Unwinding fa)
  then show ?thesis using n by (rule next_frame_Unwinding) (auto simp: Unwinding)
qed (use n in \<open>auto simp: next_frame_def\<close>)

lemma take_frames_unwinding:
  assumes "it_state it = Unwinding fa" "take_frames oc ops callback u rd n it = Val (fas, fin)"
  shows "\<exists>ras. fas = map ReturnAddress ras \<and> 0 \<notin> set ras"
  using assms
proof (induction n arbitrary: it fa fas fin)
  case (Suc n)
  from Suc.prems obtain it' res where nx: "next_frame oc ops callback u rd it = Val (it', res)" by auto
  from next_frame_cases [OF nx] Suc.prems(1)
  consider ra where "ra \<noteq> 0" "res = Ok (Some (ReturnAddress ra))" "it_state it' = Unwinding (ReturnAddress ra)"
    | "res = Ok None" | e where "res = Err e" by auto
  then show ?case
  proof cases
    case 1
    with Suc.prems(2) nx obtain fas' fin' where t: "take_frames oc ops callback u rd n it' = Val (fas', fin')"
      "fas = ReturnAddress ra # fas'" by auto
    from Suc.IH [OF 1(3) t(1)] t(2) 1(1) show ?thesis by (metis list.simps(9) set_ConsD)
  qed (use Suc.prems nx in auto)
qed simp

lemma take_frames_shape:
  assumes "take_frames oc ops callback u rd (Suc n) (new_iterator pc regs c) = Val (fas, fin)"
  shows "\<exists>ras. fas = InstructionPointer pc # map ReturnAddress ras \<and> 0 \<notin> set ras"
proof -
  let ?it = "(new_iterator pc regs c)\<lparr>it_state := Unwinding (InstructionPointer pc)\<rparr>"
  from assms obtain fas' fin' where t: "take_frames oc ops callback u rd n ?it = Val (fas', fin')"
    "fas = InstructionPointer pc # fas'" by (auto simp: new_iterator_def)
  from take_frames_unwinding [OF _ t(1)] t(2) show ?thesis by simp
qed

section \<open>Termination of an iteration\<close>

text \<open>What is asked of the callback: a return address that it computes itself, past the first frame, also decreases
  the rank, and it does not increase the rank when it fails or gives a rule.\<close>

definition callback_ranked ::
  "(stack_reader \<Rightarrow> 'regs \<Rightarrow> nat) \<Rightarrow> ('u, 'regs, 'r, 'e) frame_callback \<Rightarrow> 'u Module list \<Rightarrow> bool" where
  "callback_ranked rank callback ms \<longleftrightarrow>
     (\<forall>m \<in> set ms. \<forall>a rel regs rd regs' res. callback m (ReturnAddress a) rel regs rd = Val (regs', res) \<longrightarrow>
        (case res of Ok (Uncacheable ra) \<Rightarrow> ra \<noteq> 0 \<longrightarrow> rank rd regs' < rank rd regs | _ \<Rightarrow> rank rd regs' \<le> rank rd regs))"

lemma callback_rankedD:
  assumes "callback_ranked rank callback ms" "m \<in> set ms" "callback m (ReturnAddress a) rel regs rd = Val (regs', res)"
  shows "case res of Ok (Uncacheable ra) \<Rightarrow> ra \<noteq> 0 \<longrightarrow> rank rd regs' < rank rd regs | _ \<Rightarrow> rank rd regs' \<le> rank rd regs"
  using assms unfolding callback_ranked_def by blast

lemma rule_on_miss_cases:
  assumes "modules_sorted u" "rule_on_miss ops callback u fa addr regs rd = Val (regs', fl)"
  obtains (fallback) "regs' = regs" "fl = Continue (op_fallback_rule ops)"
  | (callback) m rel res where "m \<in> set (modules u)" "callback m fa rel regs rd = Val (regs', res)"
      "fl = (case res of Ok (ExecRule rule) \<Rightarrow> Continue rule | Ok (Uncacheable ra) \<Rightarrow> Return (Ok (Some ra))
                       | Err _ \<Rightarrow> Continue (op_fallback_rule ops))"
proof -
  obtain fm where fm: "find_module_for_address addr u = Val fm" using assms(2) by (auto simp: rule_on_miss_def)
  show thesis
  proof (cases fm)
    case None
    with fm assms(2) fallback show thesis by (simp add: rule_on_miss_def)
  next
    case (Some p)
    obtain i rel where p: "p = (i, rel)" by (cases p)
    with fm Some assms(2) obtain m res where m: "vec_index i (modules u) = Val m" "callback m fa rel regs rd = Val (regs', res)"
      "fl = (case res of Ok (ExecRule rule) \<Rightarrow> Continue rule | Ok (Uncacheable ra) \<Rightarrow> Return (Ok (Some ra))
                       | Err _ \<Rightarrow> Continue (op_fallback_rule ops))"
      by (auto simp: rule_on_miss_def)
    moreover have "m \<in> set (modules u)" using m(1) by (auto simp: vec_index_def split: if_splits)
    ultimately show thesis using callback by blast
  qed
qed

context advancing_rule
begin

lemma with_cache_rank:
  assumes s: "modules_sorted u" and cb: "callback_ranked rank callback (modules u)" and w: "wf_cache c" and a: "a \<noteq> 0"
    and r: "with_cache oc ops callback u (ReturnAddress a) regs c rd = Val (regs', c', Ok (Some ra))" and ra: "ra \<noteq> 0"
  shows "rank rd regs' < rank rd regs"
proof -
  have wf: "wf_frame_address (ReturnAddress a)" using a by simp
  from w wf r show ?thesis
  proof (cases rule: with_cache_Val)
    case (hit rule)
    then show ?thesis using exec_rank by simp
  next
    case uncacheable
    from s uncacheable(2) show ?thesis
    proof (cases rule: rule_on_miss_cases)
      case (callback m rel res)
      with callback_rankedD [OF cb callback(1,2)] ra show ?thesis
        by (auto split: result.splits UnwindResult.splits)
    qed simp
  next
    case (miss rule regs1)
    have "rank rd regs1 \<le> rank rd regs"
      using s miss(2)
    proof (cases rule: rule_on_miss_cases)
      case (callback m rel res)
      with callback_rankedD [OF cb callback(1,2)] show ?thesis
        by (auto split: result.splits UnwindResult.splits)
    qed simp
    moreover have "rank rd regs' < rank rd regs1" using miss(3) exec_rank by simp
    ultimately show ?thesis by simp
  qed
qed

lemma take_frames_bounded:
  assumes s: "modules_sorted u" and cb: "callback_ranked rank callback (modules u)" and w: "wf_cache (it_cache it)"
    and it: "it_state it = Unwinding (ReturnAddress a)" "a \<noteq> 0"
    and r: "take_frames oc ops callback u rd n it = Val (fas, fin)"
  shows "length fas \<le> rank rd (it_regs it) \<and> (rank rd (it_regs it) < n \<longrightarrow> fin \<noteq> None)"
  using w it r
proof (induction n arbitrary: it a fas fin)
  case (Suc n)
  from Suc.prems obtain it' res where nx: "next_frame oc ops callback u rd it = Val (it', res)" by auto
  from Suc.prems(2) nx obtain regs' c' r where st:
    "with_cache oc ops callback u (ReturnAddress a) (it_regs it) (it_cache it) rd = Val (regs', c', r)"
    "it_regs it' = regs'" "it_cache it' = c'"
    "(\<exists>e. r = Err e \<and> res = Err e \<and> it_state it' = it_state it) \<or>
     (r = Ok None \<and> res = Ok None \<and> it_state it' = Done) \<or>
     (r = Ok (Some 0) \<and> res = Err ReturnAddressIsNull \<and> it_state it' = it_state it) \<or>
     (\<exists>ra. ra \<noteq> 0 \<and> r = Ok (Some ra) \<and> res = Ok (Some (ReturnAddress ra)) \<and> it_state it' = Unwinding (ReturnAddress ra))"
    by (rule next_frame_Unwinding)
  show ?case
  proof (cases "\<exists>ra. ra \<noteq> 0 \<and> r = Ok (Some ra)")
    case True
    then obtain ra where ra: "ra \<noteq> 0" "r = Ok (Some ra)" "res = Ok (Some (ReturnAddress ra))"
      "it_state it' = Unwinding (ReturnAddress ra)" using st(4) by auto
    have wf: "wf_frame_address (ReturnAddress a)" using Suc.prems(3) by simp
    have w': "wf_cache (it_cache it')"
      using Suc.prems(1) wf st(1) by (cases rule: with_cache_Val) (simp_all add: st(3))
    have rk: "rank rd regs' < rank rd (it_regs it)"
      using with_cache_rank [OF s cb Suc.prems(1,3) st(1) [unfolded ra(2)] ra(1)] .
    from Suc.prems(4) nx ra(3) obtain fas' where t: "take_frames oc ops callback u rd n it' = Val (fas', fin)"
      "fas = ReturnAddress ra # fas'" by auto
    from Suc.IH [OF w' ra(4,1) t(1)] rk t(2) st(2) show ?thesis by auto
  qed (use st(4) Suc.prems(4) nx in auto)
qed simp

end

end
