(* ===== verification/Dwarf.thy ===== *)
theory Dwarf
  imports Errors Search UnwindRule
begin

text \<open>
  \<^verbatim>\<open>src/dwarf.rs\<close>: the index of frame description entries, the evaluation of CFA and register rules, and
  \<open>DwarfUnwinder\<close>.

  What gimli provides is a parameter: the records \<open>GimliEval\<close>, \<open>GimliSection\<close>, \<open>GimliTable\<close> and \<open>GimliHdr\<close> have the functions
  of gimli the source calls for expressions, for the entries of a section, for unwinding with one entry and for the search
  table of a header, over abstract types of registers, expressions, evaluations, CIEs and FDEs.  \<open>CfaRule\<close>, \<open>RegisterRule\<close>, \<open>EvaluationResult\<close> and
  \<open>CieOrFde\<close> have the constructors of gimli's enumerations that the source matches on, and one for \<open>_\<close>.
\<close>

section \<open>The interface of gimli\<close>

datatype ('reg, 'expr) CfaRule = RegisterAndOffset 'reg i64 | CfaExpression 'expr

datatype ('reg, 'expr) RegisterRule =
    Undefined | SameValue | Offset i64 | ValOffset i64 | Register 'reg
  | Expression 'expr | ValExpression 'expr | Architectural | OtherRegisterRule

datatype 'reg EvaluationResult = Complete | RequiresRegister 'reg | OtherEvaluationResult

datatype ('cie, 'pfde) CieOrFde = Cie 'cie | PartialFde 'pfde

text \<open>One row of an unwind table: the CFA rule and the rule of each register.\<close>

record ('reg, 'expr) UnwindTableRow =
  row_cfa :: "('reg, 'expr) CfaRule"
  row_register :: "'reg \<Rightarrow> ('reg, 'expr) RegisterRule"

text \<open>\<open>expr.get(section)\<close> together with \<open>Evaluation::new_in\<close>; \<open>evaluate\<close> and \<open>resume_with_register\<close> with the
  evaluation after the call; the address of the last location of the result, if it is an address.\<close>

record ('reg, 'expr, 'ev) GimliEval =
  g_new_evaluation :: "'expr \<Rightarrow> 'ev option"
  g_evaluate :: "'ev \<Rightarrow> ('ev \<times> 'reg EvaluationResult) option"
  g_resume_with_register :: "u64 \<Rightarrow> 'ev \<Rightarrow> ('ev \<times> 'reg EvaluationResult) option"
  g_last_address :: "'ev \<Rightarrow> u64 option"

section \<open>Evaluation of rules\<close>

partial_function (option) eval_loop ::
  "('reg, 'expr, 'ev) GimliEval \<Rightarrow> ('reg \<Rightarrow> u64 option) \<Rightarrow> 'ev \<Rightarrow> 'reg EvaluationResult \<Rightarrow> 'ev option option" where
  "eval_loop G get_reg ev r =
     (case r of
        Complete \<Rightarrow> Some (Some ev)
      | RequiresRegister reg \<Rightarrow>
          (case get_reg reg of
             None \<Rightarrow> Some None
           | Some v \<Rightarrow>
               (case g_resume_with_register G v ev of
                  None \<Rightarrow> Some None
                | Some p \<Rightarrow> eval_loop G get_reg (fst p) (snd p)))
      | OtherEvaluationResult \<Rightarrow> Some None)"

definition eval_expr ::
  "('reg, 'expr, 'ev) GimliEval \<Rightarrow> ('reg \<Rightarrow> u64 option) \<Rightarrow> 'expr \<Rightarrow> u64 option outcome" where
  "eval_expr G get_reg e =
     (case g_new_evaluation G e of
        None \<Rightarrow> Val None
      | Some ev \<Rightarrow>
          (case g_evaluate G ev of
             None \<Rightarrow> Val None
           | Some (ev', r) \<Rightarrow>
               (case eval_loop G get_reg ev' r of
                  None \<Rightarrow> Panic Diverges
                | Some None \<Rightarrow> Val None
                | Some (Some ev'') \<Rightarrow> Val (g_last_address G ev''))))"

text \<open>A gimli that refuses every expression.\<close>

definition no_expressions :: "('reg, unit, unit) GimliEval" where
  "no_expressions = \<lparr>g_new_evaluation = (\<lambda>_. None), g_evaluate = (\<lambda>_. None),
     g_resume_with_register = (\<lambda>_ _. None), g_last_address = (\<lambda>_. None)\<rparr>"

text \<open>\<open>u64::try_from(i64::try_from(base).ok()?.checked_add(offset)?).ok()\<close>.\<close>

definition add_offset :: "u64 \<Rightarrow> i64 \<Rightarrow> u64 option" where
  "add_offset base off =
     (case u64_to_i64 base of
        None \<Rightarrow> None
      | Some b \<Rightarrow> (case checked_iadd b off of None \<Rightarrow> None | Some s \<Rightarrow> i64_to_u64 s))"

definition eval_cfa_rule ::
  "('reg, 'expr, 'ev) GimliEval \<Rightarrow> ('reg, 'expr) CfaRule \<Rightarrow> ('reg \<Rightarrow> u64 option) \<Rightarrow> u64 option outcome" where
  "eval_cfa_rule G rule get_reg =
     (case rule of
        RegisterAndOffset reg off \<Rightarrow>
          Val (case get_reg reg of None \<Rightarrow> None | Some v \<Rightarrow> add_offset v off)
      | CfaExpression e \<Rightarrow> eval_expr G get_reg e)"

definition eval_register_rule ::
  "('reg, 'expr, 'ev) GimliEval \<Rightarrow> ('reg, 'expr) RegisterRule \<Rightarrow> u64 \<Rightarrow> u64 \<Rightarrow> ('reg \<Rightarrow> u64 option) \<Rightarrow> stack_reader \<Rightarrow>
   u64 option outcome" where
  "eval_register_rule G rule cfa v get_reg rd =
     (case rule of
        Undefined \<Rightarrow> Val None
      | SameValue \<Rightarrow> Val (Some v)
      | Offset off \<Rightarrow> Val (case add_offset cfa off of None \<Rightarrow> None | Some a \<Rightarrow> rd a)
      | ValOffset off \<Rightarrow> Val (add_offset cfa off)
      | Register reg \<Rightarrow> Val (get_reg reg)
      | Expression e \<Rightarrow>
          obind (eval_expr G get_reg e) (\<lambda>x. Val (case x of None \<Rightarrow> None | Some a \<Rightarrow> rd a))
      | ValExpression e \<Rightarrow> eval_expr G get_reg e
      | Architectural \<Rightarrow> Val None
      | OtherRegisterRule \<Rightarrow> Val None)"

section \<open>Conversion to cacheable rules\<close>

datatype ConversionError =
    CfaIsExpression
  | CfaIsOffsetFromUnknownRegister
  | ReturnAddressRuleWithUnexpectedOffset
  | ReturnAddressRuleWasWeird
  | SpOffsetDoesNotFit
  | RegisterNotStoredRelativeToCfa
  | RestoringFpButNotLr
  | LrStorageOffsetDoesNotFit
  | FpStorageOffsetDoesNotFit
  | SpOffsetFromFpDoesNotFit
  | FramePointerRuleDoesNotRestoreLr
  | FramePointerRuleDoesNotRestoreFp
  | FramePointerRuleDoesNotRestoreBp
  | FramePointerRuleHasStrangeBpOffset

text \<open>Both architectures have this function.\<close>

definition register_rule_to_cfa_offset ::
  "('reg, 'expr) RegisterRule \<Rightarrow> (i64 option, ConversionError) result" where
  "register_rule_to_cfa_offset rule =
     (case rule of
        Undefined \<Rightarrow> Ok None
      | SameValue \<Rightarrow> Ok None
      | Offset off \<Rightarrow> Ok (Some off)
      | _ \<Rightarrow> Err RegisterNotStoredRelativeToCfa)"

lemma register_rule_to_cfa_offset_Ok:
  "register_rule_to_cfa_offset rule = Ok r \<longleftrightarrow>
     (case r of None \<Rightarrow> rule = Undefined \<or> rule = SameValue | Some off \<Rightarrow> rule = Offset off)"
  by (cases rule; cases r) (auto simp: register_rule_to_cfa_offset_def)

section \<open>The index of frame description entries\<close>

datatype 'g DwarfCfiIndexError =
    GimliError 'g | CouldNotSubtractBaseAddress | RelativeAddressTooBig | FdeOffsetTooBig

record DwarfCfiIndex =
  sorted_fde_pc_starts :: "u32 list"
  fde_offsets :: "u32 list"

text \<open>The parts of gimli used to enumerate a section: the offset a partial FDE names its CIE by, parsing it with
  that CIE, parsing the CIE at an offset, and the fields read from the results.\<close>

record ('cie, 'pfde, 'fde, 'off, 'g) GimliSection =
  g_cie_offset :: "'cie \<Rightarrow> 'off"
  g_pfde_cie_offset :: "'pfde \<Rightarrow> 'off"
  g_cie_from_offset :: "'off \<Rightarrow> ('cie, 'g) result"
  g_parse_with_cie :: "'pfde \<Rightarrow> 'cie \<Rightarrow> ('fde, 'g) result"
  g_initial_address :: "'fde \<Rightarrow> u64"
  g_fde_offset :: "'fde \<Rightarrow> u64"

text \<open>The closure given to \<open>parse\<close>: the current CIE is reused when its offset matches, and remembered when parsed.\<close>

definition get_cie ::
  "('cie, 'pfde, 'fde, 'off, 'g) GimliSection \<Rightarrow> 'cie option \<Rightarrow> 'off \<Rightarrow> 'cie option \<times> ('cie, 'g) result" where
  "get_cie S cur_cie off =
     (case cur_cie of
        Some cie \<Rightarrow>
          if g_cie_offset S cie = off then (cur_cie, Ok cie)
          else (case g_cie_from_offset S off of Ok c \<Rightarrow> (Some c, Ok c) | Err e \<Rightarrow> (cur_cie, Err e))
      | None \<Rightarrow> (case g_cie_from_offset S off of Ok c \<Rightarrow> (Some c, Ok c) | Err e \<Rightarrow> (cur_cie, Err e)))"

definition parse_fde ::
  "('cie, 'pfde, 'fde, 'off, 'g) GimliSection \<Rightarrow> 'cie option \<Rightarrow> 'pfde \<Rightarrow> 'cie option \<times> ('fde, 'g) result" where
  "parse_fde S cur_cie pf =
     (case get_cie S cur_cie (g_pfde_cie_offset S pf) of
        (cur', Ok cie) \<Rightarrow> (cur', g_parse_with_cie S pf cie)
      | (cur', Err e) \<Rightarrow> (cur', Err e))"

text \<open>The entry pushed for one FDE.\<close>

definition index_entry ::
  "('cie, 'pfde, 'fde, 'off, 'g) GimliSection \<Rightarrow> u64 \<Rightarrow> 'fde \<Rightarrow> (u32 \<times> u32, 'g DwarfCfiIndexError) result" where
  "index_entry S base_svma fde =
     (case checked_sub (g_initial_address S fde) base_svma of
        None \<Rightarrow> Err CouldNotSubtractBaseAddress
      | Some relative_pc \<Rightarrow>
          (case u64_to_u32 relative_pc of
             None \<Rightarrow> Err RelativeAddressTooBig
           | Some pc \<Rightarrow>
               (case u64_to_u32 (g_fde_offset S fde) of
                  None \<Rightarrow> Err FdeOffsetTooBig
                | Some off \<Rightarrow> Ok (pc, off))))"

text \<open>The loop over \<open>entries_iter.next()?\<close>; the entries of a section are the list of what \<open>next\<close> yields.\<close>

fun collect_fdes ::
  "('cie, 'pfde, 'fde, 'off, 'g) GimliSection \<Rightarrow> u64 \<Rightarrow> 'cie option \<Rightarrow> (('cie, 'pfde) CieOrFde, 'g) result list \<Rightarrow>
   ((u32 \<times> u32) list, 'g DwarfCfiIndexError) result" where
  "collect_fdes S base_svma cur_cie [] = Ok []"
| "collect_fdes S base_svma cur_cie (Err e # es) = Err (GimliError e)"
| "collect_fdes S base_svma cur_cie (Ok (Cie cie) # es) = collect_fdes S base_svma (Some cie) es"
| "collect_fdes S base_svma cur_cie (Ok (PartialFde pf) # es) =
     (case parse_fde S cur_cie pf of
        (cur', Err e) \<Rightarrow> Err (GimliError e)
      | (cur', Ok fde) \<Rightarrow>
          (case index_entry S base_svma fde of
             Err e \<Rightarrow> Err e
           | Ok x \<Rightarrow> map_result ((#) x) (collect_fdes S base_svma cur' es)))"

definition try_new ::
  "('cie, 'pfde, 'fde, 'off, 'g) GimliSection \<Rightarrow> u64 \<Rightarrow> (('cie, 'pfde) CieOrFde, 'g) result list \<Rightarrow>
   (DwarfCfiIndex, 'g DwarfCfiIndexError) result" where
  "try_new S base_svma es =
     map_result (\<lambda>fde_pc_and_offset.
        let sorted_entries = sort_key fst fde_pc_and_offset in
        \<lparr>sorted_fde_pc_starts = map fst sorted_entries, fde_offsets = map snd sorted_entries\<rparr>)
       (collect_fdes S base_svma None es)"

definition fde_offset_for_relative_address :: "DwarfCfiIndex \<Rightarrow> u32 \<Rightarrow> u32 option outcome" where
  "fde_offset_for_relative_address ix rel_lookup_address =
     (case predecessor_of (binary_search (sorted_fde_pc_starts ix) rel_lookup_address) of
        None \<Rightarrow> Val None
      | Some i \<Rightarrow> obind (vec_index i (fde_offsets ix)) (\<lambda>off. Val (Some off)))"

section \<open>The unwinder for one section\<close>

text \<open>The type of an architecture's \<open>unwind_frame\<close> on a row, and its rule for addresses without a row.\<close>

record ('reg, 'expr, 'regs, 'r, 'g) DwarfUnwinding =
  dw_unwind_frame :: "('reg, 'expr) UnwindTableRow \<Rightarrow> 'regs \<Rightarrow> bool \<Rightarrow> stack_reader \<Rightarrow>
     ('regs \<times> ('r UnwindResult, 'g DwarfUnwinderError) result) outcome"
  dw_rule_if_uncovered_by_fde :: 'r

text \<open>\<open>unwind_info_for_fde\<close>: the FDE at an offset, then the row of its table for an address.\<close>

record ('row, 'fde, 'g) GimliTable =
  g_fde_from_offset :: "u32 \<Rightarrow> ('fde, 'g) result"
  g_unwind_info_for_address :: "'fde \<Rightarrow> u64 \<Rightarrow> ('row, 'g) result"

definition unwind_info_for_fde ::
  "('row, 'fde, 'g) GimliTable \<Rightarrow> u64 \<Rightarrow> u32 \<Rightarrow> ('row, 'g DwarfUnwinderError) result" where
  "unwind_info_for_fde T lookup_svma fde_offset =
     (case g_fde_from_offset T fde_offset of
        Err e \<Rightarrow> Err (FdeFromOffsetFailed e)
      | Ok fde \<Rightarrow> map_err UnwindInfoForAddressFailed (g_unwind_info_for_address T fde lookup_svma))"

definition unwind_frame_with_fde ::
  "bool \<Rightarrow> ('reg, 'expr, 'regs, 'r, 'g) DwarfUnwinding \<Rightarrow> (('reg, 'expr) UnwindTableRow, 'fde, 'g) GimliTable \<Rightarrow> u64 \<Rightarrow>
   'regs \<Rightarrow> bool \<Rightarrow> u32 \<Rightarrow> u32 \<Rightarrow> stack_reader \<Rightarrow> ('regs \<times> ('r UnwindResult, 'g DwarfUnwinderError) result) outcome" where
  "unwind_frame_with_fde oc A T base regs is_first_frame rel_lookup_address fde_offset rd =
     obind (add_oc oc base (ucast rel_lookup_address)) (\<lambda>lookup_svma.
       case unwind_info_for_fde T lookup_svma fde_offset of
         Err (UnwindInfoForAddressFailed _) \<Rightarrow> Val (regs, Ok (ExecRule (dw_rule_if_uncovered_by_fde A)))
       | Err e \<Rightarrow> Val (regs, Err e)
       | Ok row \<Rightarrow> dw_unwind_frame A row regs is_first_frame rd)"

text \<open>The parsed \<open>.eh_frame_hdr\<close>: its table, the pointer found for an address, and the offset of a pointer.\<close>

record ('tbl, 'ptr) GimliHdr =
  g_hdr_table :: "'tbl option"
  g_table_lookup :: "'tbl \<Rightarrow> u64 \<Rightarrow> 'ptr option"
  g_pointer_to_offset :: "'tbl \<Rightarrow> 'ptr \<Rightarrow> u64 option"

definition get_fde_offset_for_relative_address ::
  "bool \<Rightarrow> ('tbl, 'ptr) GimliHdr option \<Rightarrow> u64 \<Rightarrow> u32 \<Rightarrow> u32 option outcome" where
  "get_fde_offset_for_relative_address oc hdr base rel_lookup_address =
     obind (add_oc oc base (ucast rel_lookup_address)) (\<lambda>lookup_svma.
       Val (case hdr of
              None \<Rightarrow> None
            | Some h \<Rightarrow>
                (case g_hdr_table h of
                   None \<Rightarrow> None
                 | Some tbl \<Rightarrow>
                     (case g_table_lookup h tbl lookup_svma of
                        None \<Rightarrow> None
                      | Some ptr \<Rightarrow>
                          (case g_pointer_to_offset h tbl ptr of
                             None \<Rightarrow> None
                           | Some off \<Rightarrow> u64_to_u32 off)))))"

section \<open>Offsets\<close>

lemma checked_iadd_Some_iff:
  "checked_iadd a b = Some c \<longleftrightarrow> sint c = sint a + sint (b :: 'a::len word)"
proof
  assume "checked_iadd a b = Some c"
  then have r: "in_signed_range LENGTH('a) (sint a + sint b)" "c = a + b"
    by (auto simp: checked_iadd_def split: if_splits)
  then have "c = word_of_int (sint a + sint b)" by simp
  then show "sint c = sint a + sint b" using sint_of_range [OF r(1)] by metis
next
  assume s: "sint c = sint a + sint b"
  then have "in_signed_range LENGTH('a) (sint a + sint b)" using sint_in_signed_range [of c] by metis
  moreover have "c = a + b"
  proof -
    have "c = word_of_int (sint a + sint b)" using s [symmetric] by simp
    then show ?thesis by simp
  qed
  ultimately show "checked_iadd a b = Some c" by (simp add: checked_iadd_def)
qed

text \<open>Adding an offset is exact in the lower half of the address space, and refused outside of it.\<close>

lemma add_offset_Some_iff:
  "add_offset base off = Some a \<longleftrightarrow>
     uint base < 2 ^ 63 \<and> uint a < 2 ^ 63 \<and> uint a = uint base + sint off"
proof -
  have b: "u64_to_i64 x = (if uint x < 2 ^ 63 then Some x else None)" for x
    using sint_nonneg_iff [of x] by (simp add: u64_to_i64_def)
  have c: "i64_to_u64 x = (if uint x < 2 ^ 63 then Some x else None)" for x
    using sint_nonneg_iff [of x] by (simp add: i64_to_u64_def)
  have s: "sint x = uint x" if "uint x < 2 ^ 63" for x :: u64 using sint_eq_uint [of x] that by simp
  show ?thesis
  proof
    assume "add_offset base off = Some a"
    then have "uint base < 2 ^ 63" "checked_iadd base off = Some a" "uint a < 2 ^ 63"
      by (auto simp: add_offset_def b c split: if_splits option.splits)
    then show "uint base < 2 ^ 63 \<and> uint a < 2 ^ 63 \<and> uint a = uint base + sint off"
      using s [of base] s [of a] by (simp add: checked_iadd_Some_iff)
  next
    assume r: "uint base < 2 ^ 63 \<and> uint a < 2 ^ 63 \<and> uint a = uint base + sint off"
    then have "checked_iadd base off = Some a" using s [of base] s [of a] by (simp add: checked_iadd_Some_iff)
    with r show "add_offset base off = Some a" by (simp add: add_offset_def b c)
  qed
qed

lemma eval_offset:
  assumes "uint base < 2 ^ 63" "uint loc < 2 ^ 63" "uint loc = uint base + sint off"
  shows "eval_register_rule G (Offset off) base v get_reg rd = Val (rd loc)"
  using assms add_offset_Some_iff [of base off loc] by (simp add: eval_register_rule_def)

lemma idiv_8: "8 dvd sint (a :: i64) \<Longrightarrow> 8 * sint (idiv a 8) = sint a"
  using sint_idiv_dvd [of 8 a] by simp

lemma idiv_16: "16 dvd sint (a :: i64) \<Longrightarrow> 16 * sint (idiv a 16) = sint a"
  using sint_idiv_dvd [of 16 a] by simp

text \<open>A storage offset relative to the base of the CFA, when the sum of the two offsets does not overflow.\<close>

lemma storage_slot:
  fixes off o' :: i64 and y :: i16
  assumes "iadd_oc oc off o' = Val s" "signed_to_i16 (idiv s 8) = Some y" "8 dvd sint off" "8 dvd sint o'"
    and "0 \<le> sint off" "sint off + sint o' < 2 ^ 63"
  shows "8 * sint y = sint off + sint o'"
proof -
  have "- (2 ^ 63) \<le> sint o'" using sint_in_signed_range [of o'] by (simp add: in_signed_range_def)
  then have "in_signed_range 64 (sint off + sint o')" using assms(5,6) by (simp add: in_signed_range_def)
  then have s: "sint s = sint off + sint o'" using iadd_oc_exact [OF assms(1)] by simp
  then have "8 dvd sint s" using assms(3,4) by simp
  from idiv_8 [OF this] s assms(2) show ?thesis by (simp add: signed_to_i16_Some_iff)
qed

section \<open>The index\<close>

lemma try_new_Ok:
  assumes "try_new S base_svma es = Ok ix"
  obtains ents where "collect_fdes S base_svma None es = Ok ents" "sorted (sorted_fde_pc_starts ix)"
    "length (fde_offsets ix) = length (sorted_fde_pc_starts ix)"
    "set (zip (sorted_fde_pc_starts ix) (fde_offsets ix)) = set ents"
proof -
  from assms obtain ents where e: "collect_fdes S base_svma None es = Ok ents"
    by (cases "collect_fdes S base_svma None es") (auto simp: try_new_def)
  let ?s = "sort_key fst ents"
  have ix: "ix = \<lparr>sorted_fde_pc_starts = map fst ?s, fde_offsets = map snd ?s\<rparr>"
    using assms e by (simp add: try_new_def Let_def)
  show thesis
  proof (rule that [OF e])
    show "set (zip (sorted_fde_pc_starts ix) (fde_offsets ix)) = set ents"
      by (simp add: ix zip_map_fst_snd)
  qed (simp_all add: ix)
qed

lemma index_lookup:
  assumes s: "sorted (sorted_fde_pc_starts ix)" and l: "length (fde_offsets ix) = length (sorted_fde_pc_starts ix)"
    and z: "set (zip (sorted_fde_pc_starts ix) (fde_offsets ix)) = set ents"
  shows "\<exists>r. fde_offset_for_relative_address ix rel = Val r \<and>
    (case r of
       None \<Rightarrow> \<forall>(pc, off) \<in> set ents. rel < pc
     | Some off \<Rightarrow> \<exists>pc. (pc, off) \<in> set ents \<and> pc \<le> rel \<and> (\<forall>(pc', off') \<in> set ents. pc' \<le> rel \<longrightarrow> pc' \<le> pc))"
proof -
  let ?xs = "sorted_fde_pc_starts ix" and ?ys = "fde_offsets ix"
  have pcs: "pc \<in> set ?xs" if "(pc, off) \<in> set ents" for pc off
    using that set_zip_leftD [of pc off ?xs ?ys] unfolding z [symmetric] by simp
  show ?thesis
  proof (cases "predecessor_of (binary_search ?xs rel)")
    case None
    with std.predecessor_None [OF s None] pcs show ?thesis
      by (auto simp: fde_offset_for_relative_address_def)
  next
    case (Some i)
    note p = std.predecessor_Some [OF s Some]
    have "(?xs ! i, ?ys ! i) \<in> set ents" using p l unfolding z [symmetric] by (auto simp: set_zip)
    with p Some l pcs show ?thesis by (auto simp: fde_offset_for_relative_address_def intro!: exI [of _ "?xs ! i"])
  qed
qed

text \<open>
  C32: The index of frame descriptions is correct.  When an index could be built, looking up an address never panics; it
  returns the offset of an entry whose start is the greatest start not beyond the address, and nothing exactly when
  every entry starts after the address.
\<close>

theorem dwarf_cfi_index_correct:
  assumes "try_new S base_svma es = Ok ix" and "collect_fdes S base_svma None es = Ok ents"
  shows "\<exists>r. fde_offset_for_relative_address ix rel = Val r \<and>
    (case r of
       None \<Rightarrow> \<forall>(pc, off) \<in> set ents. rel < pc
     | Some off \<Rightarrow> \<exists>pc. (pc, off) \<in> set ents \<and> pc \<le> rel \<and> (\<forall>(pc', off') \<in> set ents. pc' \<le> rel \<longrightarrow> pc' \<le> pc))"
proof -
  from assms(1) obtain ents' where e: "collect_fdes S base_svma None es = Ok ents'"
    and ix: "sorted (sorted_fde_pc_starts ix)" "length (fde_offsets ix) = length (sorted_fde_pc_starts ix)"
    "set (zip (sorted_fde_pc_starts ix) (fde_offsets ix)) = set ents'" by (rule try_new_Ok)
  have "ents' = ents" using e assms(2) by simp
  with index_lookup [OF ix] show ?thesis by blast
qed

text \<open>A section whose CIEs are their offsets, for the witnesses.\<close>

definition example_section :: "(u64, u64 \<times> u64 \<times> u64, u64 \<times> u64, u64, unit) GimliSection" where
  "example_section = \<lparr>g_cie_offset = (\<lambda>c. c), g_pfde_cie_offset = fst, g_cie_from_offset = Ok,
     g_parse_with_cie = (\<lambda>p c. Ok (snd p)), g_initial_address = fst, g_fde_offset = snd\<rparr>"

theorem dwarf_cfi_index_correct_witness:
  "fde_offset_for_relative_address \<lparr>sorted_fde_pc_starts = [0, 16], fde_offsets = [48, 24]\<rparr> 20 = Val (Some 24)"
proof -
  let ?es = "[Ok (Cie 0), Ok (PartialFde (0, 0x1010, 24)), Ok (PartialFde (0, 0x1000, 48))]"
  let ?ents = "[(16, 24), (0, 48)] :: (u32 \<times> u32) list"
  have c: "collect_fdes example_section 0x1000 None ?es = Ok ?ents"
    by (simp add: example_section_def parse_fde_def get_cie_def index_entry_def checked_sub_def u64_to_u32_def)
  then have "try_new example_section 0x1000 ?es = Ok \<lparr>sorted_fde_pc_starts = [0, 16], fde_offsets = [48, 24]\<rparr>"
    by (simp add: try_new_def)
  from dwarf_cfi_index_correct [OF this c, of 20] obtain r where
    r: "fde_offset_for_relative_address \<lparr>sorted_fde_pc_starts = [0, 16], fde_offsets = [48, 24]\<rparr> 20 = Val r"
      "case r of
         None \<Rightarrow> \<forall>(pc, off) \<in> set ?ents. 20 < pc
       | Some off \<Rightarrow> \<exists>pc. (pc, off) \<in> set ?ents \<and> pc \<le> 20 \<and> (\<forall>(pc', off') \<in> set ?ents. pc' \<le> 20 \<longrightarrow> pc' \<le> pc)"
    by (elim exE conjE)
  show ?thesis
  proof (cases r)
    case None
    with r(2) show ?thesis by simp
  next
    case (Some off)
    with r(2) have "off = 24" by auto
    with r(1) Some show ?thesis by simp
  qed
qed

section \<open>The cached CIE\<close>

text \<open>Enumerating a section without the closure's cache.\<close>

fun collect_fdes_uncached ::
  "('cie, 'pfde, 'fde, 'off, 'g) GimliSection \<Rightarrow> u64 \<Rightarrow> (('cie, 'pfde) CieOrFde, 'g) result list \<Rightarrow>
   ((u32 \<times> u32) list, 'g DwarfCfiIndexError) result" where
  "collect_fdes_uncached S base_svma [] = Ok []"
| "collect_fdes_uncached S base_svma (Err e # es) = Err (GimliError e)"
| "collect_fdes_uncached S base_svma (Ok (Cie cie) # es) = collect_fdes_uncached S base_svma es"
| "collect_fdes_uncached S base_svma (Ok (PartialFde pf) # es) =
     (case g_cie_from_offset S (g_pfde_cie_offset S pf) of
        Err e \<Rightarrow> Err (GimliError e)
      | Ok cie \<Rightarrow>
          (case g_parse_with_cie S pf cie of
             Err e \<Rightarrow> Err (GimliError e)
           | Ok fde \<Rightarrow>
               (case index_entry S base_svma fde of
                  Err e \<Rightarrow> Err e
                | Ok x \<Rightarrow> map_result ((#) x) (collect_fdes_uncached S base_svma es))))"

text \<open>What gimli promises: a CIE enumerated or parsed has its own offset, and parsing there gives it again.\<close>

definition cie_offsets_consistent ::
  "('cie, 'pfde, 'fde, 'off, 'g) GimliSection \<Rightarrow> (('cie, 'pfde) CieOrFde, 'g) result list \<Rightarrow> bool" where
  "cie_offsets_consistent S es \<longleftrightarrow>
     (\<forall>cie. Ok (Cie cie) \<in> set es \<longrightarrow> g_cie_from_offset S (g_cie_offset S cie) = Ok cie) \<and>
     (\<forall>off cie. g_cie_from_offset S off = Ok cie \<longrightarrow> g_cie_offset S cie = off)"

lemma collect_fdes_uncached_eq:
  assumes "cie_offsets_consistent S es"
    and "\<forall>cie. cur = Some cie \<longrightarrow> g_cie_from_offset S (g_cie_offset S cie) = Ok cie"
  shows "collect_fdes S base_svma cur es = collect_fdes_uncached S base_svma es"
  using assms
proof (induction S base_svma cur es rule: collect_fdes.induct)
  case (4 S base_svma cur pf es)
  let ?off = "g_pfde_cie_offset S pf"
  have c: "cie_offsets_consistent S es" using 4(2) by (auto simp: cie_offsets_consistent_def)
  show ?case
  proof (cases "g_cie_from_offset S ?off")
    case (Err e)
    with 4(3) have "get_cie S cur ?off = (cur, Err e)" by (auto simp: get_cie_def split: option.splits)
    with Err show ?thesis by (simp add: parse_fde_def)
  next
    case (Ok cie)
    with 4(2) have "g_cie_offset S cie = ?off" by (simp add: cie_offsets_consistent_def)
    with Ok 4(3) have g: "get_cie S cur ?off = (Some cie, Ok cie)" by (auto simp: get_cie_def split: option.splits)
    have nx: "\<forall>c. Some cie = Some c \<longrightarrow> g_cie_from_offset S (g_cie_offset S c) = Ok c"
      using Ok \<open>g_cie_offset S cie = ?off\<close> by simp
    show ?thesis
    proof (cases "g_parse_with_cie S pf cie")
      case (Ok fde)
      with g have p: "parse_fde S cur pf = (Some cie, Ok fde)" by (simp add: parse_fde_def)
      show ?thesis
      proof (cases "index_entry S base_svma fde")
        case (Ok x)
        from 4(1) [OF p [symmetric] refl this c nx] p Ok \<open>g_parse_with_cie S pf cie = _\<close>
          \<open>g_cie_from_offset S ?off = _\<close> show ?thesis by simp
      qed (use p \<open>g_parse_with_cie S pf cie = _\<close> \<open>g_cie_from_offset S ?off = _\<close> in simp)
    qed (use g Ok in \<open>simp add: parse_fde_def\<close>)
  qed
qed (auto simp: cie_offsets_consistent_def)

text \<open>
  C33: Reusing the current CIE is invisible: if gimli's offsets are consistent, the index is the one built by parsing the
  CIE of every frame description anew, errors included.
\<close>

theorem try_new_cie_cache_transparent:
  assumes "cie_offsets_consistent S es"
  shows "collect_fdes S base_svma None es = collect_fdes_uncached S base_svma es"
  using collect_fdes_uncached_eq [OF assms] by simp

theorem try_new_cie_cache_transparent_witness:
  "collect_fdes example_section 0x1000 None [Ok (Cie 0), Ok (PartialFde (8, 0x1010, 24))] = Ok [(16, 24)]"
proof -
  let ?es = "[Ok (Cie 0), Ok (PartialFde (8, 0x1010, 24))]"
  have "cie_offsets_consistent example_section ?es" by (simp add: cie_offsets_consistent_def example_section_def)
  from try_new_cie_cache_transparent [OF this, of "0x1000"] show ?thesis
    by (simp add: example_section_def index_entry_def checked_sub_def u64_to_u32_def)
qed

end
