(* ===== verification/Macho.thy ===== *)
theory Macho
  imports Errors UnwindRule
begin

text \<open>
  \<^verbatim>\<open>src/macho.rs\<close>: unwinding with compact unwind info, generic in the architecture.

  The crate \<open>macho_unwind_info\<close> is a parameter: the record \<open>MachoUnwindInfo\<close> has its two functions the source calls,
  over an abstract parsed form, and \<open>MachoFunction\<close> the fields of its \<open>Function\<close> that the source reads.
\<close>

section \<open>The interface of macho-unwind-info\<close>

record MachoFunction =
  start_address :: u32
  end_address :: u32
  opcode :: u32

record ('ui, 'm) MachoUnwindInfo =
  mui_parse :: "u8 list \<Rightarrow> ('ui, 'm) result"
  mui_lookup :: "'ui \<Rightarrow> u32 \<Rightarrow> (MachoFunction option, 'm) result"

section \<open>The unwinder\<close>

datatype 'r CuiUnwindResult = CuiExecRule 'r | NeedDwarf u32

text \<open>The trait \<open>CompactUnwindInfoUnwinding\<close>, implemented by both architectures.\<close>

record ('r, 'm, 'g) CompactUnwindInfoUnwinding =
  cui_unwind_frame :: "MachoFunction \<Rightarrow> bool \<Rightarrow> nat \<Rightarrow> u8 list option \<Rightarrow>
    ('r CuiUnwindResult, ('m, 'g) CompactUnwindInfoUnwinderError) result outcome"
  cui_rule_for_stub_helper :: "u32 \<Rightarrow> ('r CuiUnwindResult, ('m, 'g) CompactUnwindInfoUnwinderError) result"

record TextBytes =
  offset_from_base_address :: u32
  text_bytes :: "u8 list"

record CompactUnwindInfoUnwinder =
  unwind_info_data :: "u8 list"
  cui_text_bytes :: "TextBytes option"
  stubs_range :: "u32 \<times> u32"
  stub_helper_range :: "u32 \<times> u32"

text \<open>\<open>bytes.get(a..b)\<close>.\<close>

definition slice_get :: "nat \<Rightarrow> nat \<Rightarrow> u8 list \<Rightarrow> u8 list option" where
  "slice_get a b bytes = (if a \<le> b \<and> b \<le> length bytes then Some (take (b - a) (drop a bytes)) else None)"

definition in_u32_range :: "u32 \<times> u32 \<Rightarrow> u32 \<Rightarrow> bool" where
  "in_u32_range r a \<longleftrightarrow> fst r \<le> a \<and> a < snd r"

definition function_for_address ::
  "('ui, 'm) MachoUnwindInfo \<Rightarrow> CompactUnwindInfoUnwinder \<Rightarrow> u32 \<Rightarrow>
   (MachoFunction, ('m, 'g) CompactUnwindInfoUnwinderError) result" where
  "function_for_address M u a =
     (case mui_parse M (unwind_info_data u) of
        Err e \<Rightarrow> Err (BadFormat e)
      | Ok info \<Rightarrow>
          (case mui_lookup M info a of
             Err e \<Rightarrow> Err (BadFormat e)
           | Ok function \<Rightarrow> ok_or function (AddressOutsideRange a)))"

text \<open>The bytes of a function, if the text bytes have them.\<close>

definition function_bytes :: "CompactUnwindInfoUnwinder \<Rightarrow> MachoFunction \<Rightarrow> u8 list option" where
  "function_bytes u f =
     (case cui_text_bytes u of
        None \<Rightarrow> None
      | Some t \<Rightarrow>
          (case checked_sub (start_address f) (offset_from_base_address t) of
             None \<Rightarrow> None
           | Some a \<Rightarrow>
               (case checked_sub (end_address f) (offset_from_base_address t) of
                  None \<Rightarrow> None
                | Some b \<Rightarrow> slice_get (unat a) (unat b) (text_bytes t))))"

definition compact_unwind_frame ::
  "bool \<Rightarrow> ('r, 'regs) UnwindRuleOps \<Rightarrow> ('r, 'm, 'g) CompactUnwindInfoUnwinding \<Rightarrow> ('ui, 'm) MachoUnwindInfo \<Rightarrow>
   CompactUnwindInfoUnwinder \<Rightarrow> u32 \<Rightarrow> bool \<Rightarrow>
   ('r CuiUnwindResult, ('m, 'g) CompactUnwindInfoUnwinderError) result outcome" where
  "compact_unwind_frame oc ops A M u rel_lookup_address is_first_frame =
     (if in_u32_range (stubs_range u) rel_lookup_address then
        Val (if \<not> is_first_frame then Err StubFunctionCannotBeCaller
             else Ok (CuiExecRule (op_rule_for_stub_functions ops)))
      else if in_u32_range (stub_helper_range u) rel_lookup_address then
        Val (if \<not> is_first_frame then Err StubFunctionCannotBeCaller
             else cui_rule_for_stub_helper A (rel_lookup_address - fst (stub_helper_range u)))
      else
        (case function_for_address M u rel_lookup_address of
           Err e \<Rightarrow>
             Val (case e of
                    AddressOutsideRange _ \<Rightarrow>
                      if is_first_frame then Ok (CuiExecRule (op_rule_for_stub_functions ops)) else Err e
                  | _ \<Rightarrow> Err e)
         | Ok f \<Rightarrow>
             if is_first_frame \<and> rel_lookup_address = start_address f
             then Val (Ok (CuiExecRule (op_rule_for_function_start ops)))
             else
               obind (sub_oc oc rel_lookup_address (start_address f)) (\<lambda>off.
                 cui_unwind_frame A f is_first_frame (unat off) (function_bytes u f))))"

section \<open>What an architecture may rely on\<close>

text \<open>What the documentation of \<open>macho_unwind_info\<close> promises of a function found for an address.\<close>

definition lookup_in_range :: "('ui, 'm) MachoUnwindInfo \<Rightarrow> bool" where
  "lookup_in_range M \<longleftrightarrow>
     (\<forall>info a f. mui_lookup M info a = Ok (Some f) \<longrightarrow> start_address f \<le> a \<and> a < end_address f)"

lemma function_for_address_range:
  assumes "function_for_address M u a = (Ok f :: (MachoFunction, ('m, 'g) CompactUnwindInfoUnwinderError) result)"
    and "lookup_in_range M"
  shows "start_address f \<le> a \<and> a < end_address f"
proof -
  obtain info r where r: "mui_lookup M info a = Ok r" "ok_or r (AddressOutsideRange a :: ('m, 'g) CompactUnwindInfoUnwinderError) = Ok f"
    using assms(1) by (auto simp: function_for_address_def split: result.splits)
  then have "r = Some f" by (cases r) auto
  with r(1) assms(2) show ?thesis by (auto simp: lookup_in_range_def)
qed

lemma function_bytes_length:
  assumes "function_bytes u f = Some bs" "start_address f \<le> a" "a < end_address f"
  shows "unat (a - start_address f) < length bs \<and> length bs = unat (end_address f) - unat (start_address f)"
proof -
  from assms(1) obtain t x y where t: "cui_text_bytes u = Some t"
      "checked_sub (start_address f) (offset_from_base_address t) = Some x"
      "checked_sub (end_address f) (offset_from_base_address t) = Some y"
      "slice_get (unat x) (unat y) (text_bytes t) = Some bs"
    by (auto simp: function_bytes_def split: option.splits)
  have o: "offset_from_base_address t \<le> start_address f" "x = start_address f - offset_from_base_address t"
    "offset_from_base_address t \<le> end_address f" "y = end_address f - offset_from_base_address t"
    using t(2,3) by (auto simp: checked_sub_def split: if_splits)
  then have u: "unat x = unat (start_address f) - unat (offset_from_base_address t)"
    "unat y = unat (end_address f) - unat (offset_from_base_address t)" by (simp_all add: unat_sub)
  have l: "length bs = unat y - unat x" using t(4) by (auto simp: slice_get_def split: if_splits)
  have "unat (a - start_address f) = unat a - unat (start_address f)" using assms(2) by (simp add: unat_sub)
  moreover have "unat (start_address f) \<le> unat a" "unat a < unat (end_address f)" "unat (offset_from_base_address t) \<le> unat (start_address f)"
    using assms(2,3) o(1) by (simp_all add: word_le_nat_alt word_less_nat_alt)
  ultimately show ?thesis using l u by linarith
qed

text \<open>The contract of the trait's \<open>unwind_frame\<close>: it is only called with an offset inside of the function's bytes.\<close>

locale compact_unwinding =
  fixes A :: "('r, 'm, 'g) CompactUnwindInfoUnwinding"
    and small :: "u8 list \<Rightarrow> bool"
  assumes frame_no_panic: "(\<And>bs. bytes = Some bs \<Longrightarrow> off < length bs \<and> small bs) \<Longrightarrow>
    no_panic (cui_unwind_frame A f is_first_frame off bytes)"
begin

lemma compact_no_panic:
  assumes "lookup_in_range M" "\<And>f bs. function_bytes u f = Some bs \<Longrightarrow> small bs"
  shows "no_panic (compact_unwind_frame oc ops A M u a is_first_frame)"
proof (cases "function_for_address M u a :: (MachoFunction, ('m, 'g) CompactUnwindInfoUnwinderError) result")
  case (Ok f)
  then have f: "start_address f \<le> a" "a < end_address f" using assms(1) by (auto dest: function_for_address_range)
  have "no_panic (cui_unwind_frame A f is_first_frame (unat (a - start_address f)) (function_bytes u f))"
    by (rule frame_no_panic) (use function_bytes_length [OF _ f] assms(2) in blast)
  with Ok f show ?thesis by (auto simp: compact_unwind_frame_def)
qed (auto simp: compact_unwind_frame_def)

end

lemma function_bytes_length_le: "function_bytes u f = Some bs \<Longrightarrow> cui_text_bytes u = Some t \<Longrightarrow> length bs \<le> length (text_bytes t)"
  by (auto simp: function_bytes_def slice_get_def split: option.splits if_splits)

text \<open>A small image: one function with the opcode 0 at the first 16 bytes of the text.\<close>

definition example_unwind_info :: "(unit, unit) MachoUnwindInfo" where
  "example_unwind_info = \<lparr>mui_parse = (\<lambda>_. Ok ()),
     mui_lookup = (\<lambda>_ a. Ok (if a < 16 then Some \<lparr>start_address = 0, end_address = 16, opcode = 0\<rparr> else None))\<rparr>"

definition example_image :: "u8 list \<Rightarrow> CompactUnwindInfoUnwinder" where
  "example_image bs = \<lparr>unwind_info_data = [], cui_text_bytes = Some \<lparr>offset_from_base_address = 0, text_bytes = bs\<rparr>,
     stubs_range = (0x100, 0x200), stub_helper_range = (0x200, 0x300)\<rparr>"

lemma lookup_in_range_example: "lookup_in_range example_unwind_info"
  by (simp add: lookup_in_range_def example_unwind_info_def)

end
