(* ===== verification/Pe.thy ===== *)
theory Pe
  imports Errors
begin

text \<open>
  \<^verbatim>\<open>src/pe.rs\<close>: the sections of a PE module and reading them at relative virtual addresses.
\<close>

record DataAtRvaRange =
  rva_data :: "u8 list"
  rva_range :: "u32 \<times> u32"

record PeSections =
  pdata :: "u8 list"
  rdata :: "DataAtRvaRange option"
  xdata :: "DataAtRvaRange option"
  text_section :: "DataAtRvaRange option"

text \<open>\<open>memory_at_rva\<close>; slicing from an offset beyond the data panics.\<close>

definition memory_at_rva :: "DataAtRvaRange \<Rightarrow> u32 \<Rightarrow> u8 list option outcome" where
  "memory_at_rva m a =
     (if fst (rva_range m) \<le> a \<and> a < snd (rva_range m)
      then let off = unat (a - fst (rva_range m)) in
        if off \<le> length (rva_data m) then Val (Some (drop off (rva_data m))) else Panic IndexOutOfBounds
      else Val None)"

definition opt_memory_at_rva :: "DataAtRvaRange option \<Rightarrow> u32 \<Rightarrow> u8 list option outcome" where
  "opt_memory_at_rva o' a = (case o' of None \<Rightarrow> Val None | Some m \<Rightarrow> memory_at_rva m a)"

definition unwind_info_memory_at_rva :: "PeSections \<Rightarrow> u32 \<Rightarrow> (u8 list, PeUnwinderError) result outcome" where
  "unwind_info_memory_at_rva s rva =
     obind (opt_memory_at_rva (rdata s) rva) (\<lambda>r.
       case r of
         Some bs \<Rightarrow> Val (Ok bs)
       | None \<Rightarrow> obind (opt_memory_at_rva (xdata s) rva) (\<lambda>x. Val (ok_or x (MissingUnwindInfoData rva))))"

definition text_memory_at_rva :: "PeSections \<Rightarrow> u32 \<Rightarrow> (u8 list, PeUnwinderError) result outcome" where
  "text_memory_at_rva s rva = obind (opt_memory_at_rva (text_section s) rva) (\<lambda>x. Val (ok_or x (MissingInstructionData rva)))"

text \<open>Sections whose data covers their range, as in a loaded image.\<close>

definition covers_range :: "DataAtRvaRange \<Rightarrow> bool" where
  "covers_range m \<longleftrightarrow> unat (snd (rva_range m)) - unat (fst (rva_range m)) \<le> length (rva_data m)"

definition wf_sections :: "PeSections \<Rightarrow> bool" where
  "wf_sections s \<longleftrightarrow> (\<forall>m. m \<in> set_option (rdata s) \<union> set_option (xdata s) \<union> set_option (text_section s) \<longrightarrow> covers_range m)"

lemma memory_at_rva_covers:
  assumes "covers_range m"
  shows "\<exists>r. memory_at_rva m a = Val r \<and>
     (\<forall>bs. r = Some bs \<longrightarrow> fst (rva_range m) \<le> a \<and> unat (snd (rva_range m)) - unat a \<le> length bs)"
proof (cases "fst (rva_range m) \<le> a \<and> a < snd (rva_range m)")
  case True
  then have "unat (a - fst (rva_range m)) = unat a - unat (fst (rva_range m))" by (simp add: unat_sub)
  moreover have "unat (fst (rva_range m)) \<le> unat a" "unat a < unat (snd (rva_range m))"
    using True by (simp_all add: word_le_nat_alt word_less_nat_alt)
  ultimately have "unat (a - fst (rva_range m)) \<le> length (rva_data m)"
      "unat (snd (rva_range m)) - unat a \<le> length (rva_data m) - unat (a - fst (rva_range m))"
    using assms unfolding covers_range_def by linarith+
  with True show ?thesis by (auto simp: memory_at_rva_def Let_def)
qed (auto simp: memory_at_rva_def)

lemma memory_no_panic: "covers_range m \<Longrightarrow> no_panic (memory_at_rva m a)"
  using memory_at_rva_covers by blast

lemma opt_memory_no_panic: "\<forall>m. o' = Some m \<longrightarrow> covers_range m \<Longrightarrow> no_panic (opt_memory_at_rva o' a)"
  by (cases o') (simp_all add: opt_memory_at_rva_def memory_no_panic)

lemma unwind_info_memory_no_panic:
  assumes "wf_sections s"
  shows "no_panic (unwind_info_memory_at_rva s a)"
proof -
  obtain r x where "opt_memory_at_rva (rdata s) a = Val r" "opt_memory_at_rva (xdata s) a = Val x"
    using assms opt_memory_no_panic [of "rdata s"] opt_memory_no_panic [of "xdata s"] unfolding wf_sections_def by fastforce
  then show ?thesis by (cases r) (simp_all add: unwind_info_memory_at_rva_def)
qed

end
