(* ===== verification/ModuleData.thy ===== *)
theory ModuleData
  imports Modules Dwarf Macho Pe "HOL-Library.State_Monad"
begin

text \<open>
  The construction of a module in \<^verbatim>\<open>src/unwinder.rs\<close>: the trait \<open>ModuleSectionInfo\<close>, its implementation
  \<open>ExplicitModuleSectionInfo\<close>, \<open>ModuleUnwindDataInternal::new\<close>, which chooses the kind of unwind data from the sections
  at hand, and \<open>Module::new\<close>; with \<open>base_addresses_for_sections\<close> and the two constructors of \<open>DwarfCfiIndex\<close> from
  \<^verbatim>\<open>src/dwarf.rs\<close>.

  The functions of the trait take \<open>&mut self\<close> and may move data out of the module, so they are in the state monad over
  the implementor.  The features \<open>macho\<close> and \<open>pe\<close> are on.
\<close>

section \<open>Section information\<close>

type_synonym u64_range = "u64 \<times> u64"

record 's ModuleSectionInfo =
  si_base_svma :: "'s \<Rightarrow> u64"
  si_section_svma_range :: "string \<Rightarrow> ('s, u64_range option) state"
  si_section_data :: "string \<Rightarrow> ('s, u8 list option) state"
  si_segment_svma_range :: "string \<Rightarrow> ('s, u64_range option) state"
  si_segment_data :: "string \<Rightarrow> ('s, u8 list option) state"

record ExplicitModuleSectionInfo =
  ex_base_svma :: u64
  ex_text_svma :: "u64_range option"
  ex_text :: "u8 list option"
  ex_stubs_svma :: "u64_range option"
  ex_stub_helper_svma :: "u64_range option"
  ex_got_svma :: "u64_range option"
  ex_unwind_info :: "u8 list option"
  ex_eh_frame_svma :: "u64_range option"
  ex_eh_frame :: "u8 list option"
  ex_eh_frame_hdr_svma :: "u64_range option"
  ex_eh_frame_hdr :: "u8 list option"
  ex_debug_frame :: "u8 list option"
  ex_text_segment_svma :: "u64_range option"
  ex_text_segment :: "u8 list option"

definition explicit_section_svma_range :: "string \<Rightarrow> ExplicitModuleSectionInfo \<Rightarrow> u64_range option" where
  "explicit_section_svma_range name s =
     (if name = ''__text'' \<or> name = ''.text'' then ex_text_svma s
      else if name = ''__stubs'' then ex_stubs_svma s
      else if name = ''__stub_helper'' then ex_stub_helper_svma s
      else if name = ''__eh_frame'' \<or> name = ''.eh_frame'' then ex_eh_frame_svma s
      else if name = ''__eh_frame_hdr'' \<or> name = ''.eh_frame_hdr'' then ex_eh_frame_hdr_svma s
      else if name = ''__got'' \<or> name = ''.got'' then ex_got_svma s
      else None)"

text \<open>\<open>take()\<close> leaves \<open>None\<close> behind.\<close>

definition explicit_section_data :: "string \<Rightarrow> ExplicitModuleSectionInfo \<Rightarrow> u8 list option \<times> ExplicitModuleSectionInfo" where
  "explicit_section_data name s =
     (if name = ''__text'' \<or> name = ''.text'' then (ex_text s, s\<lparr>ex_text := None\<rparr>)
      else if name = ''__unwind_info'' then (ex_unwind_info s, s\<lparr>ex_unwind_info := None\<rparr>)
      else if name = ''__eh_frame'' \<or> name = ''.eh_frame'' then (ex_eh_frame s, s\<lparr>ex_eh_frame := None\<rparr>)
      else if name = ''__eh_frame_hdr'' \<or> name = ''.eh_frame_hdr'' then (ex_eh_frame_hdr s, s\<lparr>ex_eh_frame_hdr := None\<rparr>)
      else if name = ''__debug_frame'' \<or> name = ''.debug_frame'' then (ex_debug_frame s, s\<lparr>ex_debug_frame := None\<rparr>)
      else (None, s))"

definition explicit_segment_svma_range :: "string \<Rightarrow> ExplicitModuleSectionInfo \<Rightarrow> u64_range option" where
  "explicit_segment_svma_range name s = (if name = ''__TEXT'' then ex_text_segment_svma s else None)"

definition explicit_segment_data :: "string \<Rightarrow> ExplicitModuleSectionInfo \<Rightarrow> u8 list option \<times> ExplicitModuleSectionInfo" where
  "explicit_segment_data name s =
     (if name = ''__TEXT'' then (ex_text_segment s, s\<lparr>ex_text_segment := None\<rparr>) else (None, s))"

definition explicit_section_info :: "ExplicitModuleSectionInfo ModuleSectionInfo" where
  "explicit_section_info = \<lparr>si_base_svma = ex_base_svma,
     si_section_svma_range = (\<lambda>name. State (\<lambda>s. (explicit_section_svma_range name s, s))),
     si_section_data = (\<lambda>name. State (explicit_section_data name)),
     si_segment_svma_range = (\<lambda>name. State (\<lambda>s. (explicit_segment_svma_range name s, s))),
     si_segment_data = (\<lambda>name. State (explicit_segment_data name))\<rparr>"

section \<open>DWARF sections\<close>

text \<open>gimli's \<open>BaseAddresses\<close>, with the four addresses the source sets.\<close>

record BaseAddresses =
  bases_eh_frame :: u64
  bases_eh_frame_hdr :: u64
  bases_text :: u64
  bases_got :: u64

datatype UnwindSectionType = EhFrame | DebugFrame

text \<open>gimli's view of the entries of a section, with the bases and an address size of 8.\<close>

record ('cie, 'pfde, 'fde, 'off, 'g) GimliCfi =
  g_section :: "UnwindSectionType \<Rightarrow> u8 list \<Rightarrow> BaseAddresses \<Rightarrow> ('cie, 'pfde, 'fde, 'off, 'g) GimliSection"
  g_entries :: "UnwindSectionType \<Rightarrow> u8 list \<Rightarrow> BaseAddresses \<Rightarrow> (('cie, 'pfde) CieOrFde, 'g) result list"

fun find_svma_range :: "'s ModuleSectionInfo \<Rightarrow> string list \<Rightarrow> ('s, u64_range option) state" where
  "find_svma_range I [] = State_Monad.return None"
| "find_svma_range I (name # names) =
     do {
       r \<leftarrow> si_section_svma_range I name;
       (case r of Some x \<Rightarrow> State_Monad.return (Some x) | None \<Rightarrow> find_svma_range I names)
     }"

definition start_addr :: "'s ModuleSectionInfo \<Rightarrow> string list \<Rightarrow> ('s, u64) state" where
  "start_addr I names = do { r \<leftarrow> find_svma_range I names; State_Monad.return (unwrap_or (map_option fst r) 0) }"

definition base_addresses_for_sections :: "'s ModuleSectionInfo \<Rightarrow> ('s, BaseAddresses) state" where
  "base_addresses_for_sections I =
     do {
       eh_frame \<leftarrow> start_addr I [''__eh_frame'', ''.eh_frame''];
       eh_frame_hdr \<leftarrow> start_addr I [''__eh_frame_hdr'', ''.eh_frame_hdr''];
       text \<leftarrow> start_addr I [''__text'', ''.text''];
       got \<leftarrow> start_addr I [''__got'', ''.got''];
       State_Monad.return \<lparr>bases_eh_frame = eh_frame, bases_eh_frame_hdr = eh_frame_hdr, bases_text = text, bases_got = got\<rparr>
     }"

definition try_new_section ::
  "('cie, 'pfde, 'fde, 'off, 'g) GimliCfi \<Rightarrow> 's ModuleSectionInfo \<Rightarrow> UnwindSectionType \<Rightarrow> u8 list \<Rightarrow>
   ('s, (DwarfCfiIndex, 'g DwarfCfiIndexError) result) state" where
  "try_new_section G I ty bytes =
     do {
       bases \<leftarrow> base_addresses_for_sections I;
       s \<leftarrow> State_Monad.get;
       State_Monad.return (try_new (g_section G ty bytes bases) (si_base_svma I s) (g_entries G ty bytes bases))
     }"

definition try_new_eh_frame ::
  "('cie, 'pfde, 'fde, 'off, 'g) GimliCfi \<Rightarrow> u8 list \<Rightarrow> 's ModuleSectionInfo \<Rightarrow>
   ('s, (DwarfCfiIndex, 'g DwarfCfiIndexError) result) state" where
  "try_new_eh_frame G eh_frame_data I = try_new_section G I EhFrame eh_frame_data"

definition try_new_debug_frame ::
  "('cie, 'pfde, 'fde, 'off, 'g) GimliCfi \<Rightarrow> u8 list \<Rightarrow> 's ModuleSectionInfo \<Rightarrow>
   ('s, (DwarfCfiIndex, 'g DwarfCfiIndexError) result) state" where
  "try_new_debug_frame G debug_frame_data I = try_new_section G I DebugFrame debug_frame_data"

section \<open>Unwind data of a module\<close>

record TextByteData =
  td_bytes :: "u8 list"
  td_svma_range :: u64_range

datatype ModuleUnwindDataInternal =
    CompactUnwindInfoAndEhFrame (cui_unwind_info: "u8 list") (cui_eh_frame: "u8 list option")
      (cui_stubs_svma: "u64_range option") (cui_stub_helper_svma: "u64_range option")
      (cui_base_addresses: BaseAddresses) (cui_text_data: "TextByteData option")
  | EhFrameHdrAndEhFrame "u8 list" "u8 list" BaseAddresses
  | DwarfCfiIndexAndEhFrame DwarfCfiIndex "u8 list" BaseAddresses
  | DwarfCfiIndexAndDebugFrame DwarfCfiIndex "u8 list" BaseAddresses
  | PeUnwindInfo "u8 list" "DataAtRvaRange option" "DataAtRvaRange option" "DataAtRvaRange option"
  | NoUnwindData

text \<open>The bytes of the \<open>__TEXT\<close> segment, or else of the \<open>__text\<close> section.\<close>

definition text_byte_data :: "'s ModuleSectionInfo \<Rightarrow> ('s, TextByteData option) state" where
  "text_byte_data I =
     do {
       b \<leftarrow> si_segment_data I ''__TEXT'';
       r \<leftarrow> si_segment_svma_range I ''__TEXT'';
       (case (b, r) of
          (Some bytes, Some svma_range) \<Rightarrow> State_Monad.return (Some \<lparr>td_bytes = bytes, td_svma_range = svma_range\<rparr>)
        | _ \<Rightarrow>
            do {
              b \<leftarrow> si_section_data I ''__text'';
              r \<leftarrow> si_section_svma_range I ''__text'';
              State_Monad.return (case (b, r) of
                (Some bytes, Some svma_range) \<Rightarrow> Some \<lparr>td_bytes = bytes, td_svma_range = svma_range\<rparr>
              | _ \<Rightarrow> None)
            })
     }"

text \<open>The closure \<open>range_and_data\<close>.  The subtractions of the base address may overflow; a panic in one of them ends the
  construction.\<close>

definition rva_range_of :: "bool \<Rightarrow> u64 \<Rightarrow> u64_range \<Rightarrow> (u32 \<times> u32) option outcome" where
  "rva_range_of oc base svmas =
     obind (sub_oc oc (fst svmas) base) (\<lambda>a.
       case u64_to_u32 a of
         None \<Rightarrow> Val None
       | Some start \<Rightarrow>
           obind (sub_oc oc (snd svmas) base) (\<lambda>b.
             Val (case u64_to_u32 b of None \<Rightarrow> None | Some end' \<Rightarrow> Some (start, end'))))"

definition range_and_data :: "bool \<Rightarrow> 's ModuleSectionInfo \<Rightarrow> string \<Rightarrow> ('s, DataAtRvaRange option outcome) state" where
  "range_and_data oc I name =
     do {
       r \<leftarrow> si_section_svma_range I name;
       s \<leftarrow> State_Monad.get;
       (case (case r of None \<Rightarrow> Val None | Some svmas \<Rightarrow> rva_range_of oc (si_base_svma I s) svmas) of
          Panic p \<Rightarrow> State_Monad.return (Panic p)
        | Val None \<Rightarrow> State_Monad.return (Val None)
        | Val (Some rng) \<Rightarrow>
            do {
              d \<leftarrow> si_section_data I name;
              State_Monad.return (Val (map_option (\<lambda>data. \<lparr>rva_data = data, rva_range = rng\<rparr>) d))
            })
     }"

definition pe_unwind_data :: "bool \<Rightarrow> 's ModuleSectionInfo \<Rightarrow> u8 list \<Rightarrow> ('s, ModuleUnwindDataInternal outcome) state" where
  "pe_unwind_data oc I pdata_bytes =
     do {
       r \<leftarrow> range_and_data oc I ''.rdata'';
       x \<leftarrow> range_and_data oc I ''.xdata'';
       t \<leftarrow> range_and_data oc I ''.text'';
       State_Monad.return (obind r (\<lambda>r'. obind x (\<lambda>x'. obind t (\<lambda>t'. Val (PeUnwindInfo pdata_bytes r' x' t')))))
     }"

text \<open>\<open>a.or_else(|| b)\<close> for section data.\<close>

definition section_data_or :: "'s ModuleSectionInfo \<Rightarrow> string \<Rightarrow> string \<Rightarrow> ('s, u8 list option) state" where
  "section_data_or I name name' =
     do {
       d \<leftarrow> si_section_data I name;
       (case d of Some x \<Rightarrow> State_Monad.return (Some x) | None \<Rightarrow> si_section_data I name')
     }"

definition macho_unwind_data :: "'s ModuleSectionInfo \<Rightarrow> u8 list \<Rightarrow> ('s, ModuleUnwindDataInternal) state" where
  "macho_unwind_data I unwind_info =
     do {
       eh_frame \<leftarrow> si_section_data I ''__eh_frame'';
       stubs \<leftarrow> si_section_svma_range I ''__stubs'';
       stub_helper \<leftarrow> si_section_svma_range I ''__stub_helper'';
       text_data \<leftarrow> text_byte_data I;
       bases \<leftarrow> base_addresses_for_sections I;
       State_Monad.return (CompactUnwindInfoAndEhFrame unwind_info eh_frame stubs stub_helper bases text_data)
     }"

definition dwarf_unwind_data ::
  "('cie, 'pfde, 'fde, 'off, 'g) GimliCfi \<Rightarrow> 's ModuleSectionInfo \<Rightarrow> ('s, ModuleUnwindDataInternal) state" where
  "dwarf_unwind_data G I =
     do {
       eh \<leftarrow> section_data_or I ''.eh_frame'' ''__eh_frame'';
       (case eh of
          Some eh_frame \<Rightarrow>
            do {
              hdr \<leftarrow> section_data_or I ''.eh_frame_hdr'' ''__eh_frame_hdr'';
              (case hdr of
                 Some eh_frame_hdr \<Rightarrow>
                   do {
                     bases \<leftarrow> base_addresses_for_sections I;
                     State_Monad.return (EhFrameHdrAndEhFrame eh_frame_hdr eh_frame bases)
                   }
               | None \<Rightarrow>
                   do {
                     index \<leftarrow> try_new_eh_frame G eh_frame I;
                     (case index of
                        Ok ix \<Rightarrow>
                          do {
                            bases \<leftarrow> base_addresses_for_sections I;
                            State_Monad.return (DwarfCfiIndexAndEhFrame ix eh_frame bases)
                          }
                      | Err _ \<Rightarrow> State_Monad.return NoUnwindData)
                   })
            }
        | None \<Rightarrow>
            do {
              d \<leftarrow> si_section_data I ''.debug_frame'';
              (case d of
                 Some debug_frame \<Rightarrow>
                   do {
                     index \<leftarrow> try_new_debug_frame G debug_frame I;
                     (case index of
                        Ok ix \<Rightarrow>
                          do {
                            bases \<leftarrow> base_addresses_for_sections I;
                            State_Monad.return (DwarfCfiIndexAndDebugFrame ix debug_frame bases)
                          }
                      | Err _ \<Rightarrow> State_Monad.return NoUnwindData)
                   }
               | None \<Rightarrow> State_Monad.return NoUnwindData)
            })
     }"

definition new_unwind_data ::
  "bool \<Rightarrow> ('cie, 'pfde, 'fde, 'off, 'g) GimliCfi \<Rightarrow> 's ModuleSectionInfo \<Rightarrow> ('s, ModuleUnwindDataInternal outcome) state" where
  "new_unwind_data oc G I =
     do {
       ui \<leftarrow> si_section_data I ''__unwind_info'';
       (case ui of
          Some unwind_info \<Rightarrow> do { d \<leftarrow> macho_unwind_data I unwind_info; State_Monad.return (Val d) }
        | None \<Rightarrow>
            do {
              pd \<leftarrow> si_section_data I ''.pdata'';
              (case pd of
                 Some pdata_bytes \<Rightarrow> pe_unwind_data oc I pdata_bytes
               | None \<Rightarrow> do { d \<leftarrow> dwarf_unwind_data G I; State_Monad.return (Val d) })
            })
     }"

definition new_module ::
  "bool \<Rightarrow> ('cie, 'pfde, 'fde, 'off, 'g) GimliCfi \<Rightarrow> 's ModuleSectionInfo \<Rightarrow> string \<Rightarrow> u64_range \<Rightarrow> u64 \<Rightarrow> 's \<Rightarrow>
   ModuleUnwindDataInternal Module outcome" where
  "new_module oc G I name avmas base section_info =
     (case run_state (new_unwind_data oc G I) section_info of
        (d, section_info') \<Rightarrow>
          obind d (\<lambda>ud.
            Val \<lparr>mod_name = name, avma_range = avmas, base_avma = base, base_svma = si_base_svma I section_info',
                 unwind_data = ud\<rparr>))"


section \<open>Explicit section information\<close>

lemma explicit_simps [simp]:
  "si_base_svma explicit_section_info = ex_base_svma"
  "run_state (si_section_svma_range explicit_section_info name) s = (explicit_section_svma_range name s, s)"
  "run_state (si_section_data explicit_section_info name) s = explicit_section_data name s"
  "run_state (si_segment_svma_range explicit_section_info name) s = (explicit_segment_svma_range name s, s)"
  "run_state (si_segment_data explicit_section_info name) s = explicit_segment_data name s"
  by (simp_all add: explicit_section_info_def)

text \<open>The addresses and the data as a function of the fields.\<close>

definition start_or_0 :: "u64_range option \<Rightarrow> u64" where
  "start_or_0 r = (case r of None \<Rightarrow> 0 | Some (a, _) \<Rightarrow> a)"

definition explicit_bases :: "ExplicitModuleSectionInfo \<Rightarrow> BaseAddresses" where
  "explicit_bases s = \<lparr>bases_eh_frame = start_or_0 (ex_eh_frame_svma s), bases_eh_frame_hdr = start_or_0 (ex_eh_frame_hdr_svma s),
     bases_text = start_or_0 (ex_text_svma s), bases_got = start_or_0 (ex_got_svma s)\<rparr>"

definition text_data_of :: "u8 list option \<Rightarrow> u64_range option \<Rightarrow> TextByteData option" where
  "text_data_of b r = (case (b, r) of (Some bs, Some x) \<Rightarrow> Some \<lparr>td_bytes = bs, td_svma_range = x\<rparr> | _ \<Rightarrow> None)"

definition explicit_text_data :: "ExplicitModuleSectionInfo \<Rightarrow> TextByteData option" where
  "explicit_text_data s =
     (case text_data_of (ex_text_segment s) (ex_text_segment_svma s) of
        Some d \<Rightarrow> Some d
      | None \<Rightarrow> text_data_of (ex_text s) (ex_text_svma s))"

definition explicit_index ::
  "('cie, 'pfde, 'fde, 'off, 'g) GimliCfi \<Rightarrow> ExplicitModuleSectionInfo \<Rightarrow> UnwindSectionType \<Rightarrow> u8 list \<Rightarrow>
   (DwarfCfiIndex, 'g DwarfCfiIndexError) result" where
  "explicit_index G s ty bytes =
     try_new (g_section G ty bytes (explicit_bases s)) (ex_base_svma s) (g_entries G ty bytes (explicit_bases s))"

definition explicit_unwind_data ::
  "('cie, 'pfde, 'fde, 'off, 'g) GimliCfi \<Rightarrow> ExplicitModuleSectionInfo \<Rightarrow> ModuleUnwindDataInternal" where
  "explicit_unwind_data G s =
     (case (ex_unwind_info s, ex_eh_frame s, ex_eh_frame_hdr s, ex_debug_frame s) of
        (Some ui, eh, _, _) \<Rightarrow>
          CompactUnwindInfoAndEhFrame ui eh (ex_stubs_svma s) (ex_stub_helper_svma s) (explicit_bases s) (explicit_text_data s)
      | (None, Some eh, Some hdr, _) \<Rightarrow> EhFrameHdrAndEhFrame hdr eh (explicit_bases s)
      | (None, Some eh, None, _) \<Rightarrow>
          (case explicit_index G s EhFrame eh of
             Ok ix \<Rightarrow> DwarfCfiIndexAndEhFrame ix eh (explicit_bases s) | Err _ \<Rightarrow> NoUnwindData)
      | (None, None, _, Some df) \<Rightarrow>
          (case explicit_index G s DebugFrame df of
             Ok ix \<Rightarrow> DwarfCfiIndexAndDebugFrame ix df (explicit_bases s) | Err _ \<Rightarrow> NoUnwindData)
      | (None, None, _, None) \<Rightarrow> NoUnwindData)"

lemma run_start_addr:
  "run_state (start_addr explicit_section_info [name, name']) s =
     (start_or_0 (case explicit_section_svma_range name s of None \<Rightarrow> explicit_section_svma_range name' s | Some r \<Rightarrow> Some r), s)"
  by (auto simp: start_addr_def start_or_0_def split: option.splits)

lemma run_base_addresses [simp]:
  "run_state (base_addresses_for_sections explicit_section_info) s = (explicit_bases s, s)"
  by (simp add: base_addresses_for_sections_def run_start_addr explicit_section_svma_range_def explicit_bases_def option.case_eq_if)

lemma run_try_new_section [simp]:
  "run_state (try_new_section G explicit_section_info ty bytes) s = (explicit_index G s ty bytes, s)"
  by (simp add: try_new_section_def explicit_index_def State_Monad.get_def)

text \<open>Taking the data of one section changes neither an address nor, for another section, the data.\<close>

lemma explicit_bases_data [simp]:
  "explicit_bases (snd (explicit_section_data name s)) = explicit_bases s"
  "explicit_bases (snd (explicit_segment_data name s)) = explicit_bases s"
  "ex_base_svma (snd (explicit_section_data name s)) = ex_base_svma s"
  by (simp_all add: explicit_section_data_def explicit_segment_data_def explicit_bases_def)


lemma explicit_taken [simp]:
  "ex_text_svma (snd (explicit_segment_data name s)) = ex_text_svma s"
  "ex_text (snd (explicit_segment_data name s)) = ex_text s"
  "ex_text_segment_svma (snd (explicit_segment_data name s)) = ex_text_segment_svma s"
  by (simp_all add: explicit_segment_data_def)

lemma run_text_byte_data:
  "\<exists>s'. run_state (text_byte_data explicit_section_info) s = (explicit_text_data s, s') \<and>
     explicit_bases s' = explicit_bases s \<and> ex_base_svma s' = ex_base_svma s"
  by (cases "ex_text_segment s"; cases "ex_text_segment_svma s"; cases "ex_text s"; cases "ex_text_svma s")
     (simp_all add: text_byte_data_def explicit_text_data_def text_data_of_def explicit_segment_data_def
       explicit_segment_svma_range_def explicit_section_data_def explicit_section_svma_range_def explicit_bases_def)

lemma explicit_update [simp]:
  "explicit_text_data (s\<lparr>ex_eh_frame := x\<rparr>) = explicit_text_data s"
  "explicit_text_data (s\<lparr>ex_unwind_info := x\<rparr>) = explicit_text_data s"
  "explicit_bases (s\<lparr>ex_eh_frame := x\<rparr>) = explicit_bases s"
  "explicit_bases (s\<lparr>ex_unwind_info := x\<rparr>) = explicit_bases s"
  by (simp_all add: explicit_text_data_def explicit_bases_def cong: option.case_cong)

lemma run_macho_unwind_data:
  "\<exists>s'. run_state (macho_unwind_data explicit_section_info ui) s =
     (CompactUnwindInfoAndEhFrame ui (ex_eh_frame s) (ex_stubs_svma s) (ex_stub_helper_svma s) (explicit_bases s)
        (explicit_text_data s), s') \<and> ex_base_svma s' = ex_base_svma s"
proof -
  have d: "run_state (si_section_data explicit_section_info ''__eh_frame'') s = (ex_eh_frame s, s\<lparr>ex_eh_frame := None\<rparr>)"
    by (simp add: explicit_section_data_def)
  obtain s' where s': "run_state (text_byte_data explicit_section_info) (s\<lparr>ex_eh_frame := None\<rparr>) = (explicit_text_data s, s')"
    "explicit_bases s' = explicit_bases s" "ex_base_svma s' = ex_base_svma s"
    using run_text_byte_data [of "s\<lparr>ex_eh_frame := None\<rparr>"] by auto
  show ?thesis
    by (rule exI [of _ s']) (simp add: macho_unwind_data_def d s' explicit_section_svma_range_def del: explicit_simps(3))
qed

lemma run_section_data_or:
  assumes "explicit_section_data name' = explicit_section_data name"
  shows "run_state (section_data_or explicit_section_info name name') s =
     (fst (explicit_section_data name s),
      case fst (explicit_section_data name s) of
        Some _ \<Rightarrow> snd (explicit_section_data name s)
      | None \<Rightarrow> snd (explicit_section_data name (snd (explicit_section_data name s))))"
proof -
  have "fst (explicit_section_data name s) = None \<Longrightarrow> fst (explicit_section_data name (snd (explicit_section_data name s))) = None"
    by (simp add: explicit_section_data_def)
  then show ?thesis
    by (auto simp: section_data_or_def assms prod_eq_iff split: prod.splits option.splits)
qed

lemma run_dwarf_unwind_data:
  assumes "ex_unwind_info s = None"
  shows "\<exists>s'. run_state (dwarf_unwind_data G explicit_section_info) s = (explicit_unwind_data G s, s') \<and>
     ex_base_svma s' = ex_base_svma s"
proof -
  have e: "explicit_section_data ''__eh_frame'' = explicit_section_data ''.eh_frame''"
    "explicit_section_data ''__eh_frame_hdr'' = explicit_section_data ''.eh_frame_hdr''"
    by (simp_all add: explicit_section_data_def fun_eq_iff)
  have i: "explicit_index G (s\<lparr>ex_eh_frame := x, ex_eh_frame_hdr := y\<rparr>) = explicit_index G s"
    "explicit_index G (s\<lparr>ex_eh_frame := x, ex_debug_frame := y\<rparr>) = explicit_index G s" for x y
    by (simp_all add: explicit_index_def explicit_bases_def fun_eq_iff)
  have b: "explicit_bases (s\<lparr>ex_eh_frame := x, ex_eh_frame_hdr := y\<rparr>) = explicit_bases s"
    "explicit_bases (s\<lparr>ex_eh_frame := x, ex_debug_frame := y\<rparr>) = explicit_bases s" for x y
    by (simp_all add: explicit_bases_def)
  note unfolds = dwarf_unwind_data_def explicit_unwind_data_def run_section_data_or e try_new_eh_frame_def try_new_debug_frame_def
    assms explicit_section_data_def i b
  show ?thesis
  proof (cases "ex_eh_frame s")
    case (Some eh)
    then show ?thesis
    proof (cases "ex_eh_frame_hdr s")
      case None
      with Some show ?thesis by (cases "explicit_index G s EhFrame eh") (simp_all add: unfolds)
    qed (simp add: unfolds)
  next
    case None
    then show ?thesis
    proof (cases "ex_debug_frame s")
      case (Some df)
      with None show ?thesis by (cases "explicit_index G s DebugFrame df") (simp_all add: unfolds)
    qed (simp add: unfolds)
  qed
qed

lemma run_new_unwind_data:
  "\<exists>s'. run_state (new_unwind_data oc G explicit_section_info) s = (Val (explicit_unwind_data G s), s') \<and>
     ex_base_svma s' = ex_base_svma s"
proof (cases "ex_unwind_info s")
  case None
  then have u: "s\<lparr>ex_unwind_info := None\<rparr> = s" by (cases s) simp
  have "run_state (new_unwind_data oc G explicit_section_info) s =
     (case run_state (dwarf_unwind_data G explicit_section_info) s of (d, s') \<Rightarrow> (Val d, s'))"
    using None by (simp add: new_unwind_data_def explicit_section_data_def u)
  then show ?thesis using run_dwarf_unwind_data [OF None, of G] by auto
next
  case (Some ui)
  from run_macho_unwind_data [of ui "s\<lparr>ex_unwind_info := None\<rparr>"] Some show ?thesis
    by (auto simp: new_unwind_data_def explicit_section_data_def explicit_unwind_data_def)
qed

lemma new_module_explicit_eq:
  "new_module oc G explicit_section_info name avmas base s =
     Val \<lparr>mod_name = name, avma_range = avmas, base_avma = base, base_svma = ex_base_svma s,
          unwind_data = explicit_unwind_data G s\<rparr>"
  using run_new_unwind_data [of oc G s] by (auto simp: new_module_def)

text \<open>
  C23: A module made from explicit section information has the unwind data that its fields determine: compact unwind info if
  there is any, with the bytes of the \<open>__TEXT\<close> segment before those of \<open>__text\<close>; else \<open>.eh_frame\<close>, with the header's table if
  there is a header and a freshly built index otherwise; else \<open>.debug_frame\<close>; and none if the index cannot be built.  That
  the data is moved out on the way has no influence on what is found later.
\<close>

theorem new_module_explicit:
  "new_module oc G explicit_section_info name avmas base s =
     Val \<lparr>mod_name = name, avma_range = avmas, base_avma = base, base_svma = ex_base_svma s,
          unwind_data = explicit_unwind_data G s\<rparr>"
  by (rule new_module_explicit_eq)

end
