(* ===== verification/X86Dwarf.thy ===== *)
theory X86Dwarf
  imports Dwarf X86Rule
begin

text \<open>
  \<^verbatim>\<open>src/x86_64/dwarf.rs\<close>: unwinding one x86_64 frame with a row of DWARF call frame information, either by translating the
  row into a cacheable rule or by evaluating its rules.  Of gimli's register numbers only the three that the source
  compares with are named.
\<close>

datatype DwarfRegX86_64 = DW_RA | DW_RSP | DW_RBP | DW_Other_x86_64 u16

definition dwarf_get_x86_64 :: "UnwindRegsX86_64 \<Rightarrow> DwarfRegX86_64 \<Rightarrow> u64 option" where
  "dwarf_get_x86_64 regs r =
     (case r of DW_RA \<Rightarrow> Some (ip regs) | DW_RSP \<Rightarrow> Some (sp regs) | DW_RBP \<Rightarrow> Some (bp regs) | DW_Other_x86_64 _ \<Rightarrow> None)"

text \<open>The rest of the translation once the return address rule is the normal one.\<close>

definition translate_cfa_x86_64 ::
  "bool \<Rightarrow> (DwarfRegX86_64, 'expr) CfaRule \<Rightarrow> (DwarfRegX86_64, 'expr) RegisterRule \<Rightarrow>
   (UnwindRuleX86_64, ConversionError) result outcome" where
  "translate_cfa_x86_64 oc cfa_rule bp_rule =
     (case cfa_rule of
        CfaExpression _ \<Rightarrow> Val (Err CfaIsExpression)
      | RegisterAndOffset reg off \<Rightarrow>
          (case reg of
             DW_RSP \<Rightarrow>
               (case signed_to_u16 (idiv off 8) of
                  None \<Rightarrow> Val (Err SpOffsetDoesNotFit)
                | Some sp_offset_by_8 \<Rightarrow>
                    (case register_rule_to_cfa_offset bp_rule of
                       Err e \<Rightarrow> Val (Err e)
                     | Ok None \<Rightarrow> Val (Ok (OffsetSp sp_offset_by_8))
                     | Ok (Some bp_cfa_offset) \<Rightarrow>
                         obind (iadd_oc oc off bp_cfa_offset) (\<lambda>s.
                           Val (case signed_to_i16 (idiv s 8) of
                                  None \<Rightarrow> Err FpStorageOffsetDoesNotFit
                                | Some y \<Rightarrow> Ok (OffsetSpAndRestoreBp sp_offset_by_8 y)))))
           | DW_RBP \<Rightarrow>
               Val (case register_rule_to_cfa_offset bp_rule of
                      Err e \<Rightarrow> Err e
                    | Ok None \<Rightarrow> Err FramePointerRuleDoesNotRestoreBp
                    | Ok (Some bp_cfa_offset) \<Rightarrow>
                        if off = 16 \<and> bp_cfa_offset = - 16 then Ok UseFramePointer
                        else Err FramePointerRuleHasStrangeBpOffset)
           | _ \<Rightarrow> Val (Err CfaIsOffsetFromUnknownRegister)))"

definition translate_into_unwind_rule_x86_64 ::
  "bool \<Rightarrow> (DwarfRegX86_64, 'expr) CfaRule \<Rightarrow> (DwarfRegX86_64, 'expr) RegisterRule \<Rightarrow>
   (DwarfRegX86_64, 'expr) RegisterRule \<Rightarrow> (UnwindRuleX86_64, ConversionError) result outcome" where
  "translate_into_unwind_rule_x86_64 oc cfa_rule bp_rule ra_rule =
     (case ra_rule of
        Undefined \<Rightarrow> Val (Ok EndOfStack)
      | Offset off \<Rightarrow>
          if off = - 8 then translate_cfa_x86_64 oc cfa_rule bp_rule
          else Val (Err ReturnAddressRuleWithUnexpectedOffset)
      | _ \<Rightarrow> Val (Err ReturnAddressRuleWasWeird))"

text \<open>The generic path: evaluate the rules of the row.\<close>

definition dwarf_eval_frame_x86_64 ::
  "bool \<Rightarrow> (DwarfRegX86_64, 'expr, 'ev) GimliEval \<Rightarrow> (DwarfRegX86_64, 'expr) UnwindTableRow \<Rightarrow> UnwindRegsX86_64 \<Rightarrow> bool \<Rightarrow>
   stack_reader \<Rightarrow> (UnwindRegsX86_64 \<times> (UnwindRuleX86_64 UnwindResult, 'g DwarfUnwinderError) result) outcome" where
  "dwarf_eval_frame_x86_64 oc G row regs is_first_frame rd =
     obind (eval_cfa_rule G (row_cfa row) (dwarf_get_x86_64 regs)) (\<lambda>cfa_opt.
       case cfa_opt of
         None \<Rightarrow> Val (regs, Err CouldNotRecoverCfa)
       | Some cfa \<Rightarrow>
           obind (eval_register_rule G (row_register row DW_RBP) cfa (bp regs) (dwarf_get_x86_64 regs) rd) (\<lambda>bp_opt.
             obind (eval_register_rule G (row_register row DW_RA) cfa (ip regs) (dwarf_get_x86_64 regs) rd) (\<lambda>ra_opt.
               obind (case ra_opt of
                        Some ra \<Rightarrow> Val (Ok ra)
                      | None \<Rightarrow> obind (sub_oc oc cfa 8) (\<lambda>a. Val (ok_or (rd a) CouldNotRecoverReturnAddress))) (\<lambda>ra_res.
                 case ra_res of
                   Err e \<Rightarrow> Val (regs, Err e)
                 | Ok return_address \<Rightarrow>
                     if cfa = sp regs \<and> return_address = ip regs then Val (regs, Err DidNotAdvanceDwarf)
                     else if \<not> is_first_frame \<and> cfa < sp regs then Val (regs, Err StackPointerMovedBackwards)
                     else Val (set_sp cfa (set_bp (unwrap_or bp_opt (bp regs)) (set_ip return_address regs)),
                               Ok (Uncacheable return_address))))))"

definition dwarf_unwind_frame_x86_64 ::
  "bool \<Rightarrow> (DwarfRegX86_64, 'expr, 'ev) GimliEval \<Rightarrow> (DwarfRegX86_64, 'expr) UnwindTableRow \<Rightarrow> UnwindRegsX86_64 \<Rightarrow> bool \<Rightarrow>
   stack_reader \<Rightarrow> (UnwindRegsX86_64 \<times> (UnwindRuleX86_64 UnwindResult, 'g DwarfUnwinderError) result) outcome" where
  "dwarf_unwind_frame_x86_64 oc G row regs is_first_frame rd =
     obind (translate_into_unwind_rule_x86_64 oc (row_cfa row) (row_register row DW_RBP) (row_register row DW_RA)) (\<lambda>r.
       case r of
         Ok rule \<Rightarrow> Val (regs, Ok (ExecRule rule))
       | Err _ \<Rightarrow> dwarf_eval_frame_x86_64 oc G row regs is_first_frame rd)"

definition rule_if_uncovered_by_fde_x86_64 :: UnwindRuleX86_64 where
  "rule_if_uncovered_by_fde_x86_64 = JustReturnIfFirstFrameOtherwiseFp"

definition dwarf_x86_64 ::
  "bool \<Rightarrow> (DwarfRegX86_64, 'expr, 'ev) GimliEval \<Rightarrow>
   (DwarfRegX86_64, 'expr, UnwindRegsX86_64, UnwindRuleX86_64, 'g) DwarfUnwinding" where
  "dwarf_x86_64 oc G = \<lparr>dw_unwind_frame = dwarf_unwind_frame_x86_64 oc G,
     dw_rule_if_uncovered_by_fde = rule_if_uncovered_by_fde_x86_64\<rparr>"

section \<open>The translated rule and the generic path agree\<close>

text \<open>The offsets of a row that the rules can express without rounding.\<close>

definition aligned_row_x86_64 :: "(DwarfRegX86_64, 'expr) UnwindTableRow \<Rightarrow> bool" where
  "aligned_row_x86_64 row \<longleftrightarrow>
     (case row_cfa row of RegisterAndOffset _ off \<Rightarrow> 8 dvd sint off | CfaExpression _ \<Rightarrow> True) \<and>
     (case row_register row DW_RBP of Offset off \<Rightarrow> 8 dvd sint off | _ \<Rightarrow> True)"

text \<open>The case analysis of a successful translation.\<close>

lemma translate_x86_64_Ok:
  assumes "translate_into_unwind_rule_x86_64 oc cfa_rule bp_rule ra_rule = Val (Ok rule)"
  obtains (end_of_stack) "ra_rule = Undefined" "rule = EndOfStack"
  | (offset_sp) off x where "ra_rule = Offset (- 8)" "cfa_rule = RegisterAndOffset DW_RSP off"
      "signed_to_u16 (idiv off 8) = Some x" "bp_rule = Undefined \<or> bp_rule = SameValue" "rule = OffsetSp x"
  | (restore_bp) off x b s y where "ra_rule = Offset (- 8)" "cfa_rule = RegisterAndOffset DW_RSP off"
      "signed_to_u16 (idiv off 8) = Some x" "bp_rule = Offset b" "iadd_oc oc off b = Val s"
      "signed_to_i16 (idiv s 8) = Some y" "rule = OffsetSpAndRestoreBp x y"
  | (frame_pointer) "ra_rule = Offset (- 8)" "cfa_rule = RegisterAndOffset DW_RBP 16" "bp_rule = Offset (- 16)"
      "rule = UseFramePointer"
proof (cases "ra_rule = Undefined")
  case True
  with assms end_of_stack show thesis by (simp add: translate_into_unwind_rule_x86_64_def)
next
  case False
  with assms have ra: "ra_rule = Offset (- 8)" and t: "translate_cfa_x86_64 oc cfa_rule bp_rule = Val (Ok rule)"
    by (auto simp: translate_into_unwind_rule_x86_64_def split: RegisterRule.splits if_splits)
  from t obtain reg off where c: "cfa_rule = RegisterAndOffset reg off" "reg = DW_RSP \<or> reg = DW_RBP"
    by (cases cfa_rule) (auto simp: translate_cfa_x86_64_def split: DwarfRegX86_64.splits)
  from t obtain r where r: "register_rule_to_cfa_offset bp_rule = Ok r"
    using c by (cases "register_rule_to_cfa_offset bp_rule") (auto simp: translate_cfa_x86_64_def split: option.splits)
  show thesis
  proof (cases "reg = DW_RSP")
    case True
    show thesis
    proof (cases r)
      case None
      with r have "bp_rule = Undefined \<or> bp_rule = SameValue" by (simp add: register_rule_to_cfa_offset_Ok)
      moreover obtain x where "signed_to_u16 (idiv off 8) = Some x" "rule = OffsetSp x"
        using t c True r None by (auto simp: translate_cfa_x86_64_def split: option.splits)
      ultimately show thesis using c True ra offset_sp by blast
    next
      case (Some b)
      with r have "bp_rule = Offset b" by (simp add: register_rule_to_cfa_offset_Ok)
      then show thesis using t c True r Some ra restore_bp
        by (auto simp: translate_cfa_x86_64_def split: option.splits)
    qed
  next
    case False
    with t c r have "r = Some (- 16)" "off = 16" "rule = UseFramePointer"
      by (auto simp: translate_cfa_x86_64_def split: option.splits if_splits)
    with False r c ra frame_pointer show thesis by (simp add: register_rule_to_cfa_offset_Ok)
  qed
qed

lemma exec_x86_64_only_position:
  assumes "exec_x86_64 oc rule first regs rd = Val (regs', Ok (Some ra))" "\<And>off c e. rule \<noteq> OffsetSpAndPopRegisters off c e"
  shows "regs' = set_sp (sp regs') (set_bp (bp regs') (set_ip ra regs))"
proof (cases rule: exec_x86_64_cases [of rule first regs rd oc])
  case (continue regs\<^sub>1 new_sp new_bp)
  from assms(1) continue(2) have "return_to_caller_x86_64 oc (sp regs) regs\<^sub>1 new_sp new_bp rd = Val (regs', Ok (Some ra))"
    by simp
  then have "regs' = set_bp new_bp (set_sp new_sp (set_ip ra regs\<^sub>1))" by (cases rule: return_to_caller_cases) auto
  moreover have "regs\<^sub>1 = regs" using exec_match_frame [OF continue(1)] assms(2) by auto
  ultimately show ?thesis by (auto intro!: UnwindRegs_eqI simp: set_sp_def set_bp_def)
qed (use assms exec_match_never_returns_Some in auto)

text \<open>The generic path on a row whose CFA, base pointer and return address are found at these places.\<close>

lemma dwarf_eval_frame_x86_64_eq:
  assumes "eval_cfa_rule G (row_cfa row) (dwarf_get_x86_64 regs) = Val (Some cfa)"
    and "eval_register_rule G (row_register row DW_RBP) cfa (bp regs) (dwarf_get_x86_64 regs) rd = Val b"
    and "unwrap_or b (bp regs) = new_bp"
    and "row_register row DW_RA = Offset (- 8)" and "rd (cfa - 8) = Some ra"
    and "uint cfa < 2 ^ 63" and "8 \<le> uint cfa"
    and "sp regs \<le> cfa" and "cfa = sp regs \<longrightarrow> ra \<noteq> ip regs"
  shows "dwarf_eval_frame_x86_64 oc G row regs first rd = Val (set_sp cfa (set_bp new_bp (set_ip ra regs)), Ok (Uncacheable ra))"
proof -
  have "uint (cfa - 8) = uint cfa - 8" using assms(7) checked_sub_Some_iff [of cfa 8 "cfa - 8"] by (simp add: checked_sub_def word_le_def)
  then have "add_offset cfa (- 8) = Some (cfa - 8)" using assms(6,7) by (simp add: add_offset_Some_iff)
  then have "eval_register_rule G (row_register row DW_RA) cfa (ip regs) (dwarf_get_x86_64 regs) rd = Val (Some ra)"
    using assms(4,5) by (simp add: eval_register_rule_def)
  moreover have "\<not> cfa < sp regs" using assms(8) by (simp add: not_less)
  ultimately show ?thesis using assms(1,2,3,9) by (simp add: dwarf_eval_frame_x86_64_def)
qed

lemma eval_cfa_x86_64:
  assumes "row_cfa row = RegisterAndOffset reg off" "dwarf_get_x86_64 regs reg = Some base" "uint cfa = uint base + sint off"
    "0 \<le> sint off" "uint cfa < 2 ^ 63"
  shows "eval_cfa_rule G (row_cfa row) (dwarf_get_x86_64 regs) = Val (Some cfa)"
  using assms add_offset_Some_iff [of base off cfa] by (simp add: eval_cfa_rule_def)

text \<open>The slot of the saved base pointer is the same, counted from the stack pointer in words or from the CFA in bytes.\<close>

lemma restored_bp_slot:
  fixes off bo :: i64
  assumes s: "iadd_oc oc off bo = Val s" "signed_to_i16 (idiv s 8) = Some y"
    and a: "8 dvd sint off" "8 dvd sint bo" "0 \<le> sint off" "sint off + sint bo < 2 ^ 63"
  shows "8 * sint y = sint off + sint bo"
proof -
  have "- (2 ^ 63) \<le> sint off + sint bo"
    using sint_in_signed_range [of bo] a(3) by (simp add: in_signed_range_def)
  then have "in_signed_range 64 (sint off + sint bo)" using a(4) by (simp add: in_signed_range_def)
  then have "sint s = sint off + sint bo" using iadd_oc_exact [OF s(1)] by simp
  then show ?thesis using s(2) idiv_8 [of s] a(1,2) by (simp add: signed_to_i16_Some_iff)
qed

text \<open>What a row has to give for its evaluation to end with the registers \<open>regs'\<close>.\<close>

definition row_gives_x86_64 ::
  "(DwarfRegX86_64, 'expr, 'ev) GimliEval \<Rightarrow> (DwarfRegX86_64, 'expr) UnwindTableRow \<Rightarrow> UnwindRegsX86_64 \<Rightarrow> stack_reader \<Rightarrow>
   UnwindRegsX86_64 \<Rightarrow> bool" where
  "row_gives_x86_64 G row regs rd regs' \<longleftrightarrow>
     row_register row DW_RA = Offset (- 8) \<and>
     eval_cfa_rule G (row_cfa row) (dwarf_get_x86_64 regs) = Val (Some (sp regs')) \<and>
     (\<exists>b. eval_register_rule G (row_register row DW_RBP) (sp regs') (bp regs) (dwarf_get_x86_64 regs) rd = Val b \<and>
        unwrap_or b (bp regs) = bp regs')"

lemma translated_row_gives_x86_64:
  assumes t: "translate_into_unwind_rule_x86_64 oc (row_cfa row) (row_register row DW_RBP) (row_register row DW_RA) = Val (Ok rule)"
    and al: "aligned_row_x86_64 row"
    and ex: "exec_x86_64 oc' rule first regs rd = Val (regs', Ok (Some ra))"
    and lo: "uint (sp regs') < 2 ^ 63"
    and b: "\<forall>b. row_register row DW_RBP = Offset b \<longrightarrow> uint (sp regs') + sint b < 2 ^ 63"
  shows "row_gives_x86_64 G row regs rd regs'"
  using t
proof (cases rule: translate_x86_64_Ok)
  case end_of_stack
  with exec_x86_64_effects [OF ex] show ?thesis by simp
next
  case (offset_sp off x)
  have o: "sint off = 8 * uint x" using offset_sp(2,3) al idiv_8 [of off]
    by (simp add: aligned_row_x86_64_def signed_to_u16_Some_iff)
  have s: "uint (sp regs') = uint (sp regs) + sint off" "bp regs' = bp regs"
    using exec_x86_64_effects [OF ex] offset_sp(5) o by simp_all
  have "eval_cfa_rule G (row_cfa row) (dwarf_get_x86_64 regs) = Val (Some (sp regs'))"
    by (rule eval_cfa_x86_64 [OF offset_sp(2) _ s(1) _ lo]) (simp_all add: dwarf_get_x86_64_def o)
  then show ?thesis using offset_sp(1,4) s(2) by (auto simp: row_gives_x86_64_def eval_register_rule_def)
next
  case (restore_bp off x bo s y)
  have o: "sint off = 8 * uint x" "8 dvd sint off" "8 dvd sint bo" using restore_bp(2,3,4) al idiv_8 [of off]
    by (simp_all add: aligned_row_x86_64_def signed_to_u16_Some_iff)
  obtain loc where e: "uint (sp regs') = uint (sp regs) + sint off" "uint loc = uint (sp regs) + 8 * sint y"
    "rd loc = Some (bp regs') \<or> rd loc = None \<and> bp regs' = bp regs"
    using exec_x86_64_effects [OF ex] restore_bp(7) o by auto
  have u: "uint (sp regs') + sint bo < 2 ^ 63" using b restore_bp(4) by blast
  have "8 * sint y = sint off + sint bo"
    by (rule restored_bp_slot [OF restore_bp(5,6) o(2,3)]) (use u e(1) o(1) uint_ge_0 [of "sp regs"] uint_ge_0 [of x] in linarith)+
  then have l: "uint loc = uint (sp regs') + sint bo" using e(1,2) by simp
  have "eval_cfa_rule G (row_cfa row) (dwarf_get_x86_64 regs) = Val (Some (sp regs'))"
    by (rule eval_cfa_x86_64 [OF restore_bp(2) _ e(1) _ lo]) (simp_all add: dwarf_get_x86_64_def o(1))
  moreover have "eval_register_rule G (row_register row DW_RBP) (sp regs') (bp regs) (dwarf_get_x86_64 regs) rd = Val (rd loc)"
    unfolding restore_bp(4) by (rule eval_offset [OF lo _ l]) (use l u in simp)
  ultimately show ?thesis using restore_bp(1) e(3) by (auto simp: row_gives_x86_64_def)
next
  case frame_pointer
  have e: "uint (sp regs') = uint (bp regs) + sint (16 :: i64)" "rd (bp regs) = Some (bp regs')"
    using exec_x86_64_effects [OF ex] frame_pointer(4) by simp_all
  have "eval_cfa_rule G (row_cfa row) (dwarf_get_x86_64 regs) = Val (Some (sp regs'))"
    by (rule eval_cfa_x86_64 [OF frame_pointer(2) _ e(1) _ lo]) (simp_all add: dwarf_get_x86_64_def)
  moreover have "eval_register_rule G (row_register row DW_RBP) (sp regs') (bp regs) (dwarf_get_x86_64 regs) rd = Val (rd (bp regs))"
    unfolding frame_pointer(3) by (rule eval_offset [OF lo]) (use e lo in simp_all)
  ultimately show ?thesis using frame_pointer(1) e(2) by (simp add: row_gives_x86_64_def)
qed

lemma dwarf_rule_agrees_x86_64:
  assumes t: "translate_into_unwind_rule_x86_64 oc (row_cfa row) (row_register row DW_RBP) (row_register row DW_RA) = Val (Ok rule)"
    and al: "aligned_row_x86_64 row"
    and ex: "exec_x86_64 oc' rule first regs rd = Val (regs', Ok (Some ra))"
    and lo: "8 \<le> uint (sp regs')" "uint (sp regs') < 2 ^ 63"
    and b: "\<forall>b. row_register row DW_RBP = Offset b \<longrightarrow> uint (sp regs') + sint b < 2 ^ 63"
  shows "dwarf_eval_frame_x86_64 oc'' G row regs first rd = Val (regs', Ok (Uncacheable ra))"
proof -
  note ret = exec_x86_64_returns [OF ex]
  have only: "regs' = set_sp (sp regs') (set_bp (bp regs') (set_ip ra regs))"
    by (rule exec_x86_64_only_position [OF ex]) (use t in \<open>cases rule: translate_x86_64_Ok; simp\<close>)
  from translated_row_gives_x86_64 [OF t al ex lo(2) b, of G] obtain x where r: "row_register row DW_RA = Offset (- 8)"
    and c: "eval_cfa_rule G (row_cfa row) (dwarf_get_x86_64 regs) = Val (Some (sp regs'))"
    and e: "eval_register_rule G (row_register row DW_RBP) (sp regs') (bp regs) (dwarf_get_x86_64 regs) rd = Val x"
      "unwrap_or x (bp regs) = bp regs'"
    by (auto simp: row_gives_x86_64_def)
  show ?thesis using dwarf_eval_frame_x86_64_eq [OF c e r, of ra oc'' first] ret lo only by simp
qed

text \<open>
  C13: The cacheable rule translated from a DWARF row is a correct summary of that row: whenever executing the rule
  yields a return address, evaluating the row's CFA, base pointer and return address rules directly (the generic path)
  yields the same return address and exactly the same registers.  This is for rows whose offsets are multiples of 8 and
  addresses in the lower half of the address space, where the generic path's signed arithmetic applies.
\<close>

theorem translated_rule_agrees_with_row_x86_64:
  assumes "translate_into_unwind_rule_x86_64 oc (row_cfa row) (row_register row DW_RBP) (row_register row DW_RA) = Val (Ok rule)"
    and "aligned_row_x86_64 row"
    and "exec_x86_64 oc' rule is_first_frame regs rd = Val (regs', Ok (Some ra))"
    and "8 \<le> uint (sp regs')" and "uint (sp regs') < 2 ^ 63"
    and "\<forall>b. row_register row DW_RBP = Offset b \<longrightarrow> uint (sp regs') + sint b < 2 ^ 63"
  shows "dwarf_eval_frame_x86_64 oc'' G row regs is_first_frame rd = Val (regs', Ok (Uncacheable ra))"
  using assms by (rule dwarf_rule_agrees_x86_64)

theorem translated_rule_agrees_with_row_x86_64_witness:
  "dwarf_eval_frame_x86_64 True no_expressions
     \<lparr>row_cfa = RegisterAndOffset DW_RBP 16,
      row_register = (\<lambda>r. if r = DW_RBP then Offset (- 16) else if r = DW_RA then Offset (- 8) else Undefined)\<rparr>
     (new_regs 5 0x10 0x20) False (\<lambda>a. if a = 0x28 then Some 7 else Some 0x40) =
   Val (set_bp 0x40 (set_sp 0x30 (set_ip 7 (new_regs 5 0x10 0x20))), Ok (Uncacheable 7))"
proof -
  let ?row = "\<lparr>row_cfa = RegisterAndOffset DW_RBP 16, row_register = (\<lambda>r. if r = DW_RBP then Offset (- 16)
     else if r = DW_RA then Offset (- 8) else Undefined)\<rparr> :: (DwarfRegX86_64, unit) UnwindTableRow"
  let ?rd = "\<lambda>a :: u64. if a = 0x28 then Some (7 :: u64) else Some 0x40"
  have ex: "exec_x86_64 True UseFramePointer False (new_regs 5 0x10 0x20) ?rd =
     Val (set_bp 0x40 (set_sp 0x30 (set_ip 7 (new_regs 5 0x10 0x20))), Ok (Some 7))"
    by (rule exec_UseFramePointer) (simp_all add: checked_add_def)
  have t: "translate_into_unwind_rule_x86_64 True (row_cfa ?row) (row_register ?row DW_RBP) (row_register ?row DW_RA) =
     Val (Ok UseFramePointer)"
    by (simp add: translate_into_unwind_rule_x86_64_def translate_cfa_x86_64_def register_rule_to_cfa_offset_def)
  have al: "aligned_row_x86_64 ?row" by (simp add: aligned_row_x86_64_def)
  show ?thesis
    by (rule translated_rule_agrees_with_row_x86_64 [OF t al ex]) simp_all
qed

text \<open>
  The generic path changes registers only when it succeeds, and its success makes progress: the instruction pointer
  becomes the return address, the stack pointer the CFA; past the first frame the stack pointer does not move backwards,
  and in no frame do both the stack pointer and the code address stay the same.
\<close>

lemma dwarf_eval_frame_x86_64_progress:
  assumes "dwarf_eval_frame_x86_64 oc G row regs is_first_frame rd = Val (regs', res)"
  shows "(\<exists>e. res = Err e \<and> regs' = regs) \<or>
     (\<exists>ra. res = Ok (Uncacheable ra) \<and> ip regs' = ra \<and>
        eval_cfa_rule G (row_cfa row) (dwarf_get_x86_64 regs) = Val (Some (sp regs')) \<and>
        (is_first_frame \<or> sp regs \<le> sp regs') \<and> \<not> (sp regs' = sp regs \<and> ra = ip regs) \<and>
        (\<forall>r. r \<noteq> RBP \<longrightarrow> r \<noteq> RSP \<longrightarrow> get regs' r = get regs r))"
proof -
  from assms obtain cfa_opt where c: "eval_cfa_rule G (row_cfa row) (dwarf_get_x86_64 regs) = Val cfa_opt"
    by (auto simp: dwarf_eval_frame_x86_64_def)
  show ?thesis
  proof (cases cfa_opt)
    case None
    with assms c show ?thesis by (auto simp: dwarf_eval_frame_x86_64_def)
  next
    case (Some cfa)
    with assms c obtain b ra_res where r:
      "(case ra_res of
           Err e \<Rightarrow> Val (regs, Err e)
         | Ok return_address \<Rightarrow>
             if cfa = sp regs \<and> return_address = ip regs then Val (regs, Err DidNotAdvanceDwarf)
             else if \<not> is_first_frame \<and> cfa < sp regs then Val (regs, Err StackPointerMovedBackwards)
             else Val (set_sp cfa (set_bp (unwrap_or b (bp regs)) (set_ip return_address regs)),
                       Ok (Uncacheable return_address))) = Val (regs', res)"
      by (auto simp: dwarf_eval_frame_x86_64_def)
    show ?thesis
    proof (cases ra_res)
      case (Ok ra)
      have c': "eval_cfa_rule G (row_cfa row) (dwarf_get_x86_64 regs) = Val (Some cfa)" using c Some by simp
      show ?thesis
        using r Ok c' by (auto simp: set_sp_def set_bp_def not_less split: if_splits)
    qed (use r in auto)
  qed
qed

text \<open>
  C40: Where a DWARF row computes the return address from something else than the slot below the CFA, the check for progress
  of the generic x86_64 path is too weak to end an unwinding: it accepts two frames that lead to each other for ever.
\<close>

theorem dwarf_frames_can_cycle_x86_64:
  "\<exists>row1 row2 regs1 regs2 rd.
     dwarf_unwind_frame_x86_64 oc no_expressions row1 regs1 False rd =
       Val (regs2, Ok (Uncacheable (ip regs2)) :: (UnwindRuleX86_64 UnwindResult, unit DwarfUnwinderError) result) \<and>
     dwarf_unwind_frame_x86_64 oc no_expressions row2 regs2 False rd =
       Val (regs1, Ok (Uncacheable (ip regs1)) :: (UnwindRuleX86_64 UnwindResult, unit DwarfUnwinderError) result)"
proof -
  let ?row = "\<lambda>k. \<lparr>row_cfa = RegisterAndOffset DW_RSP 0, row_register = (\<lambda>r. if r = DW_RA then ValOffset k else SameValue)\<rparr>"
  let ?regs = "\<lambda>i. new_regs i 0x1000 0"
  have a: "add_offset 0x1000 0 = Some 0x1000" "add_offset 0x1000 0x100 = Some 0x1100" "add_offset 0x1000 0x200 = Some 0x1200"
    by (simp_all add: add_offset_Some_iff)
  have r: "set_sp 0x1000 (set_bp 0 (set_ip j (?regs i))) = ?regs j" for i j
    by (intro UnwindRegs_eqI) (simp_all add: new_regs_def set_sp_def set_bp_def set_ip_def set_reg_def ip_def get_def)
  have "dwarf_unwind_frame_x86_64 oc no_expressions (?row 0x200) (?regs 0x1100) False (\<lambda>_. None) =
      Val (?regs 0x1200, Ok (Uncacheable 0x1200) :: (UnwindRuleX86_64 UnwindResult, unit DwarfUnwinderError) result)"
    "dwarf_unwind_frame_x86_64 oc no_expressions (?row 0x100) (?regs 0x1200) False (\<lambda>_. None) =
      Val (?regs 0x1100, Ok (Uncacheable 0x1100) :: (UnwindRuleX86_64 UnwindResult, unit DwarfUnwinderError) result)"
    by (simp_all add: dwarf_unwind_frame_x86_64_def translate_into_unwind_rule_x86_64_def dwarf_eval_frame_x86_64_def
        eval_cfa_rule_def eval_register_rule_def dwarf_get_x86_64_def a r)
  then show ?thesis by (metis new_regs_simps(1))
qed

end
