(* ===== verification/A64Dwarf.thy ===== *)
theory A64Dwarf
  imports Dwarf A64Rule
begin

text \<open>
  \<^verbatim>\<open>src/aarch64/dwarf.rs\<close>: unwinding one aarch64 frame with a row of DWARF call frame information, either by translating the
  row into a cacheable rule or by evaluating its rules.  Of gimli's register numbers only the three that the source
  compares with are named.
\<close>

datatype DwarfRegAarch64 = DW_SP | DW_X29 | DW_X30 | DW_Other_aarch64 u16

definition dwarf_get_aarch64 :: "UnwindRegsAarch64 \<Rightarrow> DwarfRegAarch64 \<Rightarrow> u64 option" where
  "dwarf_get_aarch64 regs r =
     (case r of DW_SP \<Rightarrow> Some (a64_sp regs) | DW_X29 \<Rightarrow> Some (a64_fp regs) | DW_X30 \<Rightarrow> Some (a64_lr regs)
      | DW_Other_aarch64 _ \<Rightarrow> None)"

text \<open>\<open>i16::try_from((offset + cfa_offset) / 8)\<close> with the error of the conversion.\<close>

definition storage_offset :: "bool \<Rightarrow> i64 \<Rightarrow> i64 \<Rightarrow> ConversionError \<Rightarrow> (i16, ConversionError) result outcome" where
  "storage_offset oc off cfa_offset e = obind (iadd_oc oc off cfa_offset) (\<lambda>s. Val (ok_or (signed_to_i16 (idiv s 8)) e))"

definition translate_sp_aarch64 ::
  "bool \<Rightarrow> i64 \<Rightarrow> (DwarfRegAarch64, 'expr) RegisterRule \<Rightarrow> (DwarfRegAarch64, 'expr) RegisterRule \<Rightarrow>
   (UnwindRuleAarch64, ConversionError) result outcome" where
  "translate_sp_aarch64 oc off fp_rule lr_rule =
     (case signed_to_u16 (idiv off 16) of
        None \<Rightarrow> Val (Err SpOffsetDoesNotFit)
      | Some sp_offset_by_16 \<Rightarrow>
          (case register_rule_to_cfa_offset lr_rule of
             Err e \<Rightarrow> Val (Err e)
           | Ok lr_cfa_offset \<Rightarrow>
               (case register_rule_to_cfa_offset fp_rule of
                  Err e \<Rightarrow> Val (Err e)
                | Ok fp_cfa_offset \<Rightarrow>
                    (case (lr_cfa_offset, fp_cfa_offset) of
                       (None, Some _) \<Rightarrow> Val (Err RestoringFpButNotLr)
                     | (None, None) \<Rightarrow>
                         Val (Ok (if lr_rule = Undefined then OffsetSpIfFirstFrameOtherwiseStackEndsHere sp_offset_by_16
                                  else OffsetSp sp_offset_by_16))
                     | (Some lr_off, None) \<Rightarrow>
                         obind (storage_offset oc off lr_off LrStorageOffsetDoesNotFit) (\<lambda>r.
                           Val (map_result (OffsetSpAndRestoreLr sp_offset_by_16) r))
                     | (Some lr_off, Some fp_off) \<Rightarrow>
                         obind (storage_offset oc off lr_off LrStorageOffsetDoesNotFit) (\<lambda>r.
                           case r of
                             Err e \<Rightarrow> Val (Err e)
                           | Ok z \<Rightarrow>
                               obind (storage_offset oc off fp_off FpStorageOffsetDoesNotFit) (\<lambda>r'.
                                 Val (map_result (\<lambda>y. OffsetSpAndRestoreFpAndLr sp_offset_by_16 y z) r')))))))"

definition translate_fp_aarch64 ::
  "bool \<Rightarrow> i64 \<Rightarrow> (DwarfRegAarch64, 'expr) RegisterRule \<Rightarrow> (DwarfRegAarch64, 'expr) RegisterRule \<Rightarrow>
   (UnwindRuleAarch64, ConversionError) result outcome" where
  "translate_fp_aarch64 oc off fp_rule lr_rule =
     (case register_rule_to_cfa_offset lr_rule of
        Err e \<Rightarrow> Val (Err e)
      | Ok None \<Rightarrow> Val (Err FramePointerRuleDoesNotRestoreLr)
      | Ok (Some lr_off) \<Rightarrow>
          (case register_rule_to_cfa_offset fp_rule of
             Err e \<Rightarrow> Val (Err e)
           | Ok None \<Rightarrow> Val (Err FramePointerRuleDoesNotRestoreFp)
           | Ok (Some fp_off) \<Rightarrow>
               if off = 16 \<and> fp_off = - 16 \<and> lr_off = - 8 then Val (Ok UseFramePointer)
               else (case signed_to_u16 (idiv off 8) of
                       None \<Rightarrow> Val (Err SpOffsetFromFpDoesNotFit)
                     | Some x \<Rightarrow>
                         obind (storage_offset oc off lr_off LrStorageOffsetDoesNotFit) (\<lambda>r.
                           case r of
                             Err e \<Rightarrow> Val (Err e)
                           | Ok z \<Rightarrow>
                               obind (storage_offset oc off fp_off FpStorageOffsetDoesNotFit) (\<lambda>r'.
                                 Val (map_result (\<lambda>y. UseFramepointerWithOffsets x y z) r'))))))"

definition translate_into_unwind_rule_aarch64 ::
  "bool \<Rightarrow> (DwarfRegAarch64, 'expr) CfaRule \<Rightarrow> (DwarfRegAarch64, 'expr) RegisterRule \<Rightarrow>
   (DwarfRegAarch64, 'expr) RegisterRule \<Rightarrow> (UnwindRuleAarch64, ConversionError) result outcome" where
  "translate_into_unwind_rule_aarch64 oc cfa_rule fp_rule lr_rule =
     (case cfa_rule of
        RegisterAndOffset reg off \<Rightarrow>
          (case reg of
             DW_SP \<Rightarrow> translate_sp_aarch64 oc off fp_rule lr_rule
           | DW_X29 \<Rightarrow> translate_fp_aarch64 oc off fp_rule lr_rule
           | _ \<Rightarrow> Val (Err CfaIsOffsetFromUnknownRegister))
      | CfaExpression _ \<Rightarrow> Val (Err CfaIsExpression))"

definition dwarf_eval_frame_aarch64 ::
  "(DwarfRegAarch64, 'expr, 'ev) GimliEval \<Rightarrow> (DwarfRegAarch64, 'expr) UnwindTableRow \<Rightarrow> UnwindRegsAarch64 \<Rightarrow> bool \<Rightarrow>
   stack_reader \<Rightarrow> (UnwindRegsAarch64 \<times> (UnwindRuleAarch64 UnwindResult, 'g DwarfUnwinderError) result) outcome" where
  "dwarf_eval_frame_aarch64 G row regs is_first_frame rd =
     obind (eval_cfa_rule G (row_cfa row) (dwarf_get_aarch64 regs)) (\<lambda>cfa_opt.
       case cfa_opt of
         None \<Rightarrow> Val (regs, Err CouldNotRecoverCfa)
       | Some cfa \<Rightarrow>
           if \<not> is_first_frame \<and> cfa \<le> a64_sp regs then Val (regs, Err StackPointerMovedBackwards)
           else
             obind (eval_register_rule G (row_register row DW_X29) cfa (a64_fp regs) (dwarf_get_aarch64 regs) rd) (\<lambda>fp_opt.
               if \<not> is_first_frame \<and> fp_opt = None then Val (regs, Err CouldNotRecoverFramePointer)
               else
                 obind (eval_register_rule G (row_register row DW_X30) cfa (a64_lr regs) (dwarf_get_aarch64 regs) rd) (\<lambda>lr_opt.
                   if \<not> is_first_frame \<and> lr_opt = None then Val (regs, Err CouldNotRecoverReturnAddress)
                   else
                     let fp = unwrap_or fp_opt (a64_fp regs); lr = unwrap_or lr_opt (a64_lr regs) in
                     Val (set_lr lr (set_a64_sp cfa (set_a64_fp fp regs)), Ok (Uncacheable lr)))))"

definition dwarf_unwind_frame_aarch64 ::
  "bool \<Rightarrow> (DwarfRegAarch64, 'expr, 'ev) GimliEval \<Rightarrow> (DwarfRegAarch64, 'expr) UnwindTableRow \<Rightarrow> UnwindRegsAarch64 \<Rightarrow> bool \<Rightarrow>
   stack_reader \<Rightarrow> (UnwindRegsAarch64 \<times> (UnwindRuleAarch64 UnwindResult, 'g DwarfUnwinderError) result) outcome" where
  "dwarf_unwind_frame_aarch64 oc G row regs is_first_frame rd =
     obind (translate_into_unwind_rule_aarch64 oc (row_cfa row) (row_register row DW_X29) (row_register row DW_X30)) (\<lambda>r.
       case r of
         Ok rule \<Rightarrow> Val (regs, Ok (ExecRule rule))
       | Err _ \<Rightarrow> dwarf_eval_frame_aarch64 G row regs is_first_frame rd)"

definition rule_if_uncovered_by_fde_aarch64 :: UnwindRuleAarch64 where
  "rule_if_uncovered_by_fde_aarch64 = NoOpIfFirstFrameOtherwiseFp"

definition dwarf_aarch64 ::
  "bool \<Rightarrow> (DwarfRegAarch64, 'expr, 'ev) GimliEval \<Rightarrow>
   (DwarfRegAarch64, 'expr, UnwindRegsAarch64, UnwindRuleAarch64, 'g) DwarfUnwinding" where
  "dwarf_aarch64 oc G = \<lparr>dw_unwind_frame = dwarf_unwind_frame_aarch64 oc G,
     dw_rule_if_uncovered_by_fde = rule_if_uncovered_by_fde_aarch64\<rparr>"

section \<open>Successful translations\<close>

text \<open>The shape of a row that was translated, with the exact offsets the rule stands for.\<close>

definition aligned_row_aarch64 :: "(DwarfRegAarch64, 'expr) UnwindTableRow \<Rightarrow> bool" where
  "aligned_row_aarch64 row \<longleftrightarrow>
     (case row_cfa row of
        RegisterAndOffset reg off \<Rightarrow> if reg = DW_SP then 16 dvd sint off else 8 dvd sint off
      | CfaExpression _ \<Rightarrow> True) \<and>
     (\<forall>r \<in> {DW_X29, DW_X30}. case row_register row r of Offset off \<Rightarrow> 8 dvd sint off | _ \<Rightarrow> True)"

lemma storage_offset_Ok:
  assumes "storage_offset oc off o' e = Val (Ok y)"
  shows "\<exists>s. iadd_oc oc off o' = Val s \<and> signed_to_i16 (idiv s 8) = Some y"
  using assms by (auto simp: storage_offset_def) (metis ok_or.simps option.exhaust result.distinct(1) result.inject(1))

lemma storage_offset_map_Ok:
  assumes "obind (storage_offset oc off o' e) (\<lambda>r. Val (map_result f r)) = Val (Ok rule)"
  obtains y where "storage_offset oc off o' e = Val (Ok y)" "rule = f y"
proof -
  from assms obtain r where "storage_offset oc off o' e = Val r" "map_result f r = Ok rule" by auto
  with that show thesis by (cases r) auto
qed

text \<open>Two storage offsets, one after the other, as in the last case of both translations.\<close>

lemma storage_offsets_Ok:
  assumes "obind (storage_offset oc off lo e) (\<lambda>r.
      case r of Err e \<Rightarrow> Val (Err e) | Ok z \<Rightarrow> obind (storage_offset oc off fo e') (\<lambda>r'. Val (map_result (\<lambda>y. f y z) r'))) = Val (Ok rule)"
  obtains y z where "storage_offset oc off lo e = Val (Ok z)" "storage_offset oc off fo e' = Val (Ok y)" "rule = f y z"
proof -
  from assms obtain r where r: "storage_offset oc off lo e = Val r" by auto
  with assms obtain z where z: "r = Ok z" by (cases r) auto
  with assms r have "obind (storage_offset oc off fo e') (\<lambda>r'. Val (map_result (\<lambda>y. f y z) r')) = Val (Ok rule)" by simp
  then show thesis by (rule storage_offset_map_Ok) (use that r z in simp)
qed

lemma translate_sp_aarch64_Ok:
  assumes t: "translate_sp_aarch64 oc off fp_rule lr_rule = Val (Ok rule)"
  obtains (offset_sp) x where "signed_to_u16 (idiv off 16) = Some x" "fp_rule = Undefined \<or> fp_rule = SameValue"
      "lr_rule = Undefined \<and> rule = OffsetSpIfFirstFrameOtherwiseStackEndsHere x \<or> lr_rule = SameValue \<and> rule = OffsetSp x"
  | (restore_lr) x lo z where "signed_to_u16 (idiv off 16) = Some x"
      "fp_rule = Undefined \<or> fp_rule = SameValue" "lr_rule = Offset lo"
      "storage_offset oc off lo LrStorageOffsetDoesNotFit = Val (Ok z)" "rule = OffsetSpAndRestoreLr x z"
  | (restore_both) x lo fo y z where "signed_to_u16 (idiv off 16) = Some x"
      "fp_rule = Offset fo" "lr_rule = Offset lo" "storage_offset oc off lo LrStorageOffsetDoesNotFit = Val (Ok z)"
      "storage_offset oc off fo FpStorageOffsetDoesNotFit = Val (Ok y)" "rule = OffsetSpAndRestoreFpAndLr x y z"
proof -
  from t obtain x where x: "signed_to_u16 (idiv off 16) = Some x"
    by (cases "signed_to_u16 (idiv off 16)") (auto simp: translate_sp_aarch64_def)
  from t x obtain l where l: "register_rule_to_cfa_offset lr_rule = Ok l"
    by (cases "register_rule_to_cfa_offset lr_rule") (auto simp: translate_sp_aarch64_def)
  from t x l obtain f where f: "register_rule_to_cfa_offset fp_rule = Ok f"
    by (cases "register_rule_to_cfa_offset fp_rule") (auto simp: translate_sp_aarch64_def split: option.splits)
  consider "l = None" "f = None" | lo where "l = Some lo" "f = None" | lo fo where "l = Some lo" "f = Some fo"
    using t x l f by (cases l; cases f) (auto simp: translate_sp_aarch64_def)
  then show thesis
  proof cases
    case 1
    with t l f x show thesis
      by (intro offset_sp [of x]) (auto simp: translate_sp_aarch64_def register_rule_to_cfa_offset_Ok split: if_splits)
  next
    case 2
    with t l f x have "obind (storage_offset oc off lo LrStorageOffsetDoesNotFit) (\<lambda>r. Val (map_result (OffsetSpAndRestoreLr x) r)) = Val (Ok rule)"
      by (simp add: translate_sp_aarch64_def)
    then show thesis by (rule storage_offset_map_Ok) (use 2 l f x restore_lr in \<open>auto simp: register_rule_to_cfa_offset_Ok\<close>)
  next
    case 3
    with t l f x have "obind (storage_offset oc off lo LrStorageOffsetDoesNotFit) (\<lambda>r. case r of Err e \<Rightarrow> Val (Err e) | Ok z \<Rightarrow>
        obind (storage_offset oc off fo FpStorageOffsetDoesNotFit) (\<lambda>r'. Val (map_result (\<lambda>y. OffsetSpAndRestoreFpAndLr x y z) r'))) = Val (Ok rule)"
      by (simp add: translate_sp_aarch64_def)
    then show thesis by (rule storage_offsets_Ok) (use 3 l f x restore_both in \<open>auto simp: register_rule_to_cfa_offset_Ok\<close>)
  qed
qed

lemma translate_fp_aarch64_Ok:
  assumes t: "translate_fp_aarch64 oc off fp_rule lr_rule = Val (Ok rule)"
  obtains (frame_pointer) "off = 16" "fp_rule = Offset (- 16)" "lr_rule = Offset (- 8)" "rule = UseFramePointer"
  | (frame_offsets) x lo fo y z where "signed_to_u16 (idiv off 8) = Some x"
      "fp_rule = Offset fo" "lr_rule = Offset lo" "storage_offset oc off lo LrStorageOffsetDoesNotFit = Val (Ok z)"
      "storage_offset oc off fo FpStorageOffsetDoesNotFit = Val (Ok y)" "rule = UseFramepointerWithOffsets x y z"
proof -
  from t obtain l where l: "register_rule_to_cfa_offset lr_rule = Ok (Some l)"
    by (auto simp: translate_fp_aarch64_def split: result.splits option.splits)
  with t obtain f where f: "register_rule_to_cfa_offset fp_rule = Ok (Some f)"
    by (auto simp: translate_fp_aarch64_def split: result.splits option.splits)
  have r: "lr_rule = Offset l" "fp_rule = Offset f" using l f by (simp_all add: register_rule_to_cfa_offset_Ok)
  show thesis
  proof (cases "off = 16 \<and> f = - 16 \<and> l = - 8")
    case True
    with t l f r show thesis by (intro frame_pointer) (simp_all add: translate_fp_aarch64_def)
  next
    case False
    with t l f obtain x where x: "signed_to_u16 (idiv off 8) = Some x"
      by (cases "signed_to_u16 (idiv off 8)") (auto simp: translate_fp_aarch64_def)
    with t l f False have "obind (storage_offset oc off l LrStorageOffsetDoesNotFit) (\<lambda>r. case r of Err e \<Rightarrow> Val (Err e) | Ok z \<Rightarrow>
        obind (storage_offset oc off f FpStorageOffsetDoesNotFit) (\<lambda>r'. Val (map_result (\<lambda>y. UseFramepointerWithOffsets x y z) r'))) = Val (Ok rule)"
      by (auto simp: translate_fp_aarch64_def)
    then show thesis by (rule storage_offsets_Ok) (use r x frame_offsets in simp)
  qed
qed

lemma translate_aarch64_Ok:
  assumes "translate_into_unwind_rule_aarch64 oc cfa_rule fp_rule lr_rule = Val (Ok rule)"
  obtains (offset_sp) off x where "cfa_rule = RegisterAndOffset DW_SP off" "signed_to_u16 (idiv off 16) = Some x"
      "fp_rule = Undefined \<or> fp_rule = SameValue"
      "lr_rule = Undefined \<and> rule = OffsetSpIfFirstFrameOtherwiseStackEndsHere x \<or> lr_rule = SameValue \<and> rule = OffsetSp x"
  | (restore_lr) off x lo z where "cfa_rule = RegisterAndOffset DW_SP off" "signed_to_u16 (idiv off 16) = Some x"
      "fp_rule = Undefined \<or> fp_rule = SameValue" "lr_rule = Offset lo"
      "storage_offset oc off lo LrStorageOffsetDoesNotFit = Val (Ok z)" "rule = OffsetSpAndRestoreLr x z"
  | (restore_both) off x lo fo y z where "cfa_rule = RegisterAndOffset DW_SP off" "signed_to_u16 (idiv off 16) = Some x"
      "fp_rule = Offset fo" "lr_rule = Offset lo" "storage_offset oc off lo LrStorageOffsetDoesNotFit = Val (Ok z)"
      "storage_offset oc off fo FpStorageOffsetDoesNotFit = Val (Ok y)" "rule = OffsetSpAndRestoreFpAndLr x y z"
  | (frame_pointer) "cfa_rule = RegisterAndOffset DW_X29 16" "fp_rule = Offset (- 16)" "lr_rule = Offset (- 8)"
      "rule = UseFramePointer"
  | (frame_offsets) off x lo fo y z where "cfa_rule = RegisterAndOffset DW_X29 off" "signed_to_u16 (idiv off 8) = Some x"
      "fp_rule = Offset fo" "lr_rule = Offset lo" "storage_offset oc off lo LrStorageOffsetDoesNotFit = Val (Ok z)"
      "storage_offset oc off fo FpStorageOffsetDoesNotFit = Val (Ok y)" "rule = UseFramepointerWithOffsets x y z"
proof -
  from assms obtain reg off where c: "cfa_rule = RegisterAndOffset reg off" "reg = DW_SP \<or> reg = DW_X29"
    by (cases cfa_rule) (auto simp: translate_into_unwind_rule_aarch64_def split: DwarfRegAarch64.splits)
  show thesis
  proof (cases "reg = DW_SP")
    case True
    then have "translate_sp_aarch64 oc off fp_rule lr_rule = Val (Ok rule)"
      using assms c by (simp add: translate_into_unwind_rule_aarch64_def)
    then show thesis by (cases rule: translate_sp_aarch64_Ok) (use c True offset_sp restore_lr restore_both in simp_all)
  next
    case False
    then have "translate_fp_aarch64 oc off fp_rule lr_rule = Val (Ok rule)"
      using assms c by (auto simp: translate_into_unwind_rule_aarch64_def)
    then show thesis by (cases rule: translate_fp_aarch64_Ok) (use c False frame_pointer frame_offsets in simp_all)
  qed
qed

section \<open>The translated rule and the generic path agree\<close>

lemma exec_aarch64_new_registers:
  assumes "exec_aarch64 oc rule first regs rd = Val (regs', Ok (Some ra))"
  obtains new_lr where "ra = strip_ptr_auth (lr_mask regs) new_lr" "first \<or> a64_sp regs < a64_sp regs'"
    "regs' = set_lr new_lr (set_a64_sp (a64_sp regs') (set_a64_fp (a64_fp regs') regs))"
    "documented_effect_aarch64 rule first rd (a64_lr regs, a64_sp regs, a64_fp regs) (new_lr, a64_sp regs', a64_fp regs')"
proof (cases rule: exec_aarch64_cases [of oc rule first regs rd])
  case (continue new_lr new_sp new_fp ra')
  with assms have r: "regs' = set_a64_fp new_fp (set_a64_sp new_sp (set_lr new_lr regs))" "ra' = ra" by auto
  have "first \<or> a64_sp regs < a64_sp regs'" using exec_aarch64_returns [OF assms] by auto
  then show thesis
    by (rule that [of new_lr, rotated])
       (use r continue(2) exec_match_aarch64_effect [OF continue(1)] in \<open>simp_all add: a64_setter_defs\<close>)
qed (use assms exec_match_aarch64_never_Some in auto)

text \<open>The generic path on a row whose CFA, frame pointer and link register are found at these places.\<close>

lemma dwarf_eval_frame_aarch64_eq:
  assumes "eval_cfa_rule G (row_cfa row) (dwarf_get_aarch64 regs) = Val (Some cfa)"
    and "eval_register_rule G (row_register row DW_X29) cfa (a64_fp regs) (dwarf_get_aarch64 regs) rd = Val f"
    and "eval_register_rule G (row_register row DW_X30) cfa (a64_lr regs) (dwarf_get_aarch64 regs) rd = Val l"
    and "first \<or> f \<noteq> None \<and> l \<noteq> None \<and> a64_sp regs < cfa"
    and "unwrap_or f (a64_fp regs) = fp" and "unwrap_or l (a64_lr regs) = lr"
  shows "dwarf_eval_frame_aarch64 G row regs first rd =
    Val (set_lr lr (set_a64_sp cfa (set_a64_fp fp regs)), Ok (Uncacheable lr))"
  using assms by (auto simp: dwarf_eval_frame_aarch64_def Let_def)

lemma slot_holds_eval:
  assumes "slot_holds rd base y v" "uint base + sint off = uint cfa" "8 * sint y = sint off + sint o'"
    "uint cfa < 2 ^ 63" "uint cfa + sint o' < 2 ^ 63"
  shows "eval_register_rule G (Offset o') cfa w get_reg rd = Val (Some v)"
proof -
  obtain loc where loc: "uint loc = uint base + 8 * sint y" "rd loc = Some v" using assms(1) by (auto simp: slot_holds_def)
  then have "uint loc = uint cfa + sint o'" using assms(2,3) by linarith
  with eval_offset [of cfa loc o' G w get_reg rd] assms(4,5) loc(2) show ?thesis by simp
qed

definition low_slots_aarch64 :: "(DwarfRegAarch64, 'expr) UnwindTableRow \<Rightarrow> u64 \<Rightarrow> bool" where
  "low_slots_aarch64 row cfa \<longleftrightarrow> uint cfa < 2 ^ 63 \<and>
     (\<forall>o'. row_register row DW_X29 = Offset o' \<or> row_register row DW_X30 = Offset o' \<longrightarrow> uint cfa + sint o' < 2 ^ 63)"

text \<open>Evaluating the CFA, a stored register and a register that is kept.\<close>

lemma eval_cfa_register:
  assumes "row_cfa row = RegisterAndOffset reg off" "get_reg reg = Some base" "uint base + sint off = uint cfa" "0 \<le> sint off"
    "uint cfa < 2 ^ 63"
  shows "eval_cfa_rule G (row_cfa row) get_reg = Val (Some cfa)"
  using assms add_offset_Some_iff [of base off cfa] by (simp add: eval_cfa_rule_def)

lemma eval_stored_register:
  assumes st: "storage_offset oc off o' e = Val (Ok y)" and h: "slot_holds rd base y v" and b: "uint base + sint off = uint cfa"
    and a: "8 dvd sint off" "0 \<le> sint off" "8 dvd sint o'" and c: "uint cfa < 2 ^ 63" "uint cfa + sint o' < 2 ^ 63"
  shows "eval_register_rule G (Offset o') cfa w get_reg rd = Val (Some v)"
proof -
  obtain s where s: "iadd_oc oc off o' = Val s" "signed_to_i16 (idiv s 8) = Some y" using storage_offset_Ok [OF st] by blast
  have "sint off + sint o' < 2 ^ 63" using c(2) b uint_ge_0 [of base] by linarith
  then have "8 * sint y = sint off + sint o'" using storage_slot [OF s a(1) a(3) a(2)] by simp
  from slot_holds_eval [OF h b this c] show ?thesis .
qed

lemma eval_kept_register:
  "r = Undefined \<or> r = SameValue \<Longrightarrow> eval_register_rule G r cfa w get_reg rd = Val (if r = Undefined then None else Some w)"
  by (auto simp: eval_register_rule_def)

text \<open>What a row has to give for its evaluation to end with the registers \<open>regs'\<close>.\<close>

definition row_gives_aarch64 ::
  "(DwarfRegAarch64, 'expr, 'ev) GimliEval \<Rightarrow> (DwarfRegAarch64, 'expr) UnwindTableRow \<Rightarrow> bool \<Rightarrow> UnwindRegsAarch64 \<Rightarrow> stack_reader \<Rightarrow>
   UnwindRegsAarch64 \<Rightarrow> u64 \<Rightarrow> bool" where
  "row_gives_aarch64 G row first regs rd regs' new_lr \<longleftrightarrow>
     eval_cfa_rule G (row_cfa row) (dwarf_get_aarch64 regs) = Val (Some (a64_sp regs')) \<and>
     (\<exists>f l. eval_register_rule G (row_register row DW_X29) (a64_sp regs') (a64_fp regs) (dwarf_get_aarch64 regs) rd = Val f \<and>
        eval_register_rule G (row_register row DW_X30) (a64_sp regs') (a64_lr regs) (dwarf_get_aarch64 regs) rd = Val l \<and>
        (first \<or> f \<noteq> None \<and> l \<noteq> None) \<and> unwrap_or f (a64_fp regs) = a64_fp regs' \<and> unwrap_or l (a64_lr regs) = new_lr)"

text \<open>Both registers stored at offsets from a base register.\<close>

lemma row_gives_both_stored:
  assumes r: "row_cfa row = RegisterAndOffset reg off" "row_register row DW_X29 = Offset fo" "row_register row DW_X30 = Offset lo"
    and b: "dwarf_get_aarch64 regs reg = Some base" "uint base + sint off = uint (a64_sp regs')"
    and s: "storage_offset oc off lo e = Val (Ok z)" "storage_offset oc off fo e' = Val (Ok y)"
    and h: "slot_holds rd base y (a64_fp regs')" "slot_holds rd base z new_lr"
    and a: "8 dvd sint off" "0 \<le> sint off" "8 dvd sint lo" "8 dvd sint fo" and l: "low_slots_aarch64 row (a64_sp regs')"
  shows "row_gives_aarch64 G row first regs rd regs' new_lr"
proof -
  have u: "uint (a64_sp regs') < 2 ^ 63" "uint (a64_sp regs') + sint lo < 2 ^ 63" "uint (a64_sp regs') + sint fo < 2 ^ 63"
    using l r(2,3) unfolding low_slots_aarch64_def by blast+
  show ?thesis
    unfolding row_gives_aarch64_def r(2,3)
    by (simp add: eval_cfa_register [where get_reg = "dwarf_get_aarch64 regs" and row = row, OF r(1) b a(2) u(1)]
      eval_stored_register [OF s(1) h(2) b(2) a(1,2,3) u(1,2)] eval_stored_register [OF s(2) h(1) b(2) a(1,2,4) u(1,3)])
qed

lemma row_gives_frame_record:
  assumes r: "row_cfa row = RegisterAndOffset DW_X29 16" "row_register row DW_X29 = Offset (- 16)" "row_register row DW_X30 = Offset (- 8)"
    and c: "uint (a64_sp regs') < 2 ^ 63" "uint (a64_sp regs') = uint (a64_fp regs) + 16"
    and h: "rd (a64_fp regs) = Some (a64_fp regs')" "rd (a64_fp regs + 8) = Some new_lr"
  shows "row_gives_aarch64 G row first regs rd regs' new_lr"
proof -
  let ?cfa = "a64_sp regs'" and ?get = "dwarf_get_aarch64 regs"
  have p: "uint (a64_fp regs + 8) = uint (a64_fp regs) + 8"
    using c(2) uint_lt2p [of ?cfa] checked_add_Some_iff [of "a64_fp regs" 8 "a64_fp regs + 8"] by (simp add: checked_add_def)
  have "eval_cfa_rule G (row_cfa row) ?get = Val (Some ?cfa)"
    by (rule eval_cfa_register [OF r(1)]) (use c in \<open>simp_all add: dwarf_get_aarch64_def\<close>)
  moreover have "eval_register_rule G (row_register row DW_X30) ?cfa (a64_lr regs) ?get rd = Val (Some new_lr)"
    unfolding r(3) h(2) [symmetric] by (rule eval_offset [OF c(1)]) (use c p in simp_all)
  moreover have "eval_register_rule G (row_register row DW_X29) ?cfa (a64_fp regs) ?get rd = Val (Some (a64_fp regs'))"
    unfolding r(2) h(1) [symmetric] by (rule eval_offset [OF c(1)]) (use c in simp_all)
  ultimately show ?thesis by (simp add: row_gives_aarch64_def)
qed

lemma translated_row_gives:
  assumes t: "translate_into_unwind_rule_aarch64 oc (row_cfa row) (row_register row DW_X29) (row_register row DW_X30) = Val (Ok rule)"
    and al: "aligned_row_aarch64 row" and lo: "low_slots_aarch64 row (a64_sp regs')"
    and fp: "first \<or> row_register row DW_X29 \<noteq> Undefined"
    and eff: "documented_effect_aarch64 rule first rd (a64_lr regs, a64_sp regs, a64_fp regs) (new_lr, a64_sp regs', a64_fp regs')"
  shows "row_gives_aarch64 G row first regs rd regs' new_lr"
proof -
  let ?cfa = "a64_sp regs'" and ?get = "dwarf_get_aarch64 regs"
  have lo': "uint ?cfa < 2 ^ 63" using lo by (simp add: low_slots_aarch64_def)
  from t show ?thesis
  proof (cases rule: translate_aarch64_Ok)
    case (offset_sp off x)
    have o: "sint off = 16 * uint x" using offset_sp(1,2) al idiv_16 [of off]
      by (simp add: aligned_row_aarch64_def signed_to_u16_Some_iff)
    have e: "first" "uint (a64_sp regs) + sint off = uint ?cfa" "a64_fp regs' = a64_fp regs" "new_lr = a64_lr regs"
      using offset_sp(4) eff o by (auto simp: documented_effect_aarch64_def)
    have "eval_cfa_rule G (row_cfa row) ?get = Val (Some ?cfa)"
      by (rule eval_cfa_register [OF offset_sp(1) _ e(2) _ lo']) (simp_all add: dwarf_get_aarch64_def o)
    then show ?thesis using offset_sp(3,4) e
      by (auto simp: row_gives_aarch64_def eval_kept_register)
  next
    case (restore_lr off x l z)
    have o: "sint off = 16 * uint x" "8 dvd sint off" "8 dvd sint l" using restore_lr(1,2,4) al idiv_16 [of off]
      by (auto simp: aligned_row_aarch64_def signed_to_u16_Some_iff)
    have e: "uint (a64_sp regs) + sint off = uint ?cfa" "a64_fp regs' = a64_fp regs" "slot_holds rd (a64_sp regs) z new_lr"
      using restore_lr(6) eff o by (auto simp: documented_effect_aarch64_def)
    have "eval_cfa_rule G (row_cfa row) ?get = Val (Some ?cfa)"
      by (rule eval_cfa_register [OF restore_lr(1) _ e(1) _ lo']) (simp_all add: dwarf_get_aarch64_def o(1))
    moreover have "uint ?cfa + sint l < 2 ^ 63" using lo restore_lr(4) by (simp add: low_slots_aarch64_def)
    then have "eval_register_rule G (row_register row DW_X30) ?cfa (a64_lr regs) ?get rd = Val (Some new_lr)"
      unfolding restore_lr(4) by (intro eval_stored_register [OF restore_lr(5) e(3,1) o(2) _ o(3) lo']) (simp_all add: o(1))
    ultimately show ?thesis using restore_lr(3) e(2) fp
      by (auto simp: row_gives_aarch64_def eval_kept_register)
  next
    case (restore_both off x l fo y z)
    then have "sint off = 16 * uint x" "8 dvd sint off" "8 dvd sint l" "8 dvd sint fo" using al idiv_16 [of off]
      by (auto simp: aligned_row_aarch64_def signed_to_u16_Some_iff)
    then show ?thesis
      by (intro row_gives_both_stored [OF restore_both(1,3,4) _ _ restore_both(5,6) _ _ _ _ _ _ lo])
         (use restore_both(7) eff in \<open>auto simp: documented_effect_aarch64_def dwarf_get_aarch64_def\<close>)
  next
    case frame_pointer
    then show ?thesis
      by (intro row_gives_frame_record [OF frame_pointer(1-3) lo']) (use eff in \<open>auto simp: documented_effect_aarch64_def\<close>)
  next
    case (frame_offsets off x l fo y z)
    then have "sint off = 8 * uint x" "8 dvd sint off" "8 dvd sint l" "8 dvd sint fo" using al idiv_8 [of off]
      by (auto simp: aligned_row_aarch64_def signed_to_u16_Some_iff)
    then show ?thesis
      by (intro row_gives_both_stored [OF frame_offsets(1,3,4) _ _ frame_offsets(5,6) _ _ _ _ _ _ lo])
         (use frame_offsets(7) eff in \<open>auto simp: documented_effect_aarch64_def dwarf_get_aarch64_def\<close>)
  qed
qed

lemma dwarf_rule_agrees_aarch64:
  assumes t: "translate_into_unwind_rule_aarch64 oc (row_cfa row) (row_register row DW_X29) (row_register row DW_X30) = Val (Ok rule)"
    and al: "aligned_row_aarch64 row"
    and ex: "exec_aarch64 oc' rule first regs rd = Val (regs', Ok (Some ra))"
    and lo: "low_slots_aarch64 row (a64_sp regs')"
    and fp: "first \<or> row_register row DW_X29 \<noteq> Undefined"
  shows "\<exists>new_lr. dwarf_eval_frame_aarch64 G row regs first rd = Val (regs', Ok (Uncacheable new_lr)) \<and>
    ra = strip_ptr_auth (lr_mask regs) new_lr"
proof -
  from ex obtain new_lr where ra: "ra = strip_ptr_auth (lr_mask regs) new_lr" and adv: "first \<or> a64_sp regs < a64_sp regs'"
    and regs': "regs' = set_lr new_lr (set_a64_sp (a64_sp regs') (set_a64_fp (a64_fp regs') regs))"
    and eff: "documented_effect_aarch64 rule first rd (a64_lr regs, a64_sp regs, a64_fp regs) (new_lr, a64_sp regs', a64_fp regs')"
    by (rule exec_aarch64_new_registers)
  from translated_row_gives [OF t al lo fp eff, of G] obtain f l where
    "eval_cfa_rule G (row_cfa row) (dwarf_get_aarch64 regs) = Val (Some (a64_sp regs'))"
    "eval_register_rule G (row_register row DW_X29) (a64_sp regs') (a64_fp regs) (dwarf_get_aarch64 regs) rd = Val f"
    "eval_register_rule G (row_register row DW_X30) (a64_sp regs') (a64_lr regs) (dwarf_get_aarch64 regs) rd = Val l"
    "first \<or> f \<noteq> None \<and> l \<noteq> None" "unwrap_or f (a64_fp regs) = a64_fp regs'" "unwrap_or l (a64_lr regs) = new_lr"
    by (auto simp: row_gives_aarch64_def)
  then have "dwarf_eval_frame_aarch64 G row regs first rd =
      Val (set_lr new_lr (set_a64_sp (a64_sp regs') (set_a64_fp (a64_fp regs') regs)), Ok (Uncacheable new_lr))"
    using adv by (intro dwarf_eval_frame_aarch64_eq) auto
  with regs' ra show ?thesis by auto
qed

text \<open>
  C14: The cacheable rule translated from a DWARF row of an aarch64 frame is a correct summary of that row: whenever the
  rule yields a return address, evaluating the row directly recovers exactly the same registers, and the address the
  rule returns is the one the row gives without its authentication bits.  This is for rows whose offsets the rules can
  express, addresses in the lower half of the address space and, past the first frame, a row that says how to recover
  the frame pointer.
\<close>

theorem translated_rule_agrees_with_row_aarch64:
  assumes "translate_into_unwind_rule_aarch64 oc (row_cfa row) (row_register row DW_X29) (row_register row DW_X30) = Val (Ok rule)"
    and "aligned_row_aarch64 row"
    and "exec_aarch64 oc' rule is_first_frame regs rd = Val (regs', Ok (Some ra))"
    and "low_slots_aarch64 row (a64_sp regs')"
    and "is_first_frame \<or> row_register row DW_X29 \<noteq> Undefined"
  shows "\<exists>new_lr. dwarf_eval_frame_aarch64 G row regs is_first_frame rd = Val (regs', Ok (Uncacheable new_lr)) \<and>
    ra = strip_ptr_auth (lr_mask regs) new_lr"
  using assms by (rule dwarf_rule_agrees_aarch64)

definition example_row_aarch64 :: "(DwarfRegAarch64, unit) UnwindTableRow" where
  "example_row_aarch64 = \<lparr>row_cfa = RegisterAndOffset DW_X29 16,
     row_register = (\<lambda>r. case r of DW_X29 \<Rightarrow> Offset (- 16) | DW_X30 \<Rightarrow> Offset (- 8) | _ \<Rightarrow> Undefined)\<rparr>"

theorem translated_rule_agrees_with_row_aarch64_witness:
  "\<exists>new_lr. dwarf_eval_frame_aarch64 no_expressions example_row_aarch64 (new_regs_aarch64 0x100300 0x10 0x20) False
       (\<lambda>a. if a = 0x28 then Some 0x100200 else Some 0x40) =
     Val (set_a64_fp 0x40 (set_a64_sp 0x30 (set_lr 0x100200 (new_regs_aarch64 0x100300 0x10 0x20))), Ok (Uncacheable new_lr)) \<and>
     0x100200 = strip_ptr_auth (lr_mask (new_regs_aarch64 0x100300 0x10 0x20)) new_lr"
proof -
  let ?rd = "\<lambda>a :: u64. if a = 0x28 then Some (0x100200 :: u64) else Some 0x40"
  let ?regs = "new_regs_aarch64 0x100300 0x10 0x20"
  let ?regs' = "set_a64_fp 0x40 (set_a64_sp 0x30 (set_lr 0x100200 ?regs))"
  let ?row = example_row_aarch64
  have ex: "exec_aarch64 True UseFramePointer False ?regs ?rd = Val (?regs', Ok (Some 0x100200))"
    by (simp add: exec_aarch64_def read_frame_record_def checked_add_def read_or_err_def add_oc_def check_frame_progress_def)
  have t: "translate_into_unwind_rule_aarch64 True (row_cfa ?row) (row_register ?row DW_X29) (row_register ?row DW_X30) =
     Val (Ok UseFramePointer)"
    by (simp add: translate_into_unwind_rule_aarch64_def translate_fp_aarch64_def register_rule_to_cfa_offset_def example_row_aarch64_def)
  have al: "aligned_row_aarch64 ?row" by (simp add: aligned_row_aarch64_def example_row_aarch64_def)
  have lo: "low_slots_aarch64 ?row (a64_sp ?regs')" by (simp add: low_slots_aarch64_def example_row_aarch64_def)
  show ?thesis
    by (rule translated_rule_agrees_with_row_aarch64 [OF t al ex lo]) (simp add: example_row_aarch64_def)
qed

lemma dwarf_eval_frame_aarch64_cases:
  assumes "dwarf_eval_frame_aarch64 G row regs first rd = Val (regs', res)"
  shows "(\<exists>e. res = Err e \<and> regs' = regs) \<or>
     (\<exists>lr cfa fp. res = Ok (Uncacheable lr) \<and> regs' = set_lr lr (set_a64_sp cfa (set_a64_fp fp regs)) \<and>
        eval_cfa_rule G (row_cfa row) (dwarf_get_aarch64 regs) = Val (Some cfa) \<and> (first \<or> a64_sp regs < cfa))"
proof -
  from assms obtain cfa_opt where c: "eval_cfa_rule G (row_cfa row) (dwarf_get_aarch64 regs) = Val cfa_opt"
    by (auto simp: dwarf_eval_frame_aarch64_def)
  show ?thesis
  proof (cases cfa_opt)
    case None
    with assms c show ?thesis by (auto simp: dwarf_eval_frame_aarch64_def)
  next
    case (Some cfa)
    show ?thesis
    proof (cases "\<not> first \<and> cfa \<le> a64_sp regs")
      case True
      with assms c Some show ?thesis by (auto simp: dwarf_eval_frame_aarch64_def)
    next
      case False
      with assms c Some obtain f where f:
        "(if \<not> first \<and> f = None then Val (regs, Err CouldNotRecoverFramePointer)
          else obind (eval_register_rule G (row_register row DW_X30) cfa (a64_lr regs) (dwarf_get_aarch64 regs) rd) (\<lambda>lr_opt.
            if \<not> first \<and> lr_opt = None then Val (regs, Err CouldNotRecoverReturnAddress)
            else let fp = unwrap_or f (a64_fp regs); lr = unwrap_or lr_opt (a64_lr regs) in
              Val (set_lr lr (set_a64_sp cfa (set_a64_fp fp regs)), Ok (Uncacheable lr)))) = Val (regs', res)"
        unfolding dwarf_eval_frame_aarch64_def by auto
      have "(\<exists>e. res = Err e \<and> regs' = regs) \<or>
        (\<exists>lr fp. res = Ok (Uncacheable lr) \<and> regs' = set_lr lr (set_a64_sp cfa (set_a64_fp fp regs)))"
        using f by (auto simp: Let_def split: if_splits)
      moreover have "first \<or> a64_sp regs < cfa" using False by (simp add: not_le)
      ultimately show ?thesis using c Some by blast
    qed
  qed
qed

text \<open>
  The generic path of aarch64 changes registers only when it succeeds; its success sets the stack pointer to the CFA
  and the link register to the return address without its authentication bits, and past the first frame strictly
  increases the stack pointer.
\<close>

lemma dwarf_eval_frame_aarch64_progress:
  assumes "dwarf_eval_frame_aarch64 G row regs is_first_frame rd = Val (regs', res)"
  shows "(\<exists>e. res = Err e \<and> regs' = regs) \<or>
     (\<exists>lr. res = Ok (Uncacheable lr) \<and> a64_lr regs' = strip_ptr_auth (lr_mask regs) lr \<and>
        eval_cfa_rule G (row_cfa row) (dwarf_get_aarch64 regs) = Val (Some (a64_sp regs')) \<and>
        (is_first_frame \<or> a64_sp regs < a64_sp regs') \<and> lr_mask regs' = lr_mask regs)"
  using dwarf_eval_frame_aarch64_cases [OF assms] by auto

text \<open>A row whose frame pointer is a value offset, which no cacheable rule expresses, and a stack with a signed return
  address.\<close>

definition signed_row_aarch64 :: "(DwarfRegAarch64, unit) UnwindTableRow" where
  "signed_row_aarch64 = \<lparr>row_cfa = RegisterAndOffset DW_SP 16,
     row_register = (\<lambda>r. case r of DW_X29 \<Rightarrow> ValOffset 0 | DW_X30 \<Rightarrow> Offset (- 8) | _ \<Rightarrow> Undefined)\<rparr>"

definition signed_stack_aarch64 :: stack_reader where
  "signed_stack_aarch64 a = (if a = 0x18 then Some 0xAB00000000100200 else None)"

lemma signed_row_unwinds:
  "dwarf_unwind_frame_aarch64 oc no_expressions signed_row_aarch64 (new_with_ptr_auth_mask new_24_40 0x100300 0x10 0x20) False
     signed_stack_aarch64 =
   Val (set_lr 0xAB00000000100200 (set_a64_sp 0x20 (set_a64_fp 0x20 (new_with_ptr_auth_mask new_24_40 0x100300 0x10 0x20))),
        Ok (Uncacheable 0xAB00000000100200))"
proof -
  have a: "add_offset 0x10 0x10 = Some 0x20" "add_offset 0x20 0 = Some 0x20" "add_offset 0x20 (- 8) = Some 0x18"
    by (simp_all add: add_offset_Some_iff)
  have u: "signed_to_u16 (idiv (0x10 :: i64) 16) = Some 1" by (simp add: signed_to_u16_Some_iff idiv_def signed_divide_int_def)
  show ?thesis
    by (simp add: dwarf_unwind_frame_aarch64_def translate_into_unwind_rule_aarch64_def translate_sp_aarch64_def u
        register_rule_to_cfa_offset_def signed_row_aarch64_def dwarf_eval_frame_aarch64_def eval_cfa_rule_def
        dwarf_get_aarch64_def eval_register_rule_def a signed_stack_aarch64_def new_with_ptr_auth_mask_def)
qed

text \<open>
  C34: The generic path returns the link register with its authentication bits.  A cacheable rule strips them from the
  address it returns; here only the register is stripped, so for a signed return address the frame address handed to
  the caller is not the link register of the new registers, although the old registers were stripped.
\<close>

theorem dwarf_unwind_frame_aarch64_returns_signed_address:
  "\<exists>row regs rd regs' ra. dwarf_unwind_frame_aarch64 oc no_expressions row regs False rd =
     Val (regs', Ok (Uncacheable ra) :: (UnwindRuleAarch64 UnwindResult, unit DwarfUnwinderError) result) \<and>
     lr_stripped regs \<and> a64_lr regs' = strip_ptr_auth (lr_mask regs) ra \<and> a64_lr regs' \<noteq> ra"
proof -
  let ?regs = "new_with_ptr_auth_mask new_24_40 0x100300 0x10 0x20"
  let ?regs' = "set_lr 0xAB00000000100200 (set_a64_sp 0x20 (set_a64_fp 0x20 ?regs))"
  have "a64_lr ?regs' = strip_ptr_auth (lr_mask ?regs) 0xAB00000000100200" "a64_lr ?regs' \<noteq> 0xAB00000000100200"
    by (simp_all add: new_with_ptr_auth_mask_def strip_ptr_auth_def new_24_40_def mask_eq_exp_minus_1)
  then show ?thesis using signed_row_unwinds [of oc] by (metis lr_stripped_setters(2))
qed

end
