(* ===== verification/X86Analysis.thy ===== *)
theory X86Analysis
  imports X86Rule
begin

text \<open>
  \<^verbatim>\<open>src/x86_64/instruction_analysis\<close>: recognising a function prologue or epilogue of x86_64 from the instruction bytes
  around the program counter, and \<open>rule_from_instruction_analysis\<close> of \<^verbatim>\<open>src/instruction_analysis.rs\<close>.

  \<open>split_at(pc_offset)\<close> panics when the offset is beyond the bytes; the trait leaves it to the caller to exclude that.
  For the epilogue the analysis is proved sound against a small model of the instructions it recognises.
\<close>

section \<open>Prologue\<close>

definition is_push :: "u8 \<Rightarrow> bool" where
  "is_push b \<longleftrightarrow> b AND 0xf8 = 0x50"

definition is_pop :: "u8 \<Rightarrow> bool" where
  "is_pop b \<longleftrightarrow> b AND 0xf8 = 0x58"

definition is_prefix_byte :: "u8 \<Rightarrow> bool" where
  "is_prefix_byte b \<longleftrightarrow> b AND 0xfe = 0x40"

fun is_next_instruction_expected_in_prologue :: "u8 list \<Rightarrow> bool" where
  "is_next_instruction_expected_in_prologue (b0 # b1 # b2 # b3 # bs) \<longleftrightarrow>
     is_push b0 \<or> is_prefix_byte b0 \<and> is_push b1 \<or>
     [b0, b1] = [0x83, 0xec] \<or> [b0, b1, b2] = [0x48, 0x83, 0xec] \<or>
     [b0, b1] = [0x81, 0xec] \<or> [b0, b1, b2] = [0x48, 0x81, 0xec] \<or>
     [b0, b1, b2] = [0x48, 0x89, 0xe5]"
| "is_next_instruction_expected_in_prologue _ \<longleftrightarrow> False"

definition frame_setup :: "u8 list" where
  "frame_setup = [0x55, 0x48, 0x89, 0xe5]"

text \<open>The loop of the prologue analysis, walking backwards from \<open>cursor\<close>.\<close>

function prologue_loop :: "bool \<Rightarrow> u8 list \<Rightarrow> nat \<Rightarrow> u16 \<Rightarrow> UnwindRuleX86_64 option outcome" where
  "prologue_loop oc bytes cursor n =
     (if 4 \<le> cursor \<and> take 4 (drop (cursor - 4) bytes) = frame_setup then Val (Some UseFramePointer)
      else if 1 \<le> cursor \<and> is_push (bytes ! (cursor - 1))
      then obind (add_oc oc n 1) (\<lambda>n'.
             prologue_loop oc bytes
               (if 1 \<le> cursor - 1 \<and> is_prefix_byte (bytes ! (cursor - 1 - 1)) then cursor - 1 - 1 else cursor - 1) n')
      else obind (add_oc oc n 1) (\<lambda>n'. Val (Some (OffsetSp n'))))"
  by auto
termination by (relation "measure (\<lambda>(oc, bytes, cursor, n). cursor)") auto

declare prologue_loop.simps [simp del]

definition rule_from_prologue_analysis_x86_64 :: "bool \<Rightarrow> u8 list \<Rightarrow> nat \<Rightarrow> UnwindRuleX86_64 option outcome" where
  "rule_from_prologue_analysis_x86_64 oc text_bytes pc_offset =
     (if pc_offset \<le> length text_bytes
      then if is_next_instruction_expected_in_prologue (drop pc_offset text_bytes)
           then prologue_loop oc (take pc_offset text_bytes) pc_offset 0
           else Val None
      else Panic IndexOutOfBounds)"

section \<open>Epilogue\<close>

text \<open>The loop of the epilogue analysis: the stack pointer and base pointer offsets at the return or tail call.\<close>

fun epilogue_loop ::
  "bool \<Rightarrow> u8 option \<Rightarrow> u16 \<Rightarrow> i16 option \<Rightarrow> u8 list \<Rightarrow> (u16 \<times> i16 option) option outcome" where
  "epilogue_loop oc prev n bp_off [] = Val None"
| "epilogue_loop oc prev n bp_off (b # bs) =
     (if b = 0xc3 then Val (Some (n, bp_off))
      else if b = 0xeb \<or> b = 0xe9 \<or> b = 0xff then
        Val (if n \<noteq> 0 then Some (n, bp_off)
             else case prev of
                    Some p \<Rightarrow> if is_pop p then Some (n, bp_off) else None
                  | None \<Rightarrow> None)
      else if b = 0x5d then obind (add_oc oc n 1) (\<lambda>n'. epilogue_loop oc prev n' (Some n) bs)
      else if 0x58 \<le> b \<and> b \<le> 0x5f then obind (add_oc oc n 1) (\<lambda>n'. epilogue_loop oc prev n' bp_off bs)
      else case bs of
             b1 # bs' \<Rightarrow>
               if is_prefix_byte b \<and> is_pop b1 then obind (add_oc oc n 1) (\<lambda>n'. epilogue_loop oc prev n' bp_off bs')
               else Val None
           | [] \<Rightarrow> Val None)"

definition rule_from_epilogue_analysis_x86_64 :: "bool \<Rightarrow> u8 list \<Rightarrow> nat \<Rightarrow> UnwindRuleX86_64 option outcome" where
  "rule_from_epilogue_analysis_x86_64 oc text_bytes pc_offset =
     (if pc_offset \<le> length text_bytes
      then let before = take pc_offset text_bytes in
           obind (epilogue_loop oc (if before = [] then None else Some (last before)) 0 None (drop pc_offset text_bytes)) (\<lambda>r.
             case r of
               None \<Rightarrow> Val None
             | Some (n, bp_off) \<Rightarrow>
                 if n = 0 then Val (Some JustReturn)
                 else obind (add_oc oc n 1) (\<lambda>n'.
                   Val (Some (case bp_off of
                                Some y \<Rightarrow> OffsetSpAndRestoreBp n' y
                              | None \<Rightarrow> OffsetSp n'))))
      else Panic IndexOutOfBounds)"

text \<open>The provided method of the trait: the epilogue is tried when no prologue is recognised.\<close>

definition rule_from_instruction_analysis_x86_64 :: "bool \<Rightarrow> u8 list \<Rightarrow> nat \<Rightarrow> UnwindRuleX86_64 option outcome" where
  "rule_from_instruction_analysis_x86_64 oc text_bytes pc_offset =
     obind (rule_from_prologue_analysis_x86_64 oc text_bytes pc_offset) (\<lambda>r.
       case r of
         Some rule \<Rightarrow> Val (Some rule)
       | None \<Rightarrow> rule_from_epilogue_analysis_x86_64 oc text_bytes pc_offset)"

section \<open>A model of the instructions of an epilogue\<close>

text \<open>The number of the register popped by \<open>pop\<close>, with the REX prefix if there is one; 4 is \<open>rsp\<close>, 5 is \<open>rbp\<close>.\<close>

definition pop_register :: "u8 \<Rightarrow> u8 \<Rightarrow> nat" where
  "pop_register rex b = unat (b AND 7) + (if rex AND 1 = 1 then 8 else 0)"

text \<open>Popping the stack in a state of the stack and base pointers.  The other registers are not tracked.\<close>

definition do_pop :: "stack_reader \<Rightarrow> nat \<Rightarrow> u64 \<times> u64 \<Rightarrow> (u64 \<times> u64) option" where
  "do_pop rd r st =
     (case st of (s, b) \<Rightarrow>
        if r = 4 then None
        else if r = 5 then (case rd s of None \<Rightarrow> None | Some v \<Rightarrow> Some (s + 8, v))
        else Some (s + 8, b))"

text \<open>Running the code until it returns or jumps.\<close>

fun run_to_exit :: "stack_reader \<Rightarrow> u8 list \<Rightarrow> u64 \<times> u64 \<Rightarrow> (u64 \<times> u64) option" where
  "run_to_exit rd [] st = None"
| "run_to_exit rd (b # bs) st =
     (if b = 0xc3 \<or> b = 0xeb \<or> b = 0xe9 \<or> b = 0xff then Some st
      else if is_pop b then
        (case do_pop rd (pop_register 0 b) st of None \<Rightarrow> None | Some st' \<Rightarrow> run_to_exit rd bs st')
      else case bs of
             b1 # bs' \<Rightarrow>
               if is_prefix_byte b \<and> is_pop b1
               then (case do_pop rd (pop_register b b1) st of None \<Rightarrow> None | Some st' \<Rightarrow> run_to_exit rd bs' st')
               else None
           | [] \<Rightarrow> None)"

text \<open>A redundant prefix on \<open>pop rbp\<close>, which no assembler emits.\<close>

fun no_redundant_prefix :: "u8 list \<Rightarrow> bool" where
  "no_redundant_prefix (b # b1 # bs) \<longleftrightarrow> \<not> (b = 0x40 \<and> b1 = 0x5d) \<and> no_redundant_prefix (b1 # bs)"
| "no_redundant_prefix _ \<longleftrightarrow> True"

lemma pop_bytes:
  "(is_pop b \<longleftrightarrow> 0x58 \<le> b \<and> b \<le> 0x5f) \<and>
   (is_pop b \<longrightarrow> (pop_register 0 b = 4 \<longleftrightarrow> b = 0x5c) \<and> (pop_register 0 b = 5 \<longleftrightarrow> b = 0x5d) \<and>
      pop_register 0x41 b \<noteq> 4 \<and> pop_register 0x41 b \<noteq> 5 \<and>
      (pop_register 0x40 b = 4 \<longleftrightarrow> b = 0x5c) \<and> (pop_register 0x40 b = 5 \<longleftrightarrow> b = 0x5d)) \<and>
   (is_prefix_byte b \<longleftrightarrow> b = 0x40 \<or> b = 0x41) \<and> (is_push b \<longrightarrow> \<not> is_prefix_byte b \<and> b \<noteq> 0xe5)"
  by (rule all_bytes [of _ b]) code_simp

lemmas pop_byte_facts = pop_bytes [THEN conjunct1] pop_bytes [THEN conjunct2, THEN conjunct1, rule_format]

lemma prefix_byte_iff: "is_prefix_byte b \<longleftrightarrow> b = 0x40 \<or> b = 0x41"
  using pop_bytes [of b] by blast

section \<open>Soundness of the epilogue analysis\<close>

text \<open>After \<open>n\<close> pops from \<open>s0\<close>, the base pointer is the original one or was loaded from the recorded slot.\<close>

definition bp_tracked :: "stack_reader \<Rightarrow> u64 \<Rightarrow> u64 \<Rightarrow> u16 \<Rightarrow> i16 option \<Rightarrow> u64 \<Rightarrow> bool" where
  "bp_tracked rd s0 b0 n bp_off b =
     (case bp_off of None \<Rightarrow> b = b0 | Some y \<Rightarrow> unat y < unat n \<and> rd (s0 + 8 * of_nat (unat y)) = Some b)"

lemma unat_add_1: "unat n + 1 < 2 ^ 16 \<Longrightarrow> unat (n + 1) = unat n + 1" for n :: u16
  by (simp add: unat_word_ariths)

text \<open>One pop, as the analysis and the machine see it.\<close>

lemma pop_step:
  assumes "unat n + 1 < 2 ^ 15" "bp_tracked rd s0 b0 n bp_off b"
    and "do_pop rd r (s0 + 8 * of_nat (unat n), b) = Some st"
  shows "\<exists>b'. st = (s0 + 8 * of_nat (unat (n + 1)), b') \<and>
     bp_tracked rd s0 b0 (n + 1) (if r = 5 then Some n else bp_off) b'"
proof -
  have u: "unat (n + 1) = unat n + 1" using assms(1) by (intro unat_add_1) simp
  have "(of_nat (unat (n + 1)) :: u64) = of_nat (unat n) + 1" by (simp only: u of_nat_add of_nat_1)
  then have s: "s0 + 8 * of_nat (unat n) + 8 = s0 + 8 * of_nat (unat (n + 1))" by (simp only: distrib_left) simp
  show ?thesis
  proof (cases "r = 5")
    case True
    with assms(3) obtain v where v: "rd (s0 + 8 * of_nat (unat n)) = Some v" "st = (s0 + 8 * of_nat (unat n) + 8, v)"
      by (auto simp: do_pop_def split: option.splits)
    with True u show ?thesis unfolding v(2) s by (auto simp: bp_tracked_def)
  next
    case False
    with assms(3) have "st = (s0 + 8 * of_nat (unat n) + 8, b)" by (auto simp: do_pop_def split: if_splits)
    with False assms(2) u show ?thesis unfolding s by (auto simp: bp_tracked_def split: option.splits)
  qed
qed

text \<open>
  A byte that does not leave the function starts a pop, with or without a prefix: the analysis counts it and goes on
  with the bytes after it, where the machine goes on too.
\<close>

lemma epilogue_loop_pop:
  assumes e: "epilogue_loop oc prev n bp_off (x # bs) = Val (Some r)" and p: "is_pop x"
  shows "epilogue_loop oc prev (n + 1) (if x = 0x5d then Some n else bp_off) bs = Val (Some r)"
proof -
  have x: "x \<noteq> 0xc3" "x \<noteq> 0xeb" "x \<noteq> 0xe9" "x \<noteq> 0xff" "0x58 \<le> x \<and> x \<le> 0x5f"
    using pop_byte_facts(1) [of x] p by auto
  with e obtain n' where "add_oc oc n 1 = Val n'" "epilogue_loop oc prev n' (if x = 0x5d then Some n else bp_off) bs = Val (Some r)"
    by (auto split: if_splits)
  with add_oc_ValD show ?thesis by blast
qed

lemma epilogue_loop_prefixed_pop:
  assumes e: "epilogue_loop oc prev n bp_off (x # y # bs) = Val (Some r)" and p: "is_prefix_byte x" "\<not> is_pop x" "is_pop y"
  shows "epilogue_loop oc prev (n + 1) bp_off bs = Val (Some r)"
proof -
  have "\<not> (0x58 \<le> x \<and> x \<le> 0x5f)" "x \<noteq> 0xc3" "x \<noteq> 0xeb" "x \<noteq> 0xe9" "x \<noteq> 0xff"
    using pop_byte_facts(1) [of x] p(1,2) unfolding prefix_byte_iff by auto
  then have "\<exists>n'. add_oc oc n 1 = Val n' \<and> epilogue_loop oc prev n' bp_off bs = Val (Some r)"
    using e p(1,3) by (auto split: if_splits)
  with add_oc_ValD show ?thesis by blast
qed

lemma epilogue_step:
  assumes e: "epilogue_loop oc prev n bp_off (x # bs) = Val (Some r)" and run: "run_to_exit rd (x # bs) st = Some st'"
    and x: "x \<noteq> 0xc3" "x \<noteq> 0xeb" "x \<noteq> 0xe9" "x \<noteq> 0xff" and pre: "no_redundant_prefix (x # bs)"
  obtains k bs' st\<^sub>1 where "do_pop rd k st = Some st\<^sub>1" "run_to_exit rd bs' st\<^sub>1 = Some st'"
    "epilogue_loop oc prev (n + 1) (if k = 5 then Some n else bp_off) bs' = Val (Some r)"
    "no_redundant_prefix bs'" "length bs' < length (x # bs)"
proof (cases "is_pop x")
  case True
  from run x True obtain st\<^sub>1 where st: "do_pop rd (pop_register 0 x) st = Some st\<^sub>1" "run_to_exit rd bs st\<^sub>1 = Some st'"
    by (auto split: option.splits)
  have "(pop_register 0 x = 5) = (x = 0x5d)" using pop_byte_facts(2) [of x] True by simp
  with epilogue_loop_pop [OF e True] have "epilogue_loop oc prev (n + 1) (if pop_register 0 x = 5 then Some n else bp_off) bs = Val (Some r)"
    by simp
  from that [OF st this] pre show thesis by (cases bs) simp_all
next
  case False
  with run x obtain y bs' where bs: "bs = y # bs'" "is_prefix_byte x" "is_pop y" by (auto split: list.splits if_splits)
  with run x False obtain st\<^sub>1 where st: "do_pop rd (pop_register x y) st = Some st\<^sub>1" "run_to_exit rd bs' st\<^sub>1 = Some st'"
    by (auto split: option.splits)
  have "pop_register x y \<noteq> 5" using bs pre pop_byte_facts(2) [of y] unfolding prefix_byte_iff by auto
  with epilogue_loop_prefixed_pop [OF e [unfolded bs(1)] bs(2) False bs(3)]
  have "epilogue_loop oc prev (n + 1) (if pop_register x y = 5 then Some n else bp_off) bs' = Val (Some r)" by simp
  from that [OF st this] pre bs(1) show thesis by (cases bs') simp_all
qed

lemma epilogue_loop_sound:
  assumes "epilogue_loop oc prev n bp_off bs = Val (Some (m, bp_off'))"
    and "run_to_exit rd bs (s0 + 8 * of_nat (unat n), b) = Some (s', b')"
    and "no_redundant_prefix bs" "unat n + length bs < 2 ^ 15" "bp_tracked rd s0 b0 n bp_off b"
  shows "s' = s0 + 8 * of_nat (unat m) \<and> unat m < 2 ^ 15 \<and> bp_tracked rd s0 b0 m bp_off' b'"
  using assms
proof (induction "length bs" arbitrary: n bp_off bs b rule: less_induct)
  case less
  show ?case
  proof (cases bs)
    case (Cons x xs)
    show ?thesis
    proof (cases "x = 0xc3 \<or> x = 0xeb \<or> x = 0xe9 \<or> x = 0xff")
      case True
      then have "m = n \<and> bp_off' = bp_off" "s' = s0 + 8 * of_nat (unat n)" "b' = b"
        using less.prems(1,2) Cons by (auto split: if_splits option.splits)
      then show ?thesis using less.prems(4,5) by simp
    next
      case False
      then have x: "x \<noteq> 0xc3" "x \<noteq> 0xeb" "x \<noteq> 0xe9" "x \<noteq> 0xff" by auto
      from less.prems(1-3) obtain k bs' st where st: "do_pop rd k (s0 + 8 * of_nat (unat n), b) = Some st"
        and go: "run_to_exit rd bs' st = Some (s', b')"
          "epilogue_loop oc prev (n + 1) (if k = 5 then Some n else bp_off) bs' = Val (Some (m, bp_off'))" "no_redundant_prefix bs'"
        and len: "length bs' < length bs" unfolding Cons by (blast elim: epilogue_step [OF _ _ x])
      have n1: "unat n + 1 < 2 ^ 15" using less.prems(4) Cons by simp
      then have "unat (n + 1) + length bs' < 2 ^ 15" using unat_add_1 [of n] less.prems(4) len by simp
      moreover from pop_step [OF n1 less.prems(5) st] obtain b1 where "st = (s0 + 8 * of_nat (unat (n + 1)), b1)"
        "bp_tracked rd s0 b0 (n + 1) (if k = 5 then Some n else bp_off) b1" by blast
      ultimately show ?thesis using less.hyps [OF len go(2) _ go(3)] go(1) by blast
    qed
  qed (use less.prems in simp)
qed

lemma sp_after_offset:
  fixes s s' :: u64
  assumes "uint s' = uint s + 8 * uint (x :: u16)"
  shows "s' = s + 8 * of_nat (unat x)"
proof -
  have "s' = word_of_int (uint s + 8 * uint x)" using assms by (metis word_of_int_uint)
  then show ?thesis by simp
qed

text \<open>The rule the analysis makes of an epilogue with \<open>m\<close> pops.\<close>

definition rule_of_pops :: "u16 \<Rightarrow> i16 option \<Rightarrow> UnwindRuleX86_64" where
  "rule_of_pops m bp_off = (if m = 0 then JustReturn
     else case bp_off of Some y \<Rightarrow> OffsetSpAndRestoreBp (m + 1) y | None \<Rightarrow> OffsetSp (m + 1))"

lemma epilogue_rule_Some:
  assumes "rule_from_epilogue_analysis_x86_64 oc text_bytes pc_offset = Val (Some rule)"
  obtains prev m bp_off where "epilogue_loop oc prev 0 None (drop pc_offset text_bytes) = Val (Some (m, bp_off))"
    "rule = rule_of_pops m bp_off"
proof -
  have "pc_offset \<le> length text_bytes" using assms by (simp add: rule_from_epilogue_analysis_x86_64_def split: if_splits)
  with assms obtain prev e where l: "epilogue_loop oc prev 0 None (drop pc_offset text_bytes) = Val e"
    and e: "(case e of None \<Rightarrow> Val None | Some (n, bp_off) \<Rightarrow> if n = 0 then Val (Some JustReturn)
       else obind (add_oc oc n 1) (\<lambda>n'. Val (Some (case bp_off of Some y \<Rightarrow> OffsetSpAndRestoreBp n' y | None \<Rightarrow> OffsetSp n'))))
       = Val (Some rule)"
    by (simp only: rule_from_epilogue_analysis_x86_64_def Let_def if_True obind_Val_iff) blast
  from e obtain m bp_off where m: "e = Some (m, bp_off)" by (cases e) auto
  show thesis
    by (rule that [OF l [unfolded m]]) (use e m add_oc_ValD in \<open>fastforce simp: rule_of_pops_def split: if_splits\<close>)
qed

text \<open>Where the rule of an analysed epilogue of \<open>m\<close> pops leaves the two registers.\<close>

lemma epilogue_rule_sp:
  assumes ex: "exec_x86_64 oc (rule_of_pops m bp_off) first regs rd = Val (regs', Ok (Some ra))" and m: "unat m < 2 ^ 15"
  shows "sp regs' = sp regs + 8 * of_nat (unat m) + 8"
proof -
  have "uint (sp regs') = uint (sp regs) + 8 * uint (m + 1)"
    using exec_x86_64_effects [OF ex] by (auto simp: rule_of_pops_def split: if_splits option.splits)
  then have s1: "sp regs' = sp regs + 8 * of_nat (unat (m + 1))" by (rule sp_after_offset)
  have "unat (m + 1) = unat m + 1" using m by (intro unat_add_1) simp
  then have s2: "(of_nat (unat (m + 1)) :: u64) = of_nat (unat m) + 1" by (simp only: of_nat_add of_nat_1)
  show ?thesis unfolding s1 s2 distrib_left by (simp only: mult_1_right add.assoc)
qed

lemma epilogue_rule_bp:
  assumes ex: "exec_x86_64 oc (rule_of_pops m bp_off) first regs rd = Val (regs', Ok (Some ra))" and m: "unat m < 2 ^ 15"
    and t: "bp_tracked rd (sp regs) (bp regs) m bp_off b"
  shows "bp regs' = b"
proof (cases bp_off)
  case None
  then show ?thesis using exec_x86_64_effects [OF ex] t by (auto simp: bp_tracked_def rule_of_pops_def split: if_splits)
next
  case (Some y)
  then have y: "unat y < unat m" "rd (sp regs + 8 * of_nat (unat y)) = Some b" using t by (simp_all add: bp_tracked_def)
  then have rule: "rule_of_pops m bp_off = OffsetSpAndRestoreBp (m + 1) y" using Some by (auto simp: rule_of_pops_def)
  from exec_x86_64_effects [OF ex [unfolded rule]] obtain loc where loc: "uint loc = uint (sp regs) + 8 * sint y"
    "rd loc = Some (bp regs') \<or> rd loc = None \<and> loc < sp regs" by auto
  have "int (unat y) < int (2 ^ 15)" using y(1) m by (simp only: of_nat_less_iff)
  then have sy: "sint y = uint y" by (simp add: sint_eq_uint)
  have l: "loc = sp regs + 8 * of_nat (unat y)" using loc(1) unfolding sy by (rule sp_after_offset)
  have "\<not> loc < sp regs" using loc(1) sy by (simp add: word_less_def)
  with loc(2) y(2) show ?thesis unfolding l by simp
qed



section \<open>The prologue analysis on real prologues\<close>

definition push_encoding :: "u8 list \<Rightarrow> bool" where
  "push_encoding p \<longleftrightarrow> (\<exists>b. is_push b \<and> (p = [b] \<or> p = [0x41, b]))"

lemma push_encodingE:
  assumes "push_encoding p"
  obtains q b where "p = q @ [b]" "is_push b" "q = [] \<or> q = [0x41]"
  using assms by (auto simp: push_encoding_def)

lemma push_byte: "is_push b \<Longrightarrow> \<not> is_prefix_byte b \<and> b \<noteq> 0xe5"
  using pop_bytes [of b] by blast

lemma not_frame_setup: "is_push b \<Longrightarrow> \<not> (4 \<le> Suc (length xs) \<and> take 4 (drop (Suc (length xs) - 4) (xs @ b # ys)) = frame_setup)"
proof
  assume b: "is_push b" and f: "4 \<le> Suc (length xs) \<and> take 4 (drop (Suc (length xs) - 4) (xs @ b # ys)) = frame_setup"
  then have "take 4 (drop (Suc (length xs) - 4) (xs @ b # ys)) ! 3 = b" by (simp add: nth_append)
  moreover have "frame_setup ! 3 = 0xe5" by (simp add: frame_setup_def)
  ultimately have "b = 0xe5" using f by metis
  with b push_byte show False by blast
qed

lemma prologue_loop_push:
  assumes p: "push_encoding p" and pre: "xs = [] \<or> \<not> is_prefix_byte (last xs)" and n: "unat n + 1 < 2 ^ 16"
  shows "prologue_loop oc (xs @ p @ ys) (length xs + length p) n = prologue_loop oc (xs @ p @ ys) (length xs) (n + 1)"
proof -
  from p obtain q b where q: "p = q @ [b]" "is_push b" "q = [] \<or> q = [0x41]" by (rule push_encodingE)
  let ?bs = "xs @ p @ ys" and ?c = "length xs + length p"
  have bs: "?bs = (xs @ q) @ b # ys" and c: "?c = Suc (length (xs @ q))" using q(1) by simp_all
  have a: "add_oc oc n 1 = Val (n + 1)"
  proof -
    have "int (unat n + 1) < int (2 ^ 16)" using n by (simp only: of_nat_less_iff)
    then show ?thesis by (simp add: add_oc_def)
  qed
  have prev: "?bs ! (?c - 1) = b" unfolding bs c by (simp only: diff_Suc_1 nth_append_length)
  have nxt: "(if 1 \<le> ?c - 1 \<and> is_prefix_byte (?bs ! (?c - 1 - 1)) then ?c - 1 - 1 else ?c - 1) = length xs"
    using q(3)
  proof
    assume q0: "q = []"
    show ?thesis
    proof (cases xs rule: rev_cases)
      case Nil
      with q0 q(1) show ?thesis by simp
    next
      case (snoc zs z)
      then have "?bs ! (?c - 1 - 1) = z" using q0 q(1) by (simp add: nth_append)
      with pre snoc q0 q(1) show ?thesis by simp
    qed
  next
    assume q1: "q = [0x41]"
    then have "?bs ! (?c - 1 - 1) = 0x41" using q(1) by (simp add: nth_append)
    with q1 q(1) show ?thesis by (simp add: prefix_byte_iff)
  qed
  have f: "\<not> (4 \<le> ?c \<and> take 4 (drop (?c - 4) ?bs) = frame_setup)"
    unfolding bs c by (rule not_frame_setup [OF q(2)])
  have push: "1 \<le> ?c \<and> is_push (?bs ! (?c - 1))" using q(2) prev c by simp
  have "prologue_loop oc ?bs ?c n = obind (add_oc oc n 1) (\<lambda>n'. prologue_loop oc ?bs
      (if 1 \<le> ?c - 1 \<and> is_prefix_byte (?bs ! (?c - 1 - 1)) then ?c - 1 - 1 else ?c - 1) n')"
    by (subst prologue_loop.simps) (simp only: if_not_P [OF f] if_P [OF push])
  then show ?thesis unfolding a nxt by (simp only: obind.simps)
qed

lemma prologue_loop_pushes:
  assumes "list_all push_encoding ps" "xs = [] \<or> \<not> is_prefix_byte (last xs)" "unat n + length ps < 2 ^ 16"
  shows "prologue_loop oc (xs @ concat ps @ ys) (length xs + length (concat ps)) n =
    prologue_loop oc (xs @ concat ps @ ys) (length xs) (n + of_nat (length ps))"
  using assms
proof (induction ps arbitrary: n ys rule: rev_induct)
  case (snoc p ps)
  let ?xs = "xs @ concat ps"
  have pre: "?xs = [] \<or> \<not> is_prefix_byte (last ?xs)"
  proof (cases ps rule: rev_cases)
    case Nil
    with snoc.prems show ?thesis by auto
  next
    case (snoc ps' p')
    with \<open>list_all push_encoding (ps @ [p])\<close> have "push_encoding p'" by simp
    then obtain q b where "p' = q @ [b]" "is_push b" by (rule push_encodingE)
    with snoc push_byte show ?thesis by simp
  qed
  have u: "unat (n + 1) = unat n + 1" using snoc.prems(3) by (intro unat_add_1) simp
  have "prologue_loop oc (?xs @ p @ ys) (length ?xs + length p) n = prologue_loop oc (?xs @ p @ ys) (length ?xs) (n + 1)"
    by (rule prologue_loop_push) (use snoc.prems pre in auto)
  also have "\<dots> = prologue_loop oc (xs @ concat ps @ p @ ys) (length xs) (n + 1 + of_nat (length ps))"
    using snoc.IH [of "n + 1" "p @ ys"] snoc.prems u by simp
  finally show ?case by (simp add: ac_simps)
qed simp

text \<open>
  C17: The prologue analysis counts pushes exactly.  If the function consists, up to the program counter, of pushes of
  registers only and the next instruction is one expected in a prologue, the rule skips one word for each push and one
  for the return address.  If the pushes follow \<open>push rbp; mov rbp, rsp\<close>, the frame pointer rule is used, whatever comes
  before.
\<close>

theorem prologue_analysis_exact_x86_64:
  assumes "list_all push_encoding ps" and "length ps < 2 ^ 16 - 1" and "is_next_instruction_expected_in_prologue bs"
  shows "rule_from_prologue_analysis_x86_64 oc (concat ps @ bs) (length (concat ps)) =
           Val (Some (OffsetSp (of_nat (length ps + 1)))) \<and>
         rule_from_prologue_analysis_x86_64 oc (pre @ frame_setup @ concat ps @ bs) (length (pre @ frame_setup @ concat ps)) =
           Val (Some UseFramePointer)"
proof -
  have l: "unat (0 :: u16) + length ps < 2 ^ 16" using assms(2) by simp
  have "uint (of_nat (length ps) :: u16) + 1 < 2 ^ 16"
    using assms(2) by (simp add: unsigned_of_nat take_bit_nat_eq_self)
  then have a: "add_oc oc (of_nat (length ps) :: u16) 1 = Val (of_nat (length ps + 1))" by (simp add: add_oc_def add.commute)
  have "prologue_loop oc (concat ps) (length (concat ps)) 0 = prologue_loop oc (concat ps) 0 (of_nat (length ps))"
    using prologue_loop_pushes [OF assms(1) _ l, of "[]" oc "[]"] by simp
  also have "\<dots> = Val (Some (OffsetSp (of_nat (length ps + 1))))"
    by (subst prologue_loop.simps) (simp add: a del: of_nat_Suc)
  finally have 1: "rule_from_prologue_analysis_x86_64 oc (concat ps @ bs) (length (concat ps)) =
      Val (Some (OffsetSp (of_nat (length ps + 1))))"
    using assms(3) by (simp add: rule_from_prologue_analysis_x86_64_def)
  let ?xs = "pre @ frame_setup"
  have "\<not> is_prefix_byte (last ?xs)" by (simp add: frame_setup_def prefix_byte_iff)
  then have "prologue_loop oc (?xs @ concat ps) (length (?xs @ concat ps)) 0 =
      prologue_loop oc (?xs @ concat ps) (length ?xs) (of_nat (length ps))"
    using prologue_loop_pushes [OF assms(1) _ l, of ?xs oc "[]"] by (simp add: ac_simps)
  also have "\<dots> = Val (Some UseFramePointer)"
    by (subst prologue_loop.simps) (simp add: frame_setup_def)
  finally have "rule_from_prologue_analysis_x86_64 oc (pre @ frame_setup @ concat ps @ bs) (length (pre @ frame_setup @ concat ps)) =
      Val (Some UseFramePointer)"
    using assms(3) by (simp add: rule_from_prologue_analysis_x86_64_def)
  with 1 show ?thesis by blast
qed

theorem prologue_analysis_exact_x86_64_witness:
  "rule_from_prologue_analysis_x86_64 True ([0x41, 0x57, 0x53] @ [0x48, 0x83, 0xec, 0x18]) 3 = Val (Some (OffsetSp 3))"
proof -
  have "list_all push_encoding [[0x41, 0x57], [0x53]]" by (simp add: push_encoding_def is_push_def)
  from prologue_analysis_exact_x86_64 [OF this, of "[0x48, 0x83, 0xec, 0x18]" True] show ?thesis
    by (simp add: numeral_3_eq_3)
qed

end
