(* ===== verification/X86Macho.thy ===== *)
theory X86Macho
  imports Macho X86Analysis
begin

text \<open>
  \<^verbatim>\<open>src/x86_64/macho.rs\<close>: compact unwind info opcodes of x86_64.  \<open>OpcodeX86_64::parse\<close> of the crate
  \<open>macho_unwind_info\<close> is a parameter; the datatype has the constructors of its result with the fields the source reads.
\<close>

datatype RegisterNameX86_64 = Rbp | OtherRegisterName u8

text \<open>The array \<open>[Option<RegisterNameX86_64>; 6]\<close>.\<close>

datatype SavedRegs =
  SavedRegs "RegisterNameX86_64 option" "RegisterNameX86_64 option" "RegisterNameX86_64 option"
    "RegisterNameX86_64 option" "RegisterNameX86_64 option" "RegisterNameX86_64 option"

fun iter :: "SavedRegs \<Rightarrow> RegisterNameX86_64 option list" where
  "iter (SavedRegs a b c d e f) = [a, b, c, d, e, f]"

datatype OpcodeX86_64 =
    Null
  | FramelessImmediate u16 SavedRegs
  | FramelessIndirect u8 u8 SavedRegs
  | Dwarf u32
  | FrameBased
  | UnrecognizedKind u8
  | InvalidFrameless

type_synonym ('m, 'g) cui_result_x86_64 =
  "(UnwindRuleX86_64 CuiUnwindResult, ('m, 'g) CompactUnwindInfoUnwinderError) result"

text \<open>\<open>saved_regs.iter().rev().flatten().position(|r| *r == Rbp)\<close>.\<close>

definition bp_position_from_outside :: "SavedRegs \<Rightarrow> nat option" where
  "bp_position_from_outside saved_regs = position Rbp (List.map_filter (\<lambda>r. r) (rev (iter saved_regs)))"

text \<open>The rule of a frameless function with a known stack size.\<close>

definition frameless_rule ::
  "bool \<Rightarrow> i32 \<Rightarrow> u16 \<Rightarrow> SavedRegs \<Rightarrow> ('m, 'g) cui_result_x86_64 outcome" where
  "frameless_rule oc stack_size sp_offset_by_8 saved_regs =
     (case bp_position_from_outside saved_regs of
        None \<Rightarrow> Val (Ok (CuiExecRule (OffsetSp sp_offset_by_8)))
      | Some pos \<Rightarrow>
          obind (isub_oc oc stack_size 16) (\<lambda>a.
            obind (isub_oc oc a (of_nat pos * 8)) (\<lambda>bp_offset_from_sp.
              Val (case signed_to_i16 (idiv bp_offset_from_sp 8) of
                     None \<Rightarrow> Err BpOffsetDoesNotFit
                   | Some y \<Rightarrow> Ok (CuiExecRule (OffsetSpAndRestoreBp sp_offset_by_8 y))))))"

text \<open>The stack size found in the immediate of the function's \<open>sub\<close> instruction.\<close>

definition indirect_stack_size ::
  "u8 list option \<Rightarrow> u8 \<Rightarrow> u8 \<Rightarrow> (u32, ('m, 'g) CompactUnwindInfoUnwinderError) result" where
  "indirect_stack_size bytes immediate_offset stack_adjust =
     (case bytes of
        None \<Rightarrow> Err NoTextBytesToLookUpIndirectStackOffset
      | Some bs \<Rightarrow>
          (case slice_get (unat immediate_offset) (unat immediate_offset + 4) bs of
             None \<Rightarrow> Err IndirectStackOffsetOutOfBounds
           | Some b \<Rightarrow>
               ok_or (checked_add (u32_from_le_bytes (b ! 0) (b ! 1) (b ! 2) (b ! 3)) (ucast stack_adjust)) StackAdjustOverflow))"

text \<open>The body of a function, where the opcode applies.\<close>

definition rule_for_opcode_x86_64 ::
  "bool \<Rightarrow> OpcodeX86_64 \<Rightarrow> u8 list option \<Rightarrow> ('m, 'g) cui_result_x86_64 outcome" where
  "rule_for_opcode_x86_64 oc opc bytes =
     (case opc of
        Null \<Rightarrow> Val (Err FunctionHasNoInfo)
      | FramelessImmediate stack_size saved_regs \<Rightarrow>
          if stack_size = 8 then Val (Ok (CuiExecRule JustReturn))
          else frameless_rule oc (ucast stack_size) (stack_size div 8) saved_regs
      | FramelessIndirect immediate_offset stack_adjust saved_regs \<Rightarrow>
          (case indirect_stack_size bytes immediate_offset stack_adjust of
             Err e \<Rightarrow> Val (Err e)
           | Ok stack_size \<Rightarrow>
               (case u32_to_u16 (stack_size div 8) of
                  None \<Rightarrow> Val (Err StackSizeDoesNotFit)
                | Some x \<Rightarrow> frameless_rule oc stack_size x saved_regs))
      | Dwarf eh_frame_fde \<Rightarrow> Val (Ok (NeedDwarf eh_frame_fde))
      | FrameBased \<Rightarrow> Val (Ok (CuiExecRule UseFramePointer))
      | UnrecognizedKind kind \<Rightarrow> Val (Err (BadOpcodeKind kind))
      | InvalidFrameless \<Rightarrow> Val (Err CompactUnwindInfoUnwinderError.InvalidFrameless))"

definition compact_frame_x86_64 ::
  "bool \<Rightarrow> (u32 \<Rightarrow> OpcodeX86_64) \<Rightarrow> MachoFunction \<Rightarrow> bool \<Rightarrow> nat \<Rightarrow> u8 list option \<Rightarrow> ('m, 'g) cui_result_x86_64 outcome" where
  "compact_frame_x86_64 oc parse_opcode f is_first_frame address_offset bytes =
     (let opc = parse_opcode (opcode f) in
      if \<not> is_first_frame then rule_for_opcode_x86_64 oc opc bytes
      else
        obind (case bytes of
                 None \<Rightarrow> Val None
               | Some bs \<Rightarrow>
                   obind (rule_from_instruction_analysis_x86_64 oc bs address_offset) (\<lambda>r.
                     Val (case r of
                            Some rule \<Rightarrow> Some rule
                          | None \<Rightarrow> if opc = Null \<and> take 4 bs = frame_setup then Some UseFramePointer else None))) (\<lambda>found.
          case found of
            Some rule \<Rightarrow> Val (Ok (CuiExecRule rule))
          | None \<Rightarrow>
              if opc = Null then Val (Ok (CuiExecRule JustReturn))
              else rule_for_opcode_x86_64 oc opc bytes))"

definition rule_for_stub_helper_x86_64 :: "u32 \<Rightarrow> UnwindRuleX86_64" where
  "rule_for_stub_helper_x86_64 off =
     (if off < 0x7 then OffsetSp 2
      else if off < 0x10 then OffsetSp 3
      else if (off - 0x10) mod 10 < 5 then JustReturn
      else OffsetSp 2)"

definition macho_x86_64 :: "bool \<Rightarrow> (u32 \<Rightarrow> OpcodeX86_64) \<Rightarrow> (UnwindRuleX86_64, 'm, 'g) CompactUnwindInfoUnwinding" where
  "macho_x86_64 oc parse_opcode = \<lparr>cui_unwind_frame = compact_frame_x86_64 oc parse_opcode,
     cui_rule_for_stub_helper = (\<lambda>off. Ok (CuiExecRule (rule_for_stub_helper_x86_64 off)))\<rparr>"

section \<open>Panics\<close>

lemma count_one:
  fixes n :: u16
  assumes "unat n + k + 1 < 2 ^ 16"
  shows "add_oc oc n 1 = Val (n + 1)" "unat (n + 1) = unat n + 1"
proof -
  have "unat n + 1 < 2 ^ 16" using assms by simp
  then show "unat (n + 1) = unat n + 1" by (rule unat_add_1)
  have "int (unat n + 1) < int (2 ^ 16)" using \<open>unat n + 1 < 2 ^ 16\<close> by (simp only: of_nat_less_iff)
  then show "add_oc oc n 1 = Val (n + 1)" by (simp add: add_oc_def)
qed

lemma prologue_loop_no_panic: "unat n + cursor + 1 < 2 ^ 16 \<Longrightarrow> no_panic (prologue_loop oc bytes cursor n)"
proof (induction oc bytes cursor n rule: prologue_loop.induct)
  case (1 oc bytes cursor n)
  note a = count_one [OF "1.prems"]
  let ?c = "if 1 \<le> cursor - 1 \<and> is_prefix_byte (bytes ! (cursor - 1 - 1)) then cursor - 1 - 1 else cursor - 1"
  show ?case
  proof (cases "4 \<le> cursor \<and> take 4 (drop (cursor - 4) bytes) = frame_setup")
    case True
    then show ?thesis by (subst prologue_loop.simps) simp
  next
    case F: False
    show ?thesis
    proof (cases "1 \<le> cursor \<and> is_push (bytes ! (cursor - 1))")
      case True
      have c: "?c \<le> cursor - 1" by (simp; linarith)
      have "no_panic (prologue_loop oc bytes ?c (n + 1))"
        by (rule "1.IH" [OF F True a(1)]) (use "1.prems" a(2) c True in linarith)
      with F True a(1) show ?thesis by (subst prologue_loop.simps) simp
    next
      case False
      with F a(1) show ?thesis by (subst prologue_loop.simps) auto
    qed
  qed
qed

lemma epilogue_loop_no_panic: "unat n + length bs + 1 < 2 ^ 16 \<Longrightarrow> no_panic (epilogue_loop oc prev n bp_off bs)"
proof (induction oc prev n bp_off bs rule: epilogue_loop.induct)
  case (2 oc prev n bp_off b bs)
  note a = count_one [OF "2.prems"]
  show ?case using "2.IH" "2.prems" a by (auto split: list.splits option.splits)
qed simp

text \<open>Without overflow checks the counts wrap around.\<close>

lemma prologue_loop_wraps: "no_panic (prologue_loop False bytes cursor n)"
proof (induction cursor arbitrary: n rule: less_induct)
  case (less cursor)
  let ?c = "if 1 \<le> cursor - 1 \<and> is_prefix_byte (bytes ! (cursor - 1 - 1)) then cursor - 1 - 1 else cursor - 1"
  show ?case
  proof (cases "1 \<le> cursor \<and> is_push (bytes ! (cursor - 1))")
    case True
    then have "no_panic (prologue_loop False bytes ?c (n + 1))" by (intro less) auto
    with True show ?thesis by (subst prologue_loop.simps) simp
  qed (subst prologue_loop.simps, auto)
qed

lemma epilogue_loop_wraps: "no_panic (epilogue_loop False prev n bp_off bs)"
proof (induction bs arbitrary: n bp_off rule: length_induct)
  case (1 bs)
  then show ?case by (cases bs) (auto split: list.splits option.splits)
qed

text \<open>The count found by the walk over an epilogue is bounded by the number of bytes.\<close>

lemma epilogue_loop_count:
  "epilogue_loop oc prev n bp_off bs = Val (Some (m, off)) \<Longrightarrow> unat n + length bs + 1 < 2 ^ 16 \<Longrightarrow> unat m \<le> unat n + length bs"
proof (induction oc prev n bp_off bs arbitrary: m off rule: epilogue_loop.induct)
  case (2 oc prev n bp_off b bs)
  note a = count_one [OF "2.prems"(2)]
  let ?exit = "b = 0xc3 \<or> b = 0xeb \<or> b = 0xe9 \<or> b = 0xff"
  consider (exit) ?exit | (bp) "\<not> ?exit" "b = 0x5d" | (pop) "\<not> ?exit" "b \<noteq> 0x5d" "0x58 \<le> b" "b \<le> 0x5f"
    | (other) "\<not> ?exit" "b \<noteq> 0x5d" "\<not> (0x58 \<le> b \<and> b \<le> 0x5f)" by blast
  then show ?case
  proof cases
    case exit
    with "2.prems"(1) have "m = n" by (auto split: if_splits option.splits)
    then show ?thesis by simp
  next
    case bp
    with "2.prems"(1) a(1) have "epilogue_loop oc prev (n + 1) (Some n) bs = Val (Some (m, off))" by simp
    with bp a "2.prems"(2) "2.IH"(1) [of "n + 1" m off] show ?thesis by simp
  next
    case pop
    with "2.prems"(1) a(1) have "epilogue_loop oc prev (n + 1) bp_off bs = Val (Some (m, off))" by simp
    with pop a "2.prems"(2) "2.IH"(2) [of "n + 1" m off] show ?thesis by simp
  next
    case other
    with "2.prems"(1) obtain b1 bs' where l: "bs = b1 # bs'" "is_prefix_byte b" "is_pop b1"
      by (auto split: list.splits if_splits)
    with other "2.prems"(1) a(1) have "epilogue_loop oc prev (n + 1) bp_off bs' = Val (Some (m, off))"
      by (auto split: if_splits)
    with other l a "2.prems"(2) "2.IH"(3) [of b1 bs' "n + 1" m off] show ?thesis by simp
  qed
qed simp

lemma analysis_no_panic_x86_64:
  assumes "off \<le> length bs" "oc \<longrightarrow> length bs < 65000"
  shows "no_panic (rule_from_instruction_analysis_x86_64 oc bs off)"
proof -
  have "no_panic (prologue_loop oc (take off bs) off 0)"
    using assms prologue_loop_no_panic [of 0 off oc "take off bs"] prologue_loop_wraps by (cases oc) auto
  then have "\<exists>r. rule_from_prologue_analysis_x86_64 oc bs off = Val r"
    using assms(1) by (auto simp: rule_from_prologue_analysis_x86_64_def)
  then obtain r where r: "rule_from_prologue_analysis_x86_64 oc bs off = Val r" by blast
  let ?prev = "if take off bs = [] then None else Some (last (take off bs))"
  have l: "oc \<Longrightarrow> unat (0 :: u16) + length (drop off bs) + 1 < 2 ^ 16" using assms by simp
  have "no_panic (epilogue_loop oc ?prev 0 None (drop off bs))"
  proof (cases oc)
    case True
    then show ?thesis by (intro epilogue_loop_no_panic l)
  next
    case False
    then have "oc = False" by simp
    show ?thesis unfolding \<open>oc = False\<close> by (rule epilogue_loop_wraps)
  qed
  then obtain x where x: "epilogue_loop oc ?prev 0 None (drop off bs) = Val x" by blast
  have "\<exists>r'. rule_from_epilogue_analysis_x86_64 oc bs off = Val r'"
  proof (cases x)
    case None
    with x assms(1) show ?thesis by (simp add: rule_from_epilogue_analysis_x86_64_def Let_def)
  next
    case (Some p)
    obtain m bp_off where p: "p = (m, bp_off)" by (cases p)
    have "unat m + 0 + 1 < 2 ^ 16" if oc using epilogue_loop_count [OF x [unfolded Some p] l] assms that by simp
    then have "add_oc oc m 1 = Val (m + 1)" using count_one(1) [of m 0 oc] by (cases oc) simp_all
    with x Some p assms(1) show ?thesis by (simp add: rule_from_epilogue_analysis_x86_64_def Let_def)
  qed
  with r show ?thesis by (auto simp: rule_from_instruction_analysis_x86_64_def split: option.splits)
qed

lemma length_map_filter: "length (List.map_filter f xs) \<le> length xs"
  by (induction xs) (simp_all add: List.map_filter_simps split: option.splits)

lemma bp_position_bound: "bp_position_from_outside saved = Some pos \<Longrightarrow> pos < 6"
  using length_map_filter [of "\<lambda>r. r" "rev (iter saved)"]
  by (cases saved) (auto simp: bp_position_from_outside_def position_Some_iff)

text \<open>The byte offset of the saved base pointer is exact for stack sizes that pass the checks.\<close>

lemma frameless_rule_cases:
  assumes "0 \<le> sint size_i" "sint size_i < 2 ^ 20"
  shows "frameless_rule oc size_i x saved =
     Val (case bp_position_from_outside saved of
            None \<Rightarrow> Ok (CuiExecRule (OffsetSp x))
          | Some pos \<Rightarrow>
              (case signed_to_i16 (idiv (word_of_int (sint size_i - 16 - 8 * int pos) :: i32) 8) of
                 None \<Rightarrow> Err BpOffsetDoesNotFit
               | Some y \<Rightarrow> Ok (CuiExecRule (OffsetSpAndRestoreBp x y))))"
proof (cases "bp_position_from_outside saved")
  case (Some pos)
  then have pos: "pos < 6" by (rule bp_position_bound)
  have "sint (word_of_int (8 * int pos) :: i32) = 8 * int pos"
    by (rule sint_of_range) (use pos in \<open>simp add: in_signed_range_def\<close>)
  then have p: "sint (of_nat pos * 8 :: i32) = 8 * int pos" by (simp add: mult.commute)
  have "in_signed_range 32 (sint size_i - sint (16 :: i32))" using assms by (simp add: in_signed_range_def)
  from isub_oc_exact [where 'a = 32, simplified, OF this, of oc] obtain a where
    a: "isub_oc oc size_i 16 = Val a" "sint a = sint size_i - 16" by auto
  have "in_signed_range 32 (sint a - sint (of_nat pos * 8 :: i32))"
    unfolding a p using assms pos by (simp add: in_signed_range_def)
  from isub_oc_exact [where 'a = 32, simplified, OF this, of oc] obtain b where
    b: "isub_oc oc a (of_nat pos * 8) = Val b" "sint b = sint size_i - 16 - 8 * int pos" unfolding p a(2) by blast
  have "b = word_of_int (sint b)" by simp
  then have "b = word_of_int (sint size_i - 16 - 8 * int pos)" unfolding b(2) .
  with a b Some show ?thesis by (simp add: frameless_rule_def)
qed (simp add: frameless_rule_def)

section \<open>Frameless functions\<close>

text \<open>What the opcode of a frameless function states: the frame size in bytes and the saved registers.\<close>

definition states_frame ::
  "('m, 'g) CompactUnwindInfoUnwinderError itself \<Rightarrow> u8 list option \<Rightarrow> OpcodeX86_64 \<Rightarrow> int \<Rightarrow> SavedRegs \<Rightarrow> bool" where
  "states_frame _ bytes opc n saved =
     (case opc of
        FramelessImmediate m saved' \<Rightarrow> n = uint m \<and> saved = saved'
      | FramelessIndirect i a saved' \<Rightarrow>
          saved = saved' \<and>
          (case indirect_stack_size bytes i a :: (u32, ('m, 'g) CompactUnwindInfoUnwinderError) result of
             Ok m \<Rightarrow> n = uint m | Err _ \<Rightarrow> False)
      | _ \<Rightarrow> False)"

lemma frameless_rule_Ok:
  assumes r: "frameless_rule oc size_i x saved = Val (Ok (CuiExecRule rule) :: ('m, 'g) cui_result_x86_64)"
    and b: "sint size_i = n" "n = 8 * uint x" "0 \<le> n" "n < 2 ^ 20"
    and ex: "exec_x86_64 oc' rule is_first_frame regs rd = Val (regs', Ok (Some ra))"
  shows "uint (sp regs') = uint (sp regs) + n \<and>
     (case bp_position_from_outside saved of
        None \<Rightarrow> bp regs' = bp regs
      | Some pos \<Rightarrow> (\<exists>loc. uint loc = uint (sp regs') - 16 - 8 * int pos \<and>
          (rd loc = Some (bp regs') \<or> rd loc = None \<and> is_first_frame \<and> loc < sp regs \<and> bp regs' = bp regs)))"
proof -
  have c: "(Ok (CuiExecRule rule) :: ('m, 'g) cui_result_x86_64) = (case bp_position_from_outside saved of
            None \<Rightarrow> Ok (CuiExecRule (OffsetSp x))
          | Some pos \<Rightarrow>
              (case signed_to_i16 (idiv (word_of_int (n - 16 - 8 * int pos) :: i32) 8) of
                 None \<Rightarrow> Err BpOffsetDoesNotFit
               | Some y \<Rightarrow> Ok (CuiExecRule (OffsetSpAndRestoreBp x y))))"
    using r unfolding frameless_rule_cases [of size_i oc x saved, unfolded b(1), OF b(3,4)] by simp
  note eff = exec_x86_64_effects [OF ex]
  show ?thesis
  proof (cases "bp_position_from_outside saved")
    case None
    with c eff b(2) show ?thesis by simp
  next
    case (Some pos)
    let ?off = "word_of_int (n - 16 - 8 * int pos) :: i32"
    from c Some obtain y where y: "signed_to_i16 (idiv ?off 8) = Some y" "rule = OffsetSpAndRestoreBp x y"
      by (auto split: option.splits)
    have pos: "pos < 6" using Some by (rule bp_position_bound)
    have o: "sint ?off = n - 16 - 8 * int pos"
      by (rule sint_of_range) (use pos b(3,4) in \<open>simp add: in_signed_range_def\<close>)
    have "8 dvd n - 16 - 8 * int pos" unfolding b(2) by simp
    then have "8 dvd sint ?off" unfolding o .
    then have "8 * sint (idiv ?off 8) = sint ?off" using sint_idiv_exact [of 8 ?off] by simp
    then have "8 * sint y = n - 16 - 8 * int pos" using y(1) o by (simp add: signed_to_i16_Some_iff)
    with eff y(2) b(2) Some show ?thesis by (auto simp: add_diff_eq)
  qed
qed

text \<open>A frame that holds the return address only saves no registers, and a size that is taken from the code is exact.\<close>

lemma smallest_frame_saves_nothing:
  assumes "8 + 8 * int (length (List.map_filter (\<lambda>r. r) (iter saved))) \<le> (8 :: int)"
  shows "bp_position_from_outside saved = None"
proof -
  have "List.map_filter (\<lambda>r. r) (iter saved) = []" using assms by simp
  then have "\<forall>r \<in> set (iter saved). r = None" by (auto simp: List.map_filter_def filter_empty_conv)
  then have "List.map_filter (\<lambda>r. r) (rev (iter saved)) = []" by (auto simp: List.map_filter_def filter_empty_conv)
  then show ?thesis by (simp add: bp_position_from_outside_def)
qed

lemma immediate_size_exact:
  fixes m :: u16
  assumes "8 dvd uint m"
  shows "sint (ucast m :: i32) = uint m" "uint m = 8 * uint (m div 8)" "uint m < 2 ^ 20"
proof -
  have "uint (ucast m :: i32) = uint m" by (rule uint_ucast_wide) simp
  then show "sint (ucast m :: i32) = uint m" using uint_lt2p [of m] sint_eq_uint [of "ucast m :: i32"] by simp
  show "uint m = 8 * uint (m div 8)" using assms by (simp add: uint_div)
  show "uint m < 2 ^ 20" using uint_lt2p [of m] by simp
qed

lemma indirect_size_exact:
  assumes x: "u32_to_u16 (m div 8) = Some x" and d: "8 dvd uint m"
  shows "sint m = uint m" "uint m = 8 * uint x" "uint m < 2 ^ 20"
proof -
  have le: "m div 8 \<le> 0xFFFF" and xm: "x = ucast (m div 8)" using x by (auto simp: u32_to_u16_def split: if_splits)
  have u: "uint (m div 8) \<le> 65535" using le by (simp add: word_le_def)
  then have ux: "uint x = uint (m div 8)" unfolding xm by (simp add: unsigned_ucast_eq take_bit_int_eq_self)
  have e: "uint m = 8 * uint (m div 8)" using d by (simp add: uint_div)
  then show lt: "uint m < 2 ^ 20" using u by simp
  show "uint m = 8 * uint x" using e ux by simp
  show "sint m = uint m" using lt sint_eq_uint [of m] by simp
qed



section \<open>Stub helpers\<close>

text \<open>The layout documented in the source: the words pushed above the return address when the instruction at an offset
  is about to be executed, for the offsets where an instruction starts.\<close>

definition stub_helper_depth :: "nat \<Rightarrow> nat option" where
  "stub_helper_depth off =
     (if off = 0x0 \<or> off = 0x7 then Some 1
      else if off = 0x9 then Some 2
      else if off < 0x10 then None
      else if (off - 0x10) mod 10 = 0 then Some 0
      else if (off - 0x10) mod 10 = 5 then Some 1
      else None)"

definition return_after_pops :: "nat \<Rightarrow> UnwindRuleX86_64" where
  "return_after_pops n = (if n = 0 then JustReturn else OffsetSp (of_nat (n + 1)))"

text \<open>
  C39: In the \<open>__stub_helper\<close> section the rule is the documented one (pop what was pushed and return) at every
  instruction except one: at offset 7, where \<open>push r11\<close> has not been executed yet, the rule skips one word too many.
\<close>

theorem stub_helper_rules_x86_64:
  assumes "stub_helper_depth (unat off) = Some n"
  shows "rule_for_stub_helper_x86_64 off = (if off = 0x7 then OffsetSp 3 else return_after_pops n) \<and>
    (off = 0x7 \<longrightarrow> return_after_pops n = OffsetSp 2)"
proof -
  have "off = 0x7 \<longleftrightarrow> unat off = unat (0x7 :: u32)" by (simp only: word_unat_eq_iff)
  then have w: "off < 0x7 \<longleftrightarrow> unat off < 7" "off < 0x10 \<longleftrightarrow> unat off < 16" "off = 0x7 \<longleftrightarrow> unat off = 7"
    by (simp_all add: word_less_nat_alt)
  have m: "(off - 0x10) mod 10 < 5 \<longleftrightarrow> (unat off - 16) mod 10 < 5" if "16 \<le> unat off"
  proof -
    have "unat (off - 0x10) = unat off - 16" using that by (simp add: unat_sub word_le_nat_alt)
    then show ?thesis by (simp add: word_less_nat_alt unat_mod)
  qed
  show ?thesis
    using assms m unfolding rule_for_stub_helper_x86_64_def w
    by (auto simp: stub_helper_depth_def return_after_pops_def split: if_splits)
qed

theorem stub_helper_rules_x86_64_witness:
  "rule_for_stub_helper_x86_64 0x7 = OffsetSp 3 \<and> return_after_pops 1 = OffsetSp 2 \<and>
   rule_for_stub_helper_x86_64 0x1f = return_after_pops 1"
  using stub_helper_rules_x86_64 [of "0x7" 1] stub_helper_rules_x86_64 [of "0x1f" 1]
  by (simp add: stub_helper_depth_def return_after_pops_def)

section \<open>The architecture's instance\<close>

lemma u16_size_bounds: "0 \<le> sint (ucast (m :: u16) :: i32) \<and> sint (ucast m :: i32) < 2 ^ 20"
proof -
  have u: "uint (ucast m :: i32) = uint m" by (rule uint_ucast_wide) simp
  then have "sint (ucast m :: i32) = uint m" using uint_lt2p [of m] sint_eq_uint [of "ucast m :: i32"] by simp
  then show ?thesis using uint_lt2p [of m] by simp
qed

lemma u32_size_bounds:
  assumes "u32_to_u16 (m div 8) = Some x"
  shows "0 \<le> sint (m :: i32) \<and> sint m < 2 ^ 20"
proof -
  have "uint (m div 8) \<le> 65535" using assms by (auto simp: u32_to_u16_def word_le_def split: if_splits)
  then have "uint m < 2 ^ 20" by (simp add: uint_div)
  moreover from this have "sint m = uint m" using sint_eq_uint [of m] by simp
  ultimately show ?thesis by simp
qed

lemma rule_for_opcode_no_panic: "no_panic (rule_for_opcode_x86_64 oc opc bytes :: ('m, 'g) cui_result_x86_64 outcome)"
proof (cases opc)
  case (FramelessImmediate m saved)
  with u16_size_bounds [of m] show ?thesis by (simp add: rule_for_opcode_x86_64_def frameless_rule_cases)
next
  case (FramelessIndirect i a saved)
  with u32_size_bounds show ?thesis
    by (auto simp: rule_for_opcode_x86_64_def frameless_rule_cases split: result.splits option.splits)
qed (simp_all add: rule_for_opcode_x86_64_def)

lemma compact_frame_no_panic_x86_64:
  assumes "\<And>bs. bytes = Some bs \<Longrightarrow> off < length bs \<and> (oc \<longrightarrow> length bs < 65000)"
  shows "no_panic (compact_frame_x86_64 oc parse_opcode f is_first_frame off bytes :: ('m, 'g) cui_result_x86_64 outcome)"
proof -
  have o: "no_panic (rule_for_opcode_x86_64 oc (parse_opcode (opcode f)) bytes :: ('m, 'g) cui_result_x86_64 outcome)"
    by (rule rule_for_opcode_no_panic)
  show ?thesis
  proof (cases bytes)
    case (Some bs)
    then have "off \<le> length bs" "oc \<longrightarrow> length bs < 65000" using assms by auto
    then obtain r where r: "rule_from_instruction_analysis_x86_64 oc bs off = Val r" using analysis_no_panic_x86_64 by blast
    with o Some show ?thesis by (cases r) (auto simp: compact_frame_x86_64_def Let_def)
  qed (use o in \<open>auto simp: compact_frame_x86_64_def Let_def\<close>)
qed

interpretation x86_macho: compact_unwinding "macho_x86_64 oc parse_opcode" "\<lambda>bs. oc \<longrightarrow> length bs < 65000" for oc parse_opcode
  by unfold_locales (simp add: macho_x86_64_def compact_frame_no_panic_x86_64)

text \<open>
  Unwinding a frame with compact unwind info does not panic on x86_64, if the crate that parses it keeps its promise
  that a function found for an address contains the address, and, in a build with overflow checks, no function is longer than 65000 bytes.
\<close>

lemma compact_unwind_frame_x86_64_no_panic:
  assumes "lookup_in_range M" and "\<forall>f bs. function_bytes u f = Some bs \<longrightarrow> oc \<longrightarrow> length bs < 65000"
  shows "\<exists>r. compact_unwind_frame oc ops (macho_x86_64 oc parse_opcode) M u rel_lookup_address is_first_frame =
    Val (r :: ('m, 'g) cui_result_x86_64)"
  by (rule x86_macho.compact_no_panic [OF assms(1)]) (use assms(2) in blast)

end
