(* ===== verification/A64Insn.thy ===== *)
theory A64Insn
  imports A64Epilogue
begin

text \<open>
  The aarch64 instructions of prologues and epilogues: their encodings as in the architecture manual, the fields the
  detectors extract from an encoded word, and what the instructions do to the stack pointer, the frame pointer and the
  link register.  The detectors are proved correct against this in \<open>A64Analysis\<close>.
\<close>

section \<open>Instructions\<close>

text \<open>The immediate of a pair instruction counts eight-byte units; the one of \<open>add\<close> and \<open>sub\<close> has a flag for a shift by 12.\<close>

datatype a64_insn =
    Stp_pre "7 word" "5 word" "5 word" | Stp_off "7 word" "5 word" "5 word" | Sub_sp bool "12 word" | Pacibsp
  | Ldp_post "7 word" "5 word" "5 word" | Ldp_pre "7 word" "5 word" "5 word" | Ldp_off "7 word" "5 word" "5 word"
  | Add_sp bool "12 word"

datatype a64_exit = Ret | Retab | B "26 word"

text \<open>Load and store pair with base register 31, \<open>add\<close> and \<open>sub\<close> of an immediate from and to register 31.\<close>

definition encode_pair :: "nat \<Rightarrow> 7 word \<Rightarrow> 5 word \<Rightarrow> 5 word \<Rightarrow> u32" where
  "encode_pair h i r1 r2 = of_nat (h * 2 ^ 22 + unat i * 2 ^ 15 + unat r2 * 2 ^ 10 + 31 * 2 ^ 5 + unat r1)"

definition encode_imm :: "nat \<Rightarrow> bool \<Rightarrow> 12 word \<Rightarrow> u32" where
  "encode_imm h sh i = of_nat (h * 2 ^ 23 + of_bool sh * 2 ^ 22 + unat i * 2 ^ 10 + 31 * 2 ^ 5 + 31)"

fun encode_insn :: "a64_insn \<Rightarrow> u32" where
  "encode_insn (Stp_pre i r1 r2) = encode_pair 0x2a6 i r1 r2"
| "encode_insn (Stp_off i r1 r2) = encode_pair 0x2a4 i r1 r2"
| "encode_insn (Sub_sp sh i) = encode_imm 0x1a2 sh i"
| "encode_insn Pacibsp = 0xd503237f"
| "encode_insn (Ldp_post i r1 r2) = encode_pair 0x2a3 i r1 r2"
| "encode_insn (Ldp_pre i r1 r2) = encode_pair 0x2a7 i r1 r2"
| "encode_insn (Ldp_off i r1 r2) = encode_pair 0x2a5 i r1 r2"
| "encode_insn (Add_sp sh i) = encode_imm 0x122 sh i"

fun encode_exit :: "a64_exit \<Rightarrow> u32" where
  "encode_exit Ret = 0xd65f03c0"
| "encode_exit Retab = 0xd65f0fff"
| "encode_exit (B i) = of_nat (5 * 2 ^ 26 + unat i)"

definition le_bytes :: "u32 \<Rightarrow> u8 list" where
  "le_bytes w = [ucast w, ucast (drop_bit 8 w), ucast (drop_bit 16 w), ucast (drop_bit 24 w)]"

section \<open>Fields of encoded words\<close>

lemma u32_from_le_bytes_le_bytes:
  "u32_from_le_bytes (ucast w) (ucast (drop_bit 8 w)) (ucast (drop_bit 16 w)) (ucast (drop_bit 24 w)) = w"
proof (rule bit_word_eqI)
  fix n assume "n < LENGTH(32)"
  then have n: "n < 32" by simp
  consider "n < 8" | "8 \<le> n" "n < 16" | "16 \<le> n" "n < 24" | "24 \<le> n" using n by linarith
  then show "bit (u32_from_le_bytes (ucast w) (ucast (drop_bit 8 w)) (ucast (drop_bit 16 w)) (ucast (drop_bit 24 w))) n = bit w n"
    using n by cases (auto simp: u32_from_le_bytes_def bit_simps)
qed

text \<open>The field of \<open>n\<close> bits at position \<open>k\<close> of a number.\<close>

lemma field_of_nat:
  assumes "x < 2 ^ 32"
  shows "drop_bit k (of_nat x :: u32) = of_nat (x div 2 ^ k)"
    and "(of_nat x :: u32) AND mask n = of_nat (x mod 2 ^ n)"
proof -
  have "unat (of_nat x :: u32) = x" using assms by (simp add: unsigned_of_nat take_bit_nat_eq_self)
  then have "unat (drop_bit k (of_nat x :: u32)) = x div 2 ^ k" unfolding unsigned_drop_bit_eq
    using assms by (simp add: drop_bit_eq_div take_bit_nat_eq_self)
  moreover have "drop_bit k (of_nat x :: u32) = of_nat (unat (drop_bit k (of_nat x :: u32)))" by (simp only: of_nat_unat ucast_id)
  ultimately show "drop_bit k (of_nat x :: u32) = of_nat (x div 2 ^ k)" by (simp only:)
  show "(of_nat x :: u32) AND mask n = of_nat (x mod 2 ^ n)"
    by (simp only: take_bit_eq_mask [symmetric] take_bit_of_nat, simp only: take_bit_eq_mod)
qed

lemma field_of_nat_32:
  assumes "x < 2 ^ 32" "x div 2 ^ k = q * 2 ^ n + y" "y < 2 ^ n"
  shows "drop_bit k (of_nat x :: u32) AND mask n = of_nat y"
proof -
  have "x div 2 ^ k < 2 ^ 32" using assms(1) by (meson div_le_dividend le_less_trans)
  moreover have "(x div 2 ^ k) mod 2 ^ n = y" using assms(2,3) by simp
  ultimately show ?thesis using field_of_nat(1) [OF assms(1)] field_of_nat(2) [of "x div 2 ^ k" n] by simp
qed

lemma masks: "(127 :: u32) = mask 7" "(31 :: u32) = mask 5" "(0xfff :: u32) = mask 12" "(1 :: u32) = mask 1"
  by (simp_all add: mask_eq_exp_minus_1)

lemma encode_pair_fields:
  fixes i :: "7 word" and r1 r2 :: "5 word"
  assumes "h < 1024"
  defines "w \<equiv> encode_pair h i r1 r2"
  shows "drop_bit 22 w = of_nat h" "drop_bit 23 w = of_nat (h div 2)" "drop_bit 26 w = of_nat (h div 16)"
    "drop_bit 15 w AND 127 = of_nat (unat i)" "drop_bit 10 w AND 31 = of_nat (unat r2)"
    "drop_bit 5 w AND 31 = 31" "w AND 31 = of_nat (unat r1)"
proof -
  let ?x = "h * 2 ^ 22 + unat i * 2 ^ 15 + unat r2 * 2 ^ 10 + 31 * 2 ^ 5 + unat r1"
  have b: "unat i < 128" "unat r1 < 32" "unat r2 < 32"
    using unsigned_less [where w = i] unsigned_less [where w = r1] unsigned_less [where w = r2] by simp_all
  have x: "?x < 2 ^ 32" using b assms(1) by simp
  have d: "?x div 2 ^ 22 = h" "?x div 2 ^ 15 = h * 2 ^ 7 + unat i" "?x div 2 ^ 10 = (h * 2 ^ 12 + unat i * 2 ^ 5 + 0) + unat r2"
    "?x div 2 ^ 5 = (h * 2 ^ 17 + unat i * 2 ^ 10 + unat r2 * 2 ^ 5) + 31"
    using b by (auto intro!: div_nat_eqI)
  show "drop_bit 22 w = of_nat h" unfolding w_def encode_pair_def by (simp only: field_of_nat(1) [OF x] d)
  show "drop_bit 23 w = of_nat (h div 2)"
    unfolding w_def encode_pair_def field_of_nat(1) [OF x] using d(1) div_mult2_eq [of ?x "2 ^ 22" 2] by simp
  show "drop_bit 26 w = of_nat (h div 16)"
    unfolding w_def encode_pair_def field_of_nat(1) [OF x] using d(1) div_mult2_eq [of ?x "2 ^ 22" 16] by simp
  show "drop_bit 15 w AND 127 = of_nat (unat i)"
    unfolding w_def encode_pair_def masks by (rule field_of_nat_32 [OF x d(2)]) (use b in simp)
  show "drop_bit 10 w AND 31 = of_nat (unat r2)"
    unfolding w_def encode_pair_def masks
    by (rule field_of_nat_32 [OF x, of _ "h * 2 ^ 7 + unat i"]) (use b d(3) in simp_all)
  show "drop_bit 5 w AND 31 = 31"
  proof -
    have "drop_bit 5 w AND 31 = of_nat 31"
      unfolding w_def encode_pair_def masks
      by (rule field_of_nat_32 [OF x, of _ "h * 2 ^ 12 + unat i * 2 ^ 5 + unat r2"]) (use b d(4) in simp_all)
    then show ?thesis by simp
  qed
  show "w AND 31 = of_nat (unat r1)"
  proof -
    have "?x = (h * 2 ^ 17 + unat i * 2 ^ 10 + unat r2 * 2 ^ 5 + 31) * 2 ^ 5 + unat r1" by simp
    then have "?x mod 2 ^ 5 = unat r1 mod 2 ^ 5" by (simp only: mod_mult_self3)
    then have "?x mod 2 ^ 5 = unat r1" using b by simp
    then show ?thesis unfolding w_def encode_pair_def masks field_of_nat(2) [OF x] by (simp only:)
  qed
qed

lemma encode_imm_fields:
  fixes i :: "12 word" and sh :: bool
  assumes "h < 512"
  defines "w \<equiv> encode_imm h sh i"
  shows "drop_bit 22 w = of_nat (2 * h + of_bool sh)" "drop_bit 23 w = of_nat h" "drop_bit 26 w = of_nat (h div 8)"
    "drop_bit 10 w AND 0xfff = of_nat (unat i)" "drop_bit 22 w AND 1 = of_bool sh"
    "drop_bit 5 w AND 31 = 31" "w AND 31 = 31"
proof -
  let ?x = "h * 2 ^ 23 + of_bool sh * 2 ^ 22 + unat i * 2 ^ 10 + 31 * 2 ^ 5 + 31"
  have b: "unat i < 4096" using unsigned_less [where w = i] by simp
  have x: "?x < 2 ^ 32" using b assms(1) by simp
  have d: "?x div 2 ^ 22 = 2 * h + of_bool sh" "?x div 2 ^ 23 = h" "?x div 2 ^ 10 = (2 * h + of_bool sh) * 2 ^ 12 + unat i"
    "?x div 2 ^ 5 = (h * 2 ^ 13 + of_bool sh * 2 ^ 12 + unat i) * 2 ^ 5 + 31"
    using b by (auto intro!: div_nat_eqI split: split_of_bool)
  show "drop_bit 22 w = of_nat (2 * h + of_bool sh)" unfolding w_def encode_imm_def by (simp only: field_of_nat(1) [OF x] d)
  show "drop_bit 23 w = of_nat h" unfolding w_def encode_imm_def by (simp only: field_of_nat(1) [OF x] d)
  show "drop_bit 26 w = of_nat (h div 8)"
    unfolding w_def encode_imm_def field_of_nat(1) [OF x] using d(2) div_mult2_eq [of ?x "2 ^ 23" 8] by simp
  show "drop_bit 10 w AND 0xfff = of_nat (unat i)"
    unfolding w_def encode_imm_def masks by (rule field_of_nat_32 [OF x d(3)]) (use b in simp)
  show "drop_bit 22 w AND 1 = of_bool sh"
  proof -
    have "drop_bit 22 w AND 1 = of_nat (of_bool sh)"
      unfolding w_def encode_imm_def masks by (rule field_of_nat_32 [OF x, of _ h]) (use d(1) in simp_all)
    then show ?thesis by simp
  qed
  show "drop_bit 5 w AND 31 = 31"
  proof -
    have "drop_bit 5 w AND 31 = of_nat 31"
      unfolding w_def encode_imm_def masks by (rule field_of_nat_32 [OF x d(4)]) simp
    then show ?thesis by simp
  qed
  show "w AND 31 = 31"
  proof -
    have "?x = (h * 2 ^ 18 + of_bool sh * 2 ^ 17 + unat i * 2 ^ 5 + 31) * 2 ^ 5 + 31" by simp
    then have "?x mod 2 ^ 5 = 31 mod 2 ^ 5" by (simp only: mod_mult_self3)
    then have "?x mod 2 ^ 5 = 31" by simp
    then have "w AND 31 = of_nat 31" unfolding w_def encode_imm_def masks field_of_nat(2) [OF x] by (simp only:)
    then show ?thesis by simp
  qed
qed

section \<open>Immediates\<close>

lemma imm7_table:
  "list_all (\<lambda>n. sint (scast (signed_drop_bit 6 (push_bit 9 (ucast (of_nat n :: u32) :: i16))) :: i32) =
     8 * sint (of_nat n :: 7 word)) [0..<128]"
  by code_simp

lemma imm7_times_8_pair:
  fixes i :: "7 word"
  assumes "h < 1024"
  shows "sint (imm7_times_8 (encode_pair h i r1 r2)) = 8 * sint i"
proof -
  have "unat i \<in> set [0..<128]" using unsigned_less [where w = i] by simp
  with imm7_table have "sint (scast (signed_drop_bit 6 (push_bit 9 (ucast (of_nat (unat i) :: u32) :: i16))) :: i32) =
      8 * sint (of_nat (unat i) :: 7 word)" unfolding list_all_iff by blast
  moreover have "(of_nat (unat i) :: 7 word) = i" by simp
  ultimately show ?thesis unfolding imm7_times_8_def encode_pair_fields(4) [OF assms] by (simp only:)
qed

definition imm_value :: "bool \<Rightarrow> 12 word \<Rightarrow> int" where
  "imm_value sh i = (if sh then 4096 * uint i else uint i)"

lemma imm12_of_encode:
  fixes i :: "12 word"
  assumes "h < 512"
  shows "sint (imm12_of (encode_imm h sh i)) = imm_value sh i"
proof -
  have i: "unat i < 4096" using unsigned_less [where w = i] by simp
  have s: "sint (of_nat n :: i32) = int n" if "n < 2 ^ 31" for n
  proof -
    have "sint (word_of_int (int n) :: i32) = int n" by (rule sint_of_range) (use that in \<open>simp add: in_signed_range_def\<close>)
    then show ?thesis by simp
  qed
  have "imm12_of (encode_imm h sh i) = of_nat (if sh then 4096 * unat i else unat i)"
    unfolding imm12_of_def encode_imm_fields(4,5) [OF assms] Let_def by (simp add: push_bit_eq_mult)
  with s [of "if sh then 4096 * unat i else unat i"] i show ?thesis by (simp add: imm_value_def)
qed

section \<open>What the instructions do\<close>

text \<open>The change of the stack pointer.\<close>

fun sp_delta :: "a64_insn \<Rightarrow> int" where
  "sp_delta (Stp_pre i r1 r2) = 8 * sint i"
| "sp_delta (Stp_off i r1 r2) = 0"
| "sp_delta (Sub_sp sh i) = - imm_value sh i"
| "sp_delta Pacibsp = 0"
| "sp_delta (Ldp_post i r1 r2) = 8 * sint i"
| "sp_delta (Ldp_pre i r1 r2) = 8 * sint i"
| "sp_delta (Ldp_off i r1 r2) = 0"
| "sp_delta (Add_sp sh i) = imm_value sh i"

lemma sp_delta_bound: "\<bar>sp_delta x\<bar> < 2 ^ 24"
proof -
  have i: "\<bar>8 * sint i\<bar> < 2 ^ 24" for i :: "7 word"
    using sint_in_signed_range [of i] by (auto simp: in_signed_range_def)
  have j: "\<bar>imm_value sh j\<bar> < 2 ^ 24" for sh j
    using uint_lt2p [of j] uint_ge_0 [of j] by (auto simp: imm_value_def)
  show ?thesis using i j by (cases x) auto
qed

fun is_prologue_insn :: "a64_insn \<Rightarrow> bool" where
  "is_prologue_insn (Stp_pre i r1 r2) = True"
| "is_prologue_insn (Stp_off i r1 r2) = True"
| "is_prologue_insn (Sub_sp sh i) = True"
| "is_prologue_insn Pacibsp = True"
| "is_prologue_insn _ = False"

text \<open>Loading one register of a pair, and the registers of the machine: stack pointer, frame pointer and link register.\<close>

type_synonym a64_state = "u64 \<times> u64 \<times> u64"

definition load_register :: "5 word \<Rightarrow> u64 \<Rightarrow> a64_state \<Rightarrow> a64_state" where
  "load_register r v st = (case st of (s, fp, lr) \<Rightarrow> (s, if r = 29 then v else fp, if r = 30 then v else lr))"

definition load_pair :: "(u64 \<Rightarrow> u64) \<Rightarrow> u64 \<Rightarrow> 5 word \<Rightarrow> 5 word \<Rightarrow> a64_state \<Rightarrow> a64_state" where
  "load_pair mem loc r1 r2 st = load_register r2 (mem (loc + 8)) (load_register r1 (mem loc) st)"

definition move_sp :: "int \<Rightarrow> a64_state \<Rightarrow> a64_state" where
  "move_sp d st = (case st of (s, fp, lr) \<Rightarrow> (s + of_int d, fp, lr))"

text \<open>The instructions of an epilogue; no other instruction of the datatype occurs in one.\<close>

fun run_epilogue_insn :: "(u64 \<Rightarrow> u64) \<Rightarrow> a64_insn \<Rightarrow> a64_state \<Rightarrow> a64_state option" where
  "run_epilogue_insn mem (Ldp_post i r1 r2) st = Some (move_sp (8 * sint i) (load_pair mem (fst st) r1 r2 st))"
| "run_epilogue_insn mem (Ldp_pre i r1 r2) st =
     Some (move_sp (8 * sint i) (load_pair mem (fst st + of_int (8 * sint i)) r1 r2 st))"
| "run_epilogue_insn mem (Ldp_off i r1 r2) st = Some (load_pair mem (fst st + of_int (8 * sint i)) r1 r2 st)"
| "run_epilogue_insn mem (Add_sp sh i) st = Some (move_sp (imm_value sh i) st)"
| "run_epilogue_insn mem _ st = None"

fun run_epilogue :: "(u64 \<Rightarrow> u64) \<Rightarrow> a64_insn list \<Rightarrow> a64_state \<Rightarrow> a64_state option" where
  "run_epilogue mem [] st = Some st"
| "run_epilogue mem (x # xs) st =
     (case run_epilogue_insn mem x st of None \<Rightarrow> None | Some st' \<Rightarrow> run_epilogue mem xs st')"

end
