(* ===== verification/A64Analysis.thy ===== *)
theory A64Analysis
  imports A64Insn
begin

text \<open>
  Correctness of the aarch64 prologue and epilogue detectors against the instructions of \<open>A64Insn\<close>: the rule found in
  a prologue restores the stack pointer of the function's entry, and the rule found in an epilogue does what running the
  epilogue would have done.
\<close>

lemma header_neq: "drop_bit 22 w = h \<Longrightarrow> drop_bit 22 c \<noteq> h \<Longrightarrow> w \<noteq> (c :: u32)"
  by blast

section \<open>Prologues\<close>

lemma reverse_step_prologue:
  assumes "is_prologue_insn x" "in_signed_range 32 (sint s - sp_delta x)"
  shows "\<exists>s'. reverse_step_instruction oc (encode_insn x) s = Val (s', ValidPrologueInstruction) \<and> sint s' = sint s - sp_delta x"
proof (cases x)
  case (Stp_pre i r1 r2)
  let ?w = "encode_pair 0x2a6 i r1 r2"
  note f = encode_pair_fields [of "0x2a6" i r1 r2, simplified]
  have "?w \<noteq> 0xd503237f" by (rule header_neq [OF f(1)]) simp
  then have "reverse_step_instruction oc ?w s =
      obind (isub_oc oc s (imm7_times_8 ?w)) (\<lambda>s. Val (s, ValidPrologueInstruction))"
    by (simp add: reverse_step_instruction_def f)
  moreover obtain s' where "isub_oc oc s (imm7_times_8 ?w) = Val s'" "sint s' = sint s - 8 * sint i"
    using isub_oc_exact [of s "imm7_times_8 ?w" oc] assms(2) imm7_times_8_pair [of "0x2a6" i r1 r2] Stp_pre by auto
  ultimately show ?thesis by (simp add: Stp_pre)
next
  case (Stp_off i r1 r2)
  let ?w = "encode_pair 0x2a4 i r1 r2"
  note f = encode_pair_fields [of "0x2a4" i r1 r2, simplified]
  have "?w \<noteq> 0xd503237f" by (rule header_neq [OF f(1)]) simp
  then show ?thesis by (simp add: reverse_step_instruction_def f Stp_off)
next
  case (Sub_sp sh i)
  let ?w = "encode_imm 0x1a2 sh i"
  note f = encode_imm_fields [of "0x1a2" sh i, simplified]
  have "?w \<noteq> 0xd503237f" by (rule header_neq [OF f(1)]) (cases sh; simp)
  moreover have "drop_bit 22 ?w AND 0x2f9 \<noteq> 0x2a0" unfolding f(1) by (cases sh) simp_all
  ultimately have "reverse_step_instruction oc ?w s =
      obind (iadd_oc oc s (imm12_of ?w)) (\<lambda>s. Val (s, ValidPrologueInstruction))"
    by (simp add: reverse_step_instruction_def f(2-))
  moreover obtain s' where "iadd_oc oc s (imm12_of ?w) = Val s'" "sint s' = sint s + imm_value sh i"
    using iadd_oc_Val [of s "imm12_of ?w" oc] assms(2) imm12_of_encode [of "0x1a2" sh i] Sub_sp by auto
  ultimately show ?thesis by (simp add: Sub_sp)
qed (use assms(1) in \<open>simp_all add: reverse_step_instruction_def\<close>)

lemma reverse_steps_prologue:
  assumes "list_all is_prologue_insn xs" "\<bar>sint s\<bar> + int (length xs) * 2 ^ 24 < 2 ^ 31"
  shows "\<exists>s'. reverse_steps oc (map encode_insn xs @ ws) s = reverse_steps oc ws s' \<and>
     sint s' = sint s - sum_list (map sp_delta xs)"
  using assms
proof (induction xs arbitrary: s)
  case (Cons x xs)
  have b: "\<bar>sp_delta x\<bar> < 2 ^ 24" by (rule sp_delta_bound)
  have n: "\<bar>sint s\<bar> + (2 ^ 24 + int (length xs) * 2 ^ 24) < 2 ^ 31" using Cons.prems(2) by (simp add: algebra_simps)
  have "0 \<le> int (length xs) * 2 ^ 24" by simp
  then have "in_signed_range 32 (sint s - sp_delta x)"
    unfolding in_signed_range_def using b n by simp linarith
  then obtain s1 where s1: "reverse_step_instruction oc (encode_insn x) s = Val (s1, ValidPrologueInstruction)"
    "sint s1 = sint s - sp_delta x" using reverse_step_prologue Cons.prems(1) by fastforce
  have "\<bar>sint s1\<bar> + int (length xs) * 2 ^ 24 < 2 ^ 31" using b n unfolding s1(2) by linarith
  with Cons.IH [of s1] Cons.prems(1) s1 show ?case by auto
qed auto

text \<open>The walk back ends at the start of the bytes or at an instruction that does not belong to a prologue.\<close>

definition stops_walk :: "u32 \<Rightarrow> bool" where
  "stops_walk w =
     (case reverse_step_instruction False w 0 of Val (_, UnexpectedInstruction _) \<Rightarrow> True | _ \<Rightarrow> False)"

lemma reverse_steps_stop:
  assumes "ws \<noteq> [] \<longrightarrow> stops_walk (hd ws)"
  shows "reverse_steps oc ws s = Val s"
proof (cases ws)
  case (Cons w ws')
  with assms have "stops_walk w" by simp
  then obtain e where "reverse_step_instruction oc w s = Val (s, UnexpectedInstruction e)"
    unfolding stops_walk_def reverse_step_instruction_def
    by (auto simp: iadd_oc_def isub_oc_def Let_def split: if_splits outcome.splits)
  with Cons show ?thesis by simp
qed simp

lemma words_of_le_bytes: "words_of (le_bytes w @ bs) = w # words_of bs"
  by (simp add: le_bytes_def u32_from_le_bytes_le_bytes)

lemma words_of_concat: "words_of (concat (map le_bytes ws)) = ws"
  by (induction ws) (simp_all add: words_of_le_bytes)

lemma word_shift_exact: "uint c = uint a + k \<Longrightarrow> c = a + of_int k" for a c :: u64
  by (metis of_int_add word_of_int_uint)

lemma idiv_i32:
  fixes a :: i32
  shows "16 dvd sint a \<Longrightarrow> 16 * sint (idiv a 16) = sint a" and "8 dvd sint a \<Longrightarrow> 8 * sint (idiv a 8) = sint a"
  using sint_idiv_exact [of 16 a] sint_idiv_exact [of 8 a] by simp_all

text \<open>The rule of the prologue detector for a known stack pointer offset.\<close>

lemma detected_prologue:
  assumes xs: "list_all is_prologue_insn xs" "length xs \<le> 64"
    and pre: "pre \<noteq> [] \<longrightarrow> stops_walk (last pre)"
    and nxt: "analyze_prologue_instruction_type w = VeryLikelyPartOfPrologue \<or>
      analyze_prologue_instruction_type w = CouldBePartOfPrologueIfThereIsAlsoAStackPointerSub \<and> sum_list (map sp_delta xs) \<noteq> 0"
  shows "\<exists>s. sint s = - sum_list (map sp_delta xs) \<and>
     analyze_slices oc (concat (map le_bytes (pre @ map encode_insn xs))) (le_bytes w @ bs) = Val (FoundFunctionStart s)"
proof -
  have "list_all is_prologue_insn (rev xs)" "\<bar>sint (0 :: i32)\<bar> + int (length (rev xs)) * 2 ^ 24 < 2 ^ 31" using xs by simp_all
  from reverse_steps_prologue [OF this, of oc "rev pre"] obtain s where
    s: "reverse_steps oc (map encode_insn (rev xs) @ rev pre) 0 = reverse_steps oc (rev pre) s"
      "sint s = - sum_list (map sp_delta xs)" by (auto simp flip: rev_map simp: sum_list_rev)
  moreover have "reverse_steps oc (rev pre) s = Val s" using pre by (intro reverse_steps_stop) (simp add: hd_rev)
  ultimately have "reverse_steps oc (rev (words_of (concat (map le_bytes (pre @ map encode_insn xs))))) 0 = Val s"
    unfolding words_of_concat by (simp add: rev_map)
  moreover have "s = 0 \<longleftrightarrow> sum_list (map sp_delta xs) = 0" using s(2) by (metis neg_equal_0_iff_equal sint_0 signed_eq_0_iff)
  ultimately show ?thesis using nxt s(2)
    by (intro exI [of _ s]) (auto simp: analyze_slices_def le_bytes_def u32_from_le_bytes_le_bytes)
qed

text \<open>
  C18: The prologue detector of aarch64 restores the stack pointer of the function's entry.  Take a function that so far
  executed prologue instructions only (\<open>pacibsp\<close>, stores of register pairs with or without pre-indexing, subtractions
  from the stack pointer), preceded by the end of some other function or by nothing.  If the next instruction is one
  expected in a prologue and the frame is a multiple of 16 bytes below one megabyte, the detector finds a rule, and when
  executing it yields a return address, that is the link register, the frame pointer is unchanged and the stack pointer
  is the one the function was entered with.
\<close>

theorem prologue_analysis_exact_aarch64:
  assumes "list_all is_prologue_insn xs" and "length xs \<le> 64" and "pre \<noteq> [] \<longrightarrow> stops_walk (last pre)"
    and "analyze_prologue_instruction_type w = VeryLikelyPartOfPrologue \<or>
      analyze_prologue_instruction_type w = CouldBePartOfPrologueIfThereIsAlsoAStackPointerSub \<and> sum_list (map sp_delta xs) \<noteq> 0"
    and "depth = - sum_list (map sp_delta xs)" and "16 dvd depth" and "0 \<le> depth" and "depth < 2 ^ 20"
    and "before = concat (map le_bytes (pre @ map encode_insn xs))"
    and "a64_sp regs = entry_sp - of_int depth"
    and "rule = (if depth = 0 then NoOp else OffsetSp (of_int (depth div 16)))"
  shows "rule_from_prologue_analysis_aarch64 oc (before @ le_bytes w @ bs) (length before) = Val (Some rule) \<and>
    (\<forall>regs' ra. exec_aarch64 oc rule True regs rd = Val (regs', Ok (Some ra)) \<longrightarrow>
       a64_sp regs' = entry_sp \<and> a64_fp regs' = a64_fp regs \<and> ra = strip_ptr_auth (lr_mask regs) (a64_lr regs))"
proof -
  obtain s where s: "sint s = depth" "analyze_slices oc before (le_bytes w @ bs) = Val (FoundFunctionStart s)"
    using detected_prologue [OF assms(1-4), of oc bs] assms(5,9) by auto
  have q: "16 * sint (idiv s 16) = depth" using idiv_i32(1) [of s] assms(6) s(1) by simp
  obtain x where x: "signed_to_u16 (idiv s 16) = Some x"
    using q assms(7,8) by (auto simp: signed_to_u16_def)
  then have x': "16 * uint x = depth" using q by (simp add: signed_to_u16_Some_iff)
  have rule: "rule = (if x = 0 then NoOp else OffsetSp x)"
    unfolding assms(11) using x' [symmetric] by (simp add: uint_0_iff)
  have "rule_from_prologue_analysis_aarch64 oc (before @ le_bytes w @ bs) (length before) = Val (Some rule)"
    by (simp add: rule rule_from_prologue_analysis_aarch64_def unwind_rule_from_detected_prologue_aarch64_def s x)
  moreover have "a64_sp regs' = entry_sp \<and> a64_fp regs' = a64_fp regs \<and> ra = strip_ptr_auth (lr_mask regs) (a64_lr regs)"
    if "exec_aarch64 oc rule True regs rd = Val (regs', Ok (Some ra))" for regs' ra
  proof -
    from exec_aarch64_effects [OF that] have e: "ra = strip_ptr_auth (lr_mask regs) (a64_lr regs)"
        "a64_fp regs' = a64_fp regs" "uint (a64_sp regs') = uint (a64_sp regs) + depth"
      using x' by (auto simp: rule documented_effect_aarch64_def split: if_splits)
    from word_shift_exact [OF e(3)] assms(10) e(1,2) show ?thesis by simp
  qed
  ultimately show ?thesis by blast
qed

definition example_regs_aarch64 :: UnwindRegsAarch64 where
  "example_regs_aarch64 = new_with_ptr_auth_mask new_24_40 0x5000 0xfb0 0x2000"

theorem prologue_analysis_exact_aarch64_witness:
  "rule_from_prologue_analysis_aarch64 True
     (concat (map le_bytes ([0xd65f03c0] @ map encode_insn [Sub_sp False 80, Stp_off 4 22 21])) @
      le_bytes (encode_insn (Stp_off 6 20 19)) @ []) 12 = Val (Some (OffsetSp 5)) \<and>
   exec_aarch64 True (OffsetSp 5) True example_regs_aarch64 (\<lambda>_. None) =
     Val (set_a64_sp 0x1000 example_regs_aarch64, Ok (Some 0x5000))"
proof -
  let ?xs = "[Sub_sp False 80, Stp_off 4 22 21]" and ?w = "encode_insn (Stp_off 6 20 19)" and ?regs = example_regs_aarch64
  let ?before = "concat (map le_bytes ([0xd65f03c0] @ map encode_insn ?xs))"
  have 1: "list_all is_prologue_insn ?xs" "length ?xs \<le> 64" by simp_all
  have 2: "[0xd65f03c0 :: u32] \<noteq> [] \<longrightarrow> stops_walk (last [0xd65f03c0])"
    by (simp add: stops_walk_def reverse_step_instruction_def)
  have sum: "sum_list (map sp_delta ?xs) = - 80" by (simp add: imm_value_def)
  have 3: "analyze_prologue_instruction_type ?w = VeryLikelyPartOfPrologue \<or>
      analyze_prologue_instruction_type ?w = CouldBePartOfPrologueIfThereIsAlsoAStackPointerSub \<and> sum_list (map sp_delta ?xs) \<noteq> 0"
    unfolding sum by (simp add: encode_pair_def analyze_prologue_instruction_type_def)
  have len: "length ?before = 12" by (simp add: le_bytes_def)
  have sp: "a64_sp ?regs = 0x1000 - of_int 80" by (simp add: example_regs_aarch64_def new_with_ptr_auth_mask_def)
  have "(80 :: int) = - sum_list (map sp_delta ?xs)" unfolding sum by simp
  from prologue_analysis_exact_aarch64 [OF 1 2 3 this _ _ _ refl sp refl, of True "[]" "\<lambda>_. None"]
  have "rule_from_prologue_analysis_aarch64 True (?before @ le_bytes ?w @ []) 12 = Val (Some (OffsetSp 5))"
    unfolding len by simp
  moreover have "exec_aarch64 True (OffsetSp 5) True ?regs (\<lambda>_. None) = Val (set_a64_sp 0x1000 ?regs, Ok (Some 0x5000))"
    by (simp add: example_regs_aarch64_def new_with_ptr_auth_mask_def new_24_40_def exec_aarch64_def strip_ptr_auth_def
        u16_times_def checked_add_def mask_eq_exp_minus_1 Let_def set_a64_sp_def set_a64_fp_def set_lr_def)
  ultimately show ?thesis by blast
qed

section \<open>Epilogues\<close>

text \<open>What the detector has recorded, as a state of the machine: the stack pointer moved by the offset, and the two
  registers loaded from the recorded slots.\<close>

definition detected_state :: "(u64 \<Rightarrow> u64) \<Rightarrow> a64_state \<Rightarrow> EpilogueDetectorAarch64 \<Rightarrow> a64_state" where
  "detected_state mem st d =
     (case st of (s, fp, lr) \<Rightarrow>
        let slot = (\<lambda>off v. case off of None \<Rightarrow> v | Some o' \<Rightarrow> mem (s + of_int (sint o'))) in
        (s + of_int (sint (ed_sp_offset d)), slot (fp_offset_from_initial_sp d) fp, slot (lr_offset_from_initial_sp d) lr))"

definition slots_aligned :: "EpilogueDetectorAarch64 \<Rightarrow> bool" where
  "slots_aligned d \<longleftrightarrow> 16 dvd sint (ed_sp_offset d) \<and>
     (\<forall>off. fp_offset_from_initial_sp d = Some off \<or> lr_offset_from_initial_sp d = Some off \<longrightarrow> 8 dvd sint off)"

text \<open>The registers of a pair, as numbers of a field.\<close>

lemma register_field:
  assumes "n < 32"
  shows "(of_nat (unat (r :: 5 word)) :: u32) = of_nat n \<longleftrightarrow> r = of_nat n"
proof -
  have r: "unat r < 32" using unsigned_less [where w = r] by simp
  have u: "unat (of_nat m :: u32) = m" "unat (of_nat m :: 5 word) = m" if "m < 32" for m
    using that by (simp_all add: unsigned_of_nat take_bit_nat_eq_self)
  have "(of_nat (unat r) :: u32) = of_nat n \<longleftrightarrow> unat r = n" using u(1) [OF r] u(1) [OF assms] by metis
  also have "\<dots> \<longleftrightarrow> r = of_nat n" using u(2) [OF assms] by (metis word_unat_eq_iff)
  finally show ?thesis .
qed

lemma record_pair_register_field:
  "record_pair_register (ucast r) loc d =
     (if r = 29 then d\<lparr>fp_offset_from_initial_sp := Some loc\<rparr>
      else if r = 30 then d\<lparr>lr_offset_from_initial_sp := Some loc\<rparr> else d)" for r :: "5 word"
  using register_field [of 29 r] register_field [of 30 r] by (simp add: record_pair_register_def)

lemma scast_add_sint: "(scast b :: u64) = scast a + of_int k" if "sint b = sint a + k" for a b :: i32
proof -
  from that have "(of_int (sint b) :: u64) = of_int (sint a + k)" by (simp only:)
  then show ?thesis by simp
qed

text \<open>A load of a pair from the slot at \<open>loc\<close>, as the detector and the machine see it.\<close>

lemma record_pair:
  fixes r1 r2 :: "5 word"
  assumes "slots_aligned d" "8 dvd sint loc" "sint loc2 = sint loc + 8 \<or> r2 \<noteq> 29 \<and> r2 \<noteq> 30"
  defines "d' \<equiv> record_pair_register (ucast r2) loc2 (record_pair_register (ucast r1) loc d)"
  shows "slots_aligned d'" "ed_sp_offset d' = ed_sp_offset d"
    "detected_state mem st d' = load_pair mem (fst st + of_int (sint loc)) r1 r2 (detected_state mem st d)"
proof -
  show "slots_aligned d'"
    using assms by (auto simp: d'_def slots_aligned_def record_pair_register_field split: if_splits)
  show "ed_sp_offset d' = ed_sp_offset d" by (simp add: d'_def record_pair_register_field)
  show "detected_state mem st d' = load_pair mem (fst st + of_int (sint loc)) r1 r2 (detected_state mem st d)"
    using assms(3) scast_add_sint [of loc2 loc 8] by (cases st)
      (auto simp: d'_def detected_state_def record_pair_register_field load_pair_def load_register_def Let_def add.assoc)
qed

lemma load_pair_move_sp: "load_pair mem loc r1 r2 (move_sp k st) = move_sp k (load_pair mem loc r1 r2 st)"
  by (cases st) (simp add: load_pair_def load_register_def move_sp_def)

lemma detected_state_move:
  assumes "sint s = sint (ed_sp_offset d) + k"
  shows "detected_state mem st (d\<lparr>ed_sp_offset := s\<rparr>) = move_sp k (detected_state mem st d)"
  using scast_add_sint [OF assms] by (cases st) (simp add: detected_state_def move_sp_def Let_def)

lemma slots_aligned_move: "slots_aligned d \<Longrightarrow> 16 dvd sint s \<Longrightarrow> slots_aligned (d\<lparr>ed_sp_offset := s\<rparr>)"
  by (simp add: slots_aligned_def)

lemma fst_detected_state: "fst (detected_state mem st d) = fst st + of_int (sint (ed_sp_offset d))"
  by (cases st) (simp add: detected_state_def Let_def)

lemma in_range_32: "\<bar>x\<bar> < 2 ^ 31 \<Longrightarrow> in_signed_range 32 x"
  by (simp add: in_signed_range_def abs_less_iff)

text \<open>A step over a word with the header of a load pair, the three addressing modes apart.\<close>

lemma step_instruction_ldp:
  assumes "w \<noteq> 0xd65f03c0" "w \<noteq> 0xd65f0fff" "w \<noteq> 0xd50323ff" "drop_bit 26 w \<noteq> 5"
    and "drop_bit 22 w AND 0x2f9 = 0x2a1" "drop_bit 5 w AND 31 = 31" "wb = drop_bit 23 w AND 3" "wb \<noteq> 0"
    and "w AND 31 = ucast r1" "drop_bit 10 w AND 31 = ucast (r2 :: 5 word)"
    and "(if wb = 1 then Val (ed_sp_offset d) else iadd_oc oc (ed_sp_offset d) (imm7_times_8 w)) = Val loc"
    and "iadd_oc oc loc 8 = Val loc2" "iadd_oc oc (ed_sp_offset d) (imm7_times_8 w) = Val s'"
    and "d' = record_pair_register (ucast r2) (if r2 = 29 \<or> r2 = 30 then loc2 else 0) (record_pair_register (ucast r1) loc d)"
  shows "step_instruction oc w d = Val (if wb = 3 \<or> wb = 1 then d'\<lparr>ed_sp_offset := s'\<rparr> else d', NeedMore)"
proof -
  have r: "(ucast r2 :: u32) = 29 \<longleftrightarrow> r2 = 29" "(ucast r2 :: u32) = 30 \<longleftrightarrow> r2 = 30"
    using register_field [of 29 r2] register_field [of 30 r2] by simp_all
  show ?thesis
    unfolding step_instruction_def assms(5,6,9,10) assms(7) [symmetric] Let_def r assms(11)
    using assms(1-4,8,12-14) by (cases "r2 = 29 \<or> r2 = 30") simp_all
qed

text \<open>The three addressing modes of a load pair: the slot, and whether the stack pointer is moved.\<close>

lemma step_ldp:
  fixes i :: "7 word" and r1 r2 :: "5 word"
  assumes h: "h \<in> {0x2a3, 0x2a5, 0x2a7}" and a: "slots_aligned d" and k: "h \<noteq> 0x2a5 \<longrightarrow> 16 dvd 8 * sint i"
    and b: "\<bar>sint (ed_sp_offset d)\<bar> < 2 ^ 30"
  defines "base \<equiv> (if h = 0x2a3 then 0 else 8 * sint i)" and "delta \<equiv> (if h = 0x2a5 then 0 else 8 * sint i)"
  shows "\<exists>d'. step_instruction oc (encode_pair h i r1 r2) d = Val (d', NeedMore) \<and> slots_aligned d' \<and>
     sint (ed_sp_offset d') = sint (ed_sp_offset d) + delta \<and>
     detected_state mem st d' =
       move_sp delta (load_pair mem (fst (detected_state mem st d) + of_int base) r1 r2 (detected_state mem st d))"
proof -
  let ?w = "encode_pair h i r1 r2" and ?s = "ed_sp_offset d"
  have h': "h < 1024" using h by auto
  note f = encode_pair_fields [OF h', of i r1 r2] and imm = imm7_times_8_pair [OF h', of i r1 r2]
  have i: "\<bar>8 * sint i\<bar> < 2 ^ 10" using sint_in_signed_range [of i] by (auto simp: in_signed_range_def)
  have ne: "?w \<noteq> 0xd65f03c0" "?w \<noteq> 0xd65f0fff" "?w \<noteq> 0xd50323ff"
    using h by (auto intro!: header_neq [OF f(1)])
  have "in_signed_range 32 (sint ?s + sint (imm7_times_8 ?w))" unfolding imm by (rule in_range_32) (use b i in \<open>simp add: abs_less_iff\<close>)
  then obtain s' where s': "iadd_oc oc ?s (imm7_times_8 ?w) = Val s'" "sint s' = sint ?s + 8 * sint i"
    using iadd_oc_Val [of ?s "imm7_times_8 ?w" oc] imm by auto
  define loc where "loc = (if h = 0x2a3 then ?s else s')"
  have loc: "sint loc = sint ?s + base" using s' by (simp add: loc_def base_def)
  have "\<bar>base\<bar> < 2 ^ 10" using i by (simp add: base_def)
  then have "in_signed_range 32 (sint loc + sint (8 :: i32))" unfolding loc by (intro in_range_32) (use b in \<open>simp add: abs_less_iff\<close>)
  then obtain loc2 where loc2: "iadd_oc oc loc 8 = Val loc2" "sint loc2 = sint loc + 8"
    using iadd_oc_Val [of loc 8 oc] by auto
  let ?l2 = "if r2 = 29 \<or> r2 = 30 then loc2 else 0"
  let ?d' = "record_pair_register (ucast r2) ?l2 (record_pair_register (ucast r1) loc d)"
  have "8 dvd sint loc" using a k by (auto simp: loc base_def slots_aligned_def intro: dvd_trans [of 8 16])
  moreover have "sint ?l2 = sint loc + 8 \<or> r2 \<noteq> 29 \<and> r2 \<noteq> 30" using loc2 by simp
  ultimately have d': "slots_aligned ?d'" "ed_sp_offset ?d' = ?s"
    "detected_state mem st ?d' = load_pair mem (fst st + of_int (sint loc)) r1 r2 (detected_state mem st d)"
    by (rule record_pair [OF a])+
  let ?wb = "drop_bit 23 ?w AND 3"
  have hd: "drop_bit 26 ?w \<noteq> 5" "drop_bit 22 ?w AND 0x2f9 = 0x2a1" "?wb \<noteq> 0"
    and wb: "?wb = 1 \<longleftrightarrow> h = 0x2a3" "?wb = 3 \<longleftrightarrow> h = 0x2a7"
    using h unfolding f(1-3) by auto
  have l: "(if ?wb = 1 then Val ?s else iadd_oc oc ?s (imm7_times_8 ?w)) = Val loc"
    unfolding wb by (simp add: loc_def s')
  have rs: "?w AND 31 = ucast r1" "drop_bit 10 ?w AND 31 = ucast r2" unfolding f(5,7) by simp_all
  let ?d2 = "if ?wb = 3 \<or> ?wb = 1 then ?d'\<lparr>ed_sp_offset := s'\<rparr> else ?d'"
  have st: "step_instruction oc ?w d = Val (?d2, NeedMore)"
    by (rule step_instruction_ldp [OF ne hd(1,2) f(6) refl hd(3) rs l loc2(1) s'(1) refl])
  have d2: "?d2 = (if h = 0x2a5 then ?d' else ?d'\<lparr>ed_sp_offset := s'\<rparr>)" using h unfolding wb by auto
  have base: "fst st + of_int (sint loc) = fst (detected_state mem st d) + of_int base"
    unfolding fst_detected_state loc by (simp add: add.assoc)
  have "slots_aligned ?d2 \<and> sint (ed_sp_offset ?d2) = sint ?s + delta \<and>
      detected_state mem st ?d2 =
        move_sp delta (load_pair mem (fst (detected_state mem st d) + of_int base) r1 r2 (detected_state mem st d))"
  proof (cases "h = 0x2a5")
    case True
    then show ?thesis unfolding d2 using d' base by (simp add: delta_def move_sp_def split: prod.split)
  next
    case False
    have "16 dvd sint s'" using s'(2) a k False by (simp add: slots_aligned_def)
    with False d' base s'(2) show ?thesis
      unfolding d2 by (simp add: delta_def slots_aligned_move detected_state_move)
  qed
  with st show ?thesis by blast
qed

lemma step_add_sp:
  assumes a: "slots_aligned d" "16 dvd imm_value sh i" and b: "\<bar>sint (ed_sp_offset d)\<bar> < 2 ^ 30"
  shows "\<exists>d'. step_instruction oc (encode_imm 0x122 sh i) d = Val (d', NeedMore) \<and> slots_aligned d' \<and>
     sint (ed_sp_offset d') = sint (ed_sp_offset d) + imm_value sh i \<and>
     detected_state mem st d' = move_sp (imm_value sh i) (detected_state mem st d)"
proof -
  let ?w = "encode_imm 0x122 sh i" and ?s = "ed_sp_offset d"
  note f = encode_imm_fields [of "0x122" sh i, simplified] and imm = imm12_of_encode [of "0x122" sh i, simplified]
  have ne: "?w \<noteq> 0xd65f03c0" "?w \<noteq> 0xd65f0fff" "?w \<noteq> 0xd50323ff" "drop_bit 22 ?w AND 0x2f9 \<noteq> 0x2a1"
    by (intro header_neq [OF f(1)]; cases sh; simp)+ (unfold f(1), cases sh; simp)
  have "\<bar>imm_value sh i\<bar> < 2 ^ 24" using sp_delta_bound [of "Add_sp sh i"] by simp
  then have "in_signed_range 32 (sint ?s + sint (imm12_of ?w))"
    unfolding imm by (intro in_range_32) (use b in \<open>simp add: abs_less_iff\<close>)
  then obtain s' where s': "iadd_oc oc ?s (imm12_of ?w) = Val s'" "sint s' = sint ?s + imm_value sh i"
    using iadd_oc_Val [of ?s "imm12_of ?w" oc] imm by auto
  have "step_instruction oc ?w d = Val (d\<lparr>ed_sp_offset := s'\<rparr>, NeedMore)"
    unfolding step_instruction_def using ne by (simp add: f(2-) s')
  moreover have "16 dvd sint s'" using s'(2) a by (simp add: slots_aligned_def)
  ultimately show ?thesis using s'(2) a by (auto simp: slots_aligned_move detected_state_move)
qed

lemma step_epilogue_insn:
  assumes "run_epilogue_insn mem x (detected_state mem st d) = Some st'" "16 dvd sp_delta x" "slots_aligned d"
    "\<bar>sint (ed_sp_offset d)\<bar> < 2 ^ 30"
  shows "\<exists>d'. step_instruction oc (encode_insn x) d = Val (d', NeedMore) \<and> slots_aligned d' \<and>
     sint (ed_sp_offset d') = sint (ed_sp_offset d) + sp_delta x \<and> detected_state mem st d' = st'"
proof (cases x)
  case (Ldp_post i r1 r2)
  with assms step_ldp [of "0x2a3" d i oc r1 r2 mem st] show ?thesis by simp
next
  case (Ldp_pre i r1 r2)
  with assms step_ldp [of "0x2a7" d i oc r1 r2 mem st] show ?thesis by simp
next
  case (Ldp_off i r1 r2)
  with assms step_ldp [of "0x2a5" d i oc r1 r2 mem st] show ?thesis by (simp add: move_sp_def split_beta)
next
  case (Add_sp sh i)
  with assms step_add_sp [of d sh i oc mem st] show ?thesis by simp
qed (use assms(1) in simp_all)

lemma step_exit:
  assumes "\<forall>i. e = B i \<longrightarrow> ed_sp_offset d \<noteq> 0"
  shows "\<exists>r \<in> {FoundReturn, FoundTailCall}. step_instruction oc (encode_exit e) d = Val (d, r)"
proof (cases e)
  case (B i)
  have i: "unat i < 2 ^ 26" using unsigned_less [where w = i] by simp
  then have x: "5 * 2 ^ 26 + unat i < 2 ^ 32" and q: "(5 * 2 ^ 26 + unat i) div 2 ^ 26 = 5" by (simp_all add: div_nat_eqI)
  have "drop_bit 26 (of_nat (5 * 2 ^ 26 + unat i) :: u32) = of_nat 5" by (simp only: field_of_nat(1) [OF x] q)
  then have h: "drop_bit 26 (encode_exit (B i)) = 5" by simp
  have "encode_exit (B i) \<noteq> c" if "drop_bit 26 c \<noteq> 5" for c using h that by metis
  from this [of "0xd65f03c0"] this [of "0xd65f0fff"] this [of "0xd50323ff"] h assms B
  show ?thesis by (simp add: step_instruction_def del: encode_exit.simps)
qed (simp_all add: step_instruction_def)

text \<open>The code of an epilogue, and the walk over it.\<close>

definition epilogue_code :: "a64_insn list \<Rightarrow> a64_exit \<Rightarrow> u32 list" where
  "epilogue_code xs e = map encode_insn xs @ [encode_exit e]"

lemma epilogue_steps_run:
  assumes "run_epilogue mem xs (detected_state mem st d) = Some st'" "list_all (\<lambda>x. 16 dvd sp_delta x) xs" "slots_aligned d"
    "\<bar>sint (ed_sp_offset d)\<bar> + int (length xs) * 2 ^ 24 < 2 ^ 30"
    "\<forall>i. e = B i \<longrightarrow> sint (ed_sp_offset d) + sum_list (map sp_delta xs) \<noteq> 0"
  shows "\<exists>d'. epilogue_steps oc (hd (epilogue_code xs e)) (concat (map le_bytes (tl (epilogue_code xs e))) @ rest) d =
       Val (FoundReturnOrTailCall (ed_sp_offset d') (fp_offset_from_initial_sp d') (lr_offset_from_initial_sp d')) \<and>
     slots_aligned d' \<and> detected_state mem st d' = st'"
  using assms
proof (induction xs arbitrary: d)
  case Nil
  then have "\<forall>i. e = B i \<longrightarrow> ed_sp_offset d \<noteq> 0" by auto
  from step_exit [OF this, of oc] obtain r where "step_instruction oc (encode_exit e) d = Val (d, r)" "r \<in> {FoundReturn, FoundTailCall}"
    by blast
  with Nil show ?case by (auto simp: epilogue_code_def epilogue_steps.simps)
next
  case (Cons x xs)
  obtain st1 where x: "run_epilogue_insn mem x (detected_state mem st d) = Some st1" "run_epilogue mem xs st1 = Some st'"
    using Cons.prems(1) by (auto split: option.splits)
  have n: "\<bar>sint (ed_sp_offset d)\<bar> + (2 ^ 24 + int (length xs) * 2 ^ 24) < 2 ^ 30" "0 \<le> int (length xs) * 2 ^ 24" "(0 :: int) < 2 ^ 24"
    using Cons.prems(4) by (simp_all add: algebra_simps)
  then have "\<bar>sint (ed_sp_offset d)\<bar> < 2 ^ 30" by linarith
  then obtain d1 where d1: "step_instruction oc (encode_insn x) d = Val (d1, NeedMore)" "slots_aligned d1"
    "sint (ed_sp_offset d1) = sint (ed_sp_offset d) + sp_delta x" "detected_state mem st d1 = st1"
    using step_epilogue_insn [OF x(1), of oc] Cons.prems(2,3) by auto
  have "\<bar>sint (ed_sp_offset d1)\<bar> + int (length xs) * 2 ^ 24 < 2 ^ 30"
    unfolding d1(3) using n sp_delta_bound [of x] by linarith
  with Cons.IH [of d1] x(2) Cons.prems(2,5) d1 obtain d' where d':
    "epilogue_steps oc (hd (epilogue_code xs e)) (concat (map le_bytes (tl (epilogue_code xs e))) @ rest) d1 =
       Val (FoundReturnOrTailCall (ed_sp_offset d') (fp_offset_from_initial_sp d') (lr_offset_from_initial_sp d'))"
    "slots_aligned d'" "detected_state mem st d' = st'" by (auto simp: add.assoc)
  have "epilogue_code xs e \<noteq> []" by (simp add: epilogue_code_def)
  then have "concat (map le_bytes (epilogue_code xs e)) = le_bytes (hd (epilogue_code xs e)) @ concat (map le_bytes (tl (epilogue_code xs e)))"
    by (cases "epilogue_code xs e") simp_all
  then have "epilogue_steps oc (encode_insn x) (concat (map le_bytes (epilogue_code xs e)) @ rest) d =
      epilogue_steps oc (hd (epilogue_code xs e)) (concat (map le_bytes (tl (epilogue_code xs e))) @ rest) d1"
    using d1(1) by (subst epilogue_steps.simps) (simp add: le_bytes_def u32_from_le_bytes_le_bytes)
  with d' show ?case by (auto simp: epilogue_code_def)
qed

lemma analyze_load:
  assumes h: "drop_bit 22 w = H" "H = 0x2a3 \<or> H = 0x2a5 \<or> H = 0x2a7" and r: "drop_bit 5 w AND 31 = 31"
  shows "analyze_instruction w = VeryLikelyPartOfEpilogue"
proof -
  have d: "drop_bit 23 w = drop_bit 1 H" "drop_bit 26 w = drop_bit 4 H" by (simp_all flip: h(1))
  have ne: "w \<noteq> c" if "drop_bit 22 c \<noteq> H" for c using h(1) that by blast
  have m: "w AND m \<noteq> c" if "H AND drop_bit 22 m \<noteq> drop_bit 22 c" for m c using that h(1) by (metis drop_bit_and)
  have "w \<noteq> 0xd65f03c0" "w \<noteq> 0xd65f0fff" "w \<noteq> 0xd50323ff" "w \<noteq> 0xca1e07d0" "w \<noteq> 0xb6f00050" "w \<noteq> 0xd4388e20"
    "w AND 0xfffffc1f \<noteq> 0xd61f0000" "w AND 0xfffffc00 \<noteq> 0xd71f0800"
    by (rule ne m; use h(2) in auto)+
  then show ?thesis
    unfolding analyze_instruction_def h(1) d r using h(2) by auto
qed

lemma analyze_pair: "h \<in> {0x2a3, 0x2a5, 0x2a7} \<Longrightarrow> analyze_instruction (encode_pair h i r1 r2) = VeryLikelyPartOfEpilogue"
  by (rule analyze_load [OF encode_pair_fields(1) _ encode_pair_fields(6)]) auto

lemma analyze_add_sp: "analyze_instruction (encode_imm 0x122 sh i) = VeryLikelyPartOfEpilogue"
proof -
  let ?w = "encode_imm 0x122 sh i"
  note f = encode_imm_fields [of "0x122" sh i, simplified]
  have ne: "?w \<noteq> c" if "drop_bit 23 c \<noteq> (0x122 :: u32)" for c using f(2) that by metis
  have m: "?w AND m \<noteq> c" if "(0x122 :: u32) AND drop_bit 23 m \<noteq> drop_bit 23 c" for m c
    using that f(2) by (metis drop_bit_and)
  have h: "drop_bit 22 ?w AND 0x2f9 \<noteq> 0x2a1" unfolding f(1) by (cases sh; simp)
  show ?thesis unfolding analyze_instruction_def using h by (simp add: f(2,3,6,7) ne m)
qed

lemma analyze_epilogue_code:
  assumes "run_epilogue mem xs st = Some st'" "\<forall>i. e = B i \<longrightarrow> xs \<noteq> []"
  shows "analyze_instruction (hd (epilogue_code xs e)) = VeryLikelyPartOfEpilogue"
proof (cases xs)
  case Nil
  with assms(2) show ?thesis by (cases e) (simp_all add: epilogue_code_def analyze_instruction_def)
next
  case (Cons x ys)
  with assms(1) obtain st1 where "run_epilogue_insn mem x st = Some st1" by (auto split: option.splits)
  then have "analyze_instruction (encode_insn x) = VeryLikelyPartOfEpilogue"
    by (cases x) (simp_all add: analyze_pair analyze_add_sp)
  with Cons show ?thesis by (simp add: epilogue_code_def)
qed

lemma detected_epilogue:
  assumes run: "run_epilogue mem xs st = Some st'" and xs: "list_all (\<lambda>x. 16 dvd sp_delta x) xs" "length xs < 64"
    and e: "\<forall>i. e = B i \<longrightarrow> sum_list (map sp_delta xs) \<noteq> 0"
  shows "\<exists>d. analyze_slice oc (pre @ concat (map le_bytes (epilogue_code xs e)) @ rest) (length pre) =
       Val (FoundReturnOrTailCall (ed_sp_offset d) (fp_offset_from_initial_sp d) (lr_offset_from_initial_sp d)) \<and>
     slots_aligned d \<and> detected_state mem st d = st'"
proof -
  let ?c = "epilogue_code xs e" and ?d = new_epilogue_detector
  have s0: "detected_state mem st ?d = st" "slots_aligned ?d" "ed_sp_offset ?d = 0"
    by (simp_all add: detected_state_def slots_aligned_def new_epilogue_detector_def split: prod.split)
  have "\<bar>sint (ed_sp_offset ?d)\<bar> + int (length xs) * 2 ^ 24 < 2 ^ 30" using xs(2) s0(3) by simp
  moreover have "\<forall>i. e = B i \<longrightarrow> sint (ed_sp_offset ?d) + sum_list (map sp_delta xs) \<noteq> 0" using e s0(3) by simp
  ultimately obtain d where d: "epilogue_steps oc (hd ?c) (concat (map le_bytes (tl ?c)) @ rest) ?d =
       Val (FoundReturnOrTailCall (ed_sp_offset d) (fp_offset_from_initial_sp d) (lr_offset_from_initial_sp d))"
     "slots_aligned d" "detected_state mem st d = st'"
    using epilogue_steps_run [of mem xs st ?d st' e oc rest] run xs(1) s0 by auto
  have "\<forall>i. e = B i \<longrightarrow> xs \<noteq> []" using e by auto
  note a = analyze_epilogue_code [OF run this]
  have "?c \<noteq> []" by (simp add: epilogue_code_def)
  then have "concat (map le_bytes ?c) @ rest = le_bytes (hd ?c) @ concat (map le_bytes (tl ?c)) @ rest"
    by (cases ?c) simp_all
  then have "analyze_slice oc (pre @ concat (map le_bytes ?c) @ rest) (length pre) =
      epilogue_steps oc (hd ?c) (concat (map le_bytes (tl ?c)) @ rest) ?d"
    using a by (simp add: analyze_slice_def le_bytes_def u32_from_le_bytes_le_bytes)
  with d show ?thesis by auto
qed

text \<open>The rule for the recorded offsets, in exact terms.\<close>

lemma slot_holds_mem:
  assumes "slot_holds rd s y v" "signed_to_i16 (idiv off 8) = Some y" "8 dvd sint off" "\<forall>a v. rd a = Some v \<longrightarrow> mem a = v"
  shows "v = mem (s + of_int (sint (off :: i32)))"
proof -
  from assms(1) obtain loc where loc: "uint loc = uint s + 8 * sint y" "rd loc = Some v" by (auto simp: slot_holds_def)
  have "8 * sint y = sint off" using assms(2) idiv_i32(2) [OF assms(3)] by (simp add: signed_to_i16_Some_iff)
  with loc assms(4) show ?thesis using word_shift_exact [of loc s "8 * sint y"] by simp
qed

lemma epilogue_rule_effect:
  assumes rule: "epilogue_rule (ed_sp_offset d) (fp_offset_from_initial_sp d) (lr_offset_from_initial_sp d) = Some rule"
    and al: "slots_aligned d" and mem: "\<forall>a v. rd a = Some v \<longrightarrow> mem a = v"
    and eff: "documented_effect_aarch64 rule first rd (lr, s, fp) (lr', s', fp')"
  shows "detected_state mem (s, fp, lr) d = (s', fp', lr')"
proof -
  let ?off = "ed_sp_offset d"
  from rule obtain x where x: "signed_to_u16 (idiv ?off 16) = Some x" by (auto simp: epilogue_rule_def split: option.splits)
  have q: "16 * uint x = sint ?off"
    using x al idiv_i32(1) [of ?off] by (simp add: signed_to_u16_Some_iff slots_aligned_def)
  have sp: "s' = s + of_int (sint ?off)" if "uint s' = uint s + 16 * uint x"
    using word_shift_exact [OF that] q by simp
  show ?thesis
  proof (cases "fp_offset_from_initial_sp d")
    case None
    show ?thesis
    proof (cases "lr_offset_from_initial_sp d")
      case N2: None
      have "uint s' = uint s + 16 * uint x \<and> lr' = lr \<and> fp' = fp"
        using rule eff x None N2 by (auto simp: epilogue_rule_def documented_effect_aarch64_def split: if_splits)
      with sp None N2 show ?thesis by (simp add: detected_state_def)
    next
      case (Some lo)
      then obtain z where z: "signed_to_i16 (idiv lo 8) = Some z" "rule = OffsetSpAndRestoreLr x z"
        using rule x None by (auto simp: epilogue_rule_def)
      have "lr' = mem (s + of_int (sint lo))"
        using eff z al Some by (intro slot_holds_mem [OF _ z(1) _ mem]) (auto simp: documented_effect_aarch64_def slots_aligned_def)
      with sp None Some eff z show ?thesis by (simp add: detected_state_def documented_effect_aarch64_def)
    qed
  next
    case (Some fo)
    with rule x obtain lo y z where o: "lr_offset_from_initial_sp d = Some lo" "signed_to_i16 (idiv fo 8) = Some y"
      "signed_to_i16 (idiv lo 8) = Some z" "rule = OffsetSpAndRestoreFpAndLr x y z"
      by (auto simp: epilogue_rule_def split: option.splits)
    have "lr' = mem (s + of_int (sint lo))"
      using eff o al by (intro slot_holds_mem [OF _ o(3) _ mem]) (auto simp: documented_effect_aarch64_def slots_aligned_def)
    moreover have "fp' = mem (s + of_int (sint fo))"
      using eff o al Some by (intro slot_holds_mem [OF _ o(2) _ mem]) (auto simp: documented_effect_aarch64_def slots_aligned_def)
    ultimately show ?thesis using sp Some o eff by (simp add: detected_state_def documented_effect_aarch64_def)
  qed
qed

text \<open>
  C16: The epilogue detector of aarch64 is sound.  Take code that is the rest of an epilogue: loads of register pairs in
  any addressing mode and additions to the stack pointer that keep it 16-byte aligned, ended by a return, an
  authenticated return, or a tail call after the stack pointer was moved.  At any program counter at its start the
  detector does not panic, and if it finds a rule whose execution yields a return address, then the stack pointer and the
  frame pointer are those the machine has when it reaches the end of the epilogue, and the return address is its link
  register with the authentication bits stripped.
\<close>

theorem epilogue_analysis_sound_aarch64:
  assumes "run_epilogue mem xs (a64_sp regs, a64_fp regs, a64_lr regs) = Some (s', fp', lr')"
    and "list_all (\<lambda>x. 16 dvd sp_delta x) xs" and "length xs < 64"
    and "\<forall>i. e = B i \<longrightarrow> sum_list (map sp_delta xs) \<noteq> 0"
    and "\<forall>a v. rd a = Some v \<longrightarrow> mem a = v"
  shows "\<exists>found. unwind_rule_from_detected_epilogue_aarch64 oc
        (pre @ concat (map le_bytes (epilogue_code xs e)) @ rest) (length pre) = Val found \<and>
     (\<forall>rule is_first_frame regs' ra. found = Some rule \<longrightarrow>
        exec_aarch64 oc rule is_first_frame regs rd = Val (regs', Ok (Some ra)) \<longrightarrow>
        a64_sp regs' = s' \<and> a64_fp regs' = fp' \<and> ra = strip_ptr_auth (lr_mask regs) lr')"
proof -
  obtain d where d: "analyze_slice oc (pre @ concat (map le_bytes (epilogue_code xs e)) @ rest) (length pre) =
       Val (FoundReturnOrTailCall (ed_sp_offset d) (fp_offset_from_initial_sp d) (lr_offset_from_initial_sp d))"
     "slots_aligned d" "detected_state mem (a64_sp regs, a64_fp regs, a64_lr regs) d = (s', fp', lr')"
    using detected_epilogue [OF assms(1-4)] by blast
  let ?found = "epilogue_rule (ed_sp_offset d) (fp_offset_from_initial_sp d) (lr_offset_from_initial_sp d)"
  have "a64_sp regs' = s' \<and> a64_fp regs' = fp' \<and> ra = strip_ptr_auth (lr_mask regs) lr'"
    if f: "?found = Some rule" and x: "exec_aarch64 oc rule is_first_frame regs rd = Val (regs', Ok (Some ra))"
    for rule is_first_frame regs' ra
  proof -
    from exec_aarch64_effects [OF x] obtain new_lr where n: "ra = strip_ptr_auth (lr_mask regs) new_lr"
      "documented_effect_aarch64 rule is_first_frame rd (a64_lr regs, a64_sp regs, a64_fp regs) (new_lr, a64_sp regs', a64_fp regs')"
      by blast
    from epilogue_rule_effect [OF f d(2) assms(5) n(2)] d(3) n(1) show ?thesis by simp
  qed
  with d(1) show ?thesis by (auto simp: unwind_rule_from_detected_epilogue_aarch64_def)
qed

theorem epilogue_analysis_sound_aarch64_witness:
  "\<exists>regs'. exec_aarch64 True (OffsetSpAndRestoreFpAndLr 5 8 9) True (set_a64_sp 0x1000 example_regs_aarch64)
       (\<lambda>a. Some (a + 0x100)) = Val (regs', Ok (Some 0x1148)) \<and>
     a64_sp regs' = 0x1050 \<and> a64_fp regs' = 0x1140"
proof -
  let ?xs = "[Ldp_off 8 29 30, Ldp_off 6 20 19, Add_sp False 80]" and ?mem = "\<lambda>a :: u64. a + 0x100"
  let ?regs = "set_a64_sp 0x1000 example_regs_aarch64" and ?bytes = "concat (map le_bytes (epilogue_code ?xs Ret))"
  have regs: "a64_sp ?regs = 0x1000" by (simp add: set_a64_sp_def)
  have run: "run_epilogue ?mem ?xs (a64_sp ?regs, a64_fp ?regs, a64_lr ?regs) = Some (0x1050, 0x1140, 0x1148)"
    unfolding regs by (simp add: load_pair_def load_register_def move_sp_def imm_value_def)
  have xs: "list_all (\<lambda>x. 16 dvd sp_delta x) ?xs" "length ?xs < 64" "\<forall>i. Ret = B i \<longrightarrow> sum_list (map sp_delta ?xs) \<noteq> 0"
    by (simp_all add: imm_value_def)
  have b: "?bytes = [0xfd, 0x7b, 0x44, 0xa9, 0xf4, 0x4f, 0x43, 0xa9, 0xff, 0x43, 0x01, 0x91, 0xc0, 0x03, 0x5f, 0xd6]"
    by (simp add: epilogue_code_def encode_pair_def encode_imm_def le_bytes_def)
  have f: "unwind_rule_from_detected_epilogue_aarch64 True ?bytes 0 = Val (Some (OffsetSpAndRestoreFpAndLr 5 8 9))"
    unfolding b by code_simp
  have "\<exists>regs'. exec_aarch64 True (OffsetSpAndRestoreFpAndLr 5 8 9) True ?regs (\<lambda>a. Some (?mem a)) = Val (regs', Ok (Some 0x1148))"
    by (simp add: example_regs_aarch64_def new_with_ptr_auth_mask_def new_24_40_def exec_aarch64_def strip_ptr_auth_def
        u16_times_def checked_add_def mask_eq_exp_minus_1 Let_def set_a64_sp_def set_a64_fp_def set_lr_def
        read_at_offset_def read_or_err_def i16_times_8_def checked_add_signed_def wrapping_add_signed_def)
  then obtain regs' where x: "exec_aarch64 True (OffsetSpAndRestoreFpAndLr 5 8 9) True ?regs (\<lambda>a. Some (?mem a)) = Val (regs', Ok (Some 0x1148))"
    by blast
  from epilogue_analysis_sound_aarch64 [OF run xs, of "\<lambda>a. Some (?mem a)" True "[]" "[]"] f x
  have "a64_sp regs' = 0x1050 \<and> a64_fp regs' = 0x1140" by auto
  with x show ?thesis by blast
qed

end
