(* ===== verification/A64Macho.thy ===== *)
theory A64Macho
  imports Macho A64Analysis
begin

text \<open>
  \<^verbatim>\<open>src/aarch64/macho.rs\<close>: compact unwind info opcodes of aarch64.  \<open>OpcodeArm64::parse\<close> of the crate
  \<open>macho_unwind_info\<close> is a parameter; the datatype has the constructors of its result with the fields the source reads.
\<close>

datatype OpcodeArm64 = Null | Frameless u16 | Dwarf u32 | FrameBased | UnrecognizedKind u8

type_synonym ('m, 'g) cui_result_aarch64 =
  "(UnwindRuleAarch64 CuiUnwindResult, ('m, 'g) CompactUnwindInfoUnwinderError) result"

definition rule_for_opcode_aarch64 :: "OpcodeArm64 \<Rightarrow> bool \<Rightarrow> ('m, 'g) cui_result_aarch64" where
  "rule_for_opcode_aarch64 opc is_first_frame =
     (case opc of
        Null \<Rightarrow> Err FunctionHasNoInfo
      | Frameless stack_size \<Rightarrow>
          if is_first_frame
          then Ok (CuiExecRule (if stack_size = 0 then NoOp else OffsetSp (stack_size div 16)))
          else Err CallerCannotBeFrameless
      | Dwarf eh_frame_fde \<Rightarrow> Ok (NeedDwarf eh_frame_fde)
      | FrameBased \<Rightarrow> Ok (CuiExecRule UseFramePointer)
      | UnrecognizedKind kind \<Rightarrow> Err (BadOpcodeKind kind))"

definition compact_frame_aarch64 ::
  "bool \<Rightarrow> (u32 \<Rightarrow> OpcodeArm64) \<Rightarrow> MachoFunction \<Rightarrow> bool \<Rightarrow> nat \<Rightarrow> u8 list option \<Rightarrow> ('m, 'g) cui_result_aarch64 outcome" where
  "compact_frame_aarch64 oc parse_opcode f is_first_frame address_offset bytes =
     (let opc = parse_opcode (opcode f) in
      if \<not> is_first_frame then Val (rule_for_opcode_aarch64 opc is_first_frame)
      else if opc = Null then Val (Ok (CuiExecRule NoOp))
      else
        obind (case bytes of
                 None \<Rightarrow> Val None
               | Some bs \<Rightarrow> rule_from_instruction_analysis_aarch64 oc bs address_offset) (\<lambda>found.
          Val (case found of
                 Some rule \<Rightarrow> Ok (CuiExecRule rule)
               | None \<Rightarrow> rule_for_opcode_aarch64 opc is_first_frame)))"

definition rule_for_stub_helper_aarch64 :: "u32 \<Rightarrow> UnwindRuleAarch64" where
  "rule_for_stub_helper_aarch64 off = (if off < 0xc then NoOp else if off < 0x18 then OffsetSp 1 else NoOp)"

definition macho_aarch64 :: "bool \<Rightarrow> (u32 \<Rightarrow> OpcodeArm64) \<Rightarrow> (UnwindRuleAarch64, 'm, 'g) CompactUnwindInfoUnwinding" where
  "macho_aarch64 oc parse_opcode = \<lparr>cui_unwind_frame = compact_frame_aarch64 oc parse_opcode,
     cui_rule_for_stub_helper = (\<lambda>off. Ok (CuiExecRule (rule_for_stub_helper_aarch64 off)))\<rparr>"

section \<open>Panics\<close>

text \<open>The immediates of arbitrary words are bounded.\<close>

lemma imm7_times_8_bound: "\<bar>sint (imm7_times_8 w)\<bar> < 2 ^ 24"
proof -
  let ?x = "drop_bit 15 w AND 127"
  have "?x \<le> 127" by (rule word_and_le1)
  then have "unat ?x \<in> set [0..<128]" by (simp add: word_le_nat_alt)
  with imm7_table have t: "sint (scast (signed_drop_bit 6 (push_bit 9 (ucast (of_nat (unat ?x) :: u32) :: i16))) :: i32) =
      8 * sint (of_nat (unat ?x) :: 7 word)" unfolding list_all_iff by blast
  have "(of_nat (unat ?x) :: u32) = ?x" by simp
  then have "sint (imm7_times_8 w) = 8 * sint (of_nat (unat ?x) :: 7 word)" using t unfolding imm7_times_8_def by (simp only:)
  then show ?thesis using sint_in_signed_range [of "of_nat (unat ?x) :: 7 word"] by (auto simp: in_signed_range_def abs_less_iff)
qed

lemma imm12_of_bound: "0 \<le> sint (imm12_of w) \<and> sint (imm12_of w) < 2 ^ 24"
proof -
  let ?x = "drop_bit 10 w AND 0xfff"
  have x: "uint ?x \<le> 0xfff" using word_and_le1 [of "drop_bit 10 w" "0xfff"] by (simp add: word_le_def)
  have p: "push_bit 12 ?x = word_of_int (4096 * uint ?x)" by (simp add: push_bit_eq_mult)
  have "sint (word_of_int k :: i32) = k" if "0 \<le> k" "k < 2 ^ 24" for k
    by (rule sint_of_range) (use that in \<open>simp add: in_signed_range_def\<close>)
  from this [of "4096 * uint ?x"] this [of "uint ?x"] x show ?thesis
    unfolding imm12_of_def Let_def p by auto
qed

lemma iadd_oc_bounded:
  fixes a b :: i32
  assumes "oc \<longrightarrow> \<bar>sint a\<bar> + k < 2 ^ 31" "\<bar>sint b\<bar> \<le> k"
  shows "\<exists>c. iadd_oc oc a b = Val c \<and> (oc \<longrightarrow> \<bar>sint c\<bar> \<le> \<bar>sint a\<bar> + k)"
proof (cases oc)
  case True
  then have "in_signed_range 32 (sint a + sint b)" using assms by (intro in_range_32) linarith
  from iadd_oc_Val [where 'a = 32, simplified, OF this, of oc] assms(2) show ?thesis by force
qed (simp add: iadd_oc_def)

lemma isub_oc_bounded:
  fixes a b :: i32
  assumes "oc \<longrightarrow> \<bar>sint a\<bar> + k < 2 ^ 31" "\<bar>sint b\<bar> \<le> k"
  shows "\<exists>c. isub_oc oc a b = Val c \<and> (oc \<longrightarrow> \<bar>sint c\<bar> \<le> \<bar>sint a\<bar> + k)"
proof (cases oc)
  case True
  then have "in_signed_range 32 (sint a - sint b)" using assms by (intro in_range_32) linarith
  from isub_oc_exact [where 'a = 32, simplified, OF this, of oc] assms(2) show ?thesis by force
qed (simp add: isub_oc_def)

lemma reverse_step_no_panic:
  assumes "oc \<longrightarrow> \<bar>sint s\<bar> + 2 ^ 24 < 2 ^ 31"
  shows "\<exists>s' r. reverse_step_instruction oc w s = Val (s', r) \<and> (oc \<longrightarrow> \<bar>sint s'\<bar> \<le> \<bar>sint s\<bar> + 2 ^ 24)"
proof -
  obtain a where a: "isub_oc oc s (imm7_times_8 w) = Val a" "oc \<longrightarrow> \<bar>sint a\<bar> \<le> \<bar>sint s\<bar> + 2 ^ 24"
    using isub_oc_bounded [OF assms] imm7_times_8_bound [of w] by force
  obtain b where b: "iadd_oc oc s (imm12_of w) = Val b" "oc \<longrightarrow> \<bar>sint b\<bar> \<le> \<bar>sint s\<bar> + 2 ^ 24"
    using iadd_oc_bounded [OF assms] imm12_of_bound [of w] by force
  show ?thesis unfolding reverse_step_instruction_def using a b by (simp add: Let_def)
qed

lemma reverse_steps_no_panic:
  assumes "oc \<longrightarrow> \<bar>sint s\<bar> + int (length ws) * 2 ^ 24 < 2 ^ 31"
  shows "no_panic (reverse_steps oc ws s)"
  using assms
proof (induction ws arbitrary: s)
  case (Cons w ws)
  have n: "oc \<longrightarrow> \<bar>sint s\<bar> + (2 ^ 24 + int (length ws) * 2 ^ 24) < 2 ^ 31" "0 \<le> int (length ws) * 2 ^ 24"
    using Cons.prems by (simp_all add: algebra_simps)
  then obtain s' r where s': "reverse_step_instruction oc w s = Val (s', r)" "oc \<longrightarrow> \<bar>sint s'\<bar> \<le> \<bar>sint s\<bar> + 2 ^ 24"
    using reverse_step_no_panic [of oc s w] by fastforce
  have "no_panic (reverse_steps oc ws s')" by (rule Cons.IH) (use s'(2) n in linarith)
  with s' show ?case by (cases r) auto
qed simp

lemma step_no_panic:
  assumes "oc \<longrightarrow> \<bar>sint (ed_sp_offset d)\<bar> + 2 ^ 25 < 2 ^ 31"
  shows "\<exists>d' r. step_instruction oc w d = Val (d', r) \<and> (oc \<longrightarrow> \<bar>sint (ed_sp_offset d')\<bar> \<le> \<bar>sint (ed_sp_offset d)\<bar> + 2 ^ 24)"
proof -
  let ?s = "ed_sp_offset d"
  have k: "oc \<longrightarrow> \<bar>sint ?s\<bar> + 2 ^ 24 < 2 ^ 31" using assms by auto
  obtain a where a: "iadd_oc oc ?s (imm7_times_8 w) = Val a" "oc \<longrightarrow> \<bar>sint a\<bar> \<le> \<bar>sint ?s\<bar> + 2 ^ 24"
    using iadd_oc_bounded [OF k] imm7_times_8_bound [of w] by force
  obtain b where b: "iadd_oc oc ?s (imm12_of w) = Val b" "oc \<longrightarrow> \<bar>sint b\<bar> \<le> \<bar>sint ?s\<bar> + 2 ^ 24"
    using iadd_oc_bounded [OF k] imm12_of_bound [of w] by force
  define loc where "loc = (if drop_bit 23 w AND 3 = 1 then ?s else a)"
  have "oc \<longrightarrow> \<bar>sint loc\<bar> + 8 < 2 ^ 31" using a(2) assms by (auto simp: loc_def)
  then obtain c where c: "iadd_oc oc loc 8 = Val c" using iadd_oc_bounded [of oc loc 8 8] by auto
  have l: "(if drop_bit 23 w AND 3 = 1 then Val ?s else iadd_oc oc ?s (imm7_times_8 w)) = Val loc"
    by (simp add: loc_def a(1))
  have sp: "ed_sp_offset (record_pair_register r x e) = ed_sp_offset e" for r x e by (simp add: record_pair_register_def)
  show ?thesis
    unfolding step_instruction_def l Let_def using a b c
    by (cases "drop_bit 10 w AND 31 = 29 \<or> drop_bit 10 w AND 31 = 30") (auto simp: sp)
qed

lemma epilogue_steps_no_panic:
  assumes "oc \<longrightarrow> \<bar>sint (ed_sp_offset d)\<bar> + int (length bytes div 4 + 2) * 2 ^ 24 < 2 ^ 31"
  shows "no_panic (epilogue_steps oc w bytes d)"
  using assms
proof (induction bytes arbitrary: w d rule: length_induct)
  case (1 bytes)
  have "oc \<longrightarrow> \<bar>sint (ed_sp_offset d)\<bar> + 2 ^ 25 < 2 ^ 31" using "1.prems" by (auto simp: algebra_simps)
  then obtain d' r where d': "step_instruction oc w d = Val (d', r)"
    "oc \<longrightarrow> \<bar>sint (ed_sp_offset d')\<bar> \<le> \<bar>sint (ed_sp_offset d)\<bar> + 2 ^ 24" using step_no_panic by blast
  show ?case
  proof (cases "length bytes < 4")
    case True
    with d'(1) show ?thesis by (subst epilogue_steps.simps) (cases r; simp add: Let_def)
  next
    case False
    let ?w = "u32_from_le_bytes (bytes ! 0) (bytes ! 1) (bytes ! 2) (bytes ! 3)"
    have q: "length bytes div 4 = Suc (length (drop 4 bytes) div 4)" using False by (simp add: le_div_geq)
    have "no_panic (epilogue_steps oc ?w (drop 4 bytes) d')"
      by (rule "1.IH" [rule_format]) (use False "1.prems" d'(2) in \<open>auto simp: q algebra_simps\<close>)
    with d'(1) False show ?thesis by (subst epilogue_steps.simps) (cases r; simp add: Let_def)
  qed
qed

lemma length_words_of: "length (words_of bs) = length bs div 4"
  by (induction bs rule: words_of.induct) (auto simp: le_div_geq)

lemma analysis_no_panic_aarch64:
  assumes "off \<le> length bs" "oc \<longrightarrow> length bs \<le> 500"
  shows "no_panic (rule_from_instruction_analysis_aarch64 oc bs off)"
proof -
  let ?before = "take off bs" and ?after = "drop off bs"
  have "oc \<longrightarrow> int (length bs div 4) * 2 ^ 24 < 2 ^ 31" using assms(2) by auto
  moreover have "length ?before div 4 \<le> length bs div 4" by (simp add: div_le_mono)
  ultimately have "oc \<longrightarrow> \<bar>sint (0 :: i32)\<bar> + int (length (rev (words_of ?before))) * 2 ^ 24 < 2 ^ 31"
    by (auto simp: length_words_of)
  from reverse_steps_no_panic [OF this] have p: "no_panic (analyze_slices oc ?before ?after)"
    by (auto simp: analyze_slices_def Let_def split: list.splits)
  have e: "no_panic (analyze_slice oc bs off)"
  proof (cases "length ?after < 4")
    case False
    have "length (drop 4 ?after) div 4 + 2 \<le> length bs div 4 + 1" using False assms(1) by (simp add: le_div_geq)
    moreover have "oc \<longrightarrow> int (length bs div 4 + 1) * 2 ^ 24 < 2 ^ 31" using assms(2) by auto
    ultimately have "oc \<longrightarrow> \<bar>sint (ed_sp_offset new_epilogue_detector)\<bar> + int (length (drop 4 ?after) div 4 + 2) * 2 ^ 24 < 2 ^ 31"
      by (auto simp: new_epilogue_detector_def)
    from epilogue_steps_no_panic [OF this] False assms(1) show ?thesis
      by (auto simp: analyze_slice_def Let_def split: EpilogueInstructionType.splits)
  qed (use assms(1) in \<open>simp add: analyze_slice_def\<close>)
  from p obtain x where "analyze_slices oc ?before ?after = Val x" by blast
  then obtain r where r: "rule_from_prologue_analysis_aarch64 oc bs off = Val r"
    using assms(1) by (simp add: rule_from_prologue_analysis_aarch64_def unwind_rule_from_detected_prologue_aarch64_def)
  from e obtain y where "analyze_slice oc bs off = Val y" by blast
  then have "no_panic (unwind_rule_from_detected_epilogue_aarch64 oc bs off)"
    by (simp add: unwind_rule_from_detected_epilogue_aarch64_def)
  with r show ?thesis by (cases r) (simp_all add: rule_from_instruction_analysis_aarch64_def)
qed

lemma compact_frame_no_panic_aarch64:
  assumes "\<And>bs. bytes = Some bs \<Longrightarrow> off < length bs \<and> (oc \<longrightarrow> length bs \<le> 500)"
  shows "no_panic (compact_frame_aarch64 oc parse_opcode f is_first_frame off bytes :: ('m, 'g) cui_result_aarch64 outcome)"
proof (cases bytes)
  case (Some bs)
  then have "off \<le> length bs" "oc \<longrightarrow> length bs \<le> 500" using assms by auto
  then obtain r where "rule_from_instruction_analysis_aarch64 oc bs off = Val r" using analysis_no_panic_aarch64 by blast
  with Some show ?thesis by (cases r) (auto simp: compact_frame_aarch64_def Let_def)
qed (auto simp: compact_frame_aarch64_def Let_def)

interpretation a64_macho: compact_unwinding "macho_aarch64 oc parse_opcode" "\<lambda>bs. oc \<longrightarrow> length bs \<le> 500" for oc parse_opcode
  by unfold_locales (simp add: macho_aarch64_def compact_frame_no_panic_aarch64)

end
