(* ===== verification/X86Pe.thy ===== *)
theory X86Pe
  imports Pe X86Rule
begin

text \<open>
  \<^verbatim>\<open>src/x86_64/pe.rs\<close>: unwinding one x86_64 frame with the unwind codes of a PE module, or by simulating the rest of an
  epilog.

  The crate \<open>pe_unwind_info\<close> is a parameter: the record \<open>PeLib\<close> has the functions of it the source calls, over an abstract
  type of parsed unwind infos and of the operations the source does not look at.
\<close>

section \<open>The interface of pe-unwind-info\<close>

datatype PeRegister =
    PE_RAX | PE_RCX | PE_RDX | PE_RBX | PE_RSP | PE_RBP | PE_RSI | PE_RDI
  | PE_R8 | PE_R9 | PE_R10 | PE_R11 | PE_R12 | PE_R13 | PE_R14 | PE_R15

datatype FunctionEpilogInstruction = AddSP u32 | AddSPFromFP u32 | PopReg PeRegister

datatype 'op UnwindOperation = UnStackAlloc u32 | PopNonVolatile PeRegister | OtherOperation 'op

record RuntimeFunction =
  begin_address :: u32
  rf_end_address :: u32
  unwind_info_address :: u32

text \<open>The trait \<open>UnwindState\<close> through which \<open>resolve_operation\<close> reads and writes registers and reads the stack.\<close>

record 'st UnwindState =
  us_read_register :: "PeRegister \<Rightarrow> 'st \<Rightarrow> u64"
  us_read_stack :: "u64 \<Rightarrow> u64 option"
  us_write_register :: "PeRegister \<Rightarrow> u64 \<Rightarrow> 'st \<Rightarrow> 'st"

datatype controlflow = FlowContinue | FlowBreak u64

record ('info, 'op) PeLib =
  pe_lookup :: "u8 list \<Rightarrow> u32 \<Rightarrow> RuntimeFunction option"
  pe_parse_info :: "u8 list \<Rightarrow> 'info option"
  pe_frame_register :: "'info \<Rightarrow> PeRegister option"
  pe_chained :: "'info \<Rightarrow> RuntimeFunction option"
  pe_unwind_operations :: "'info \<Rightarrow> (u8 \<times> 'op UnwindOperation) list"
  pe_parse_sequence :: "u8 list \<Rightarrow> PeRegister option \<Rightarrow> FunctionEpilogInstruction list option"
  pe_resolve_operation :: "'info \<Rightarrow> UnwindRegsX86_64 UnwindState \<Rightarrow> 'op UnwindOperation \<Rightarrow> UnwindRegsX86_64 \<Rightarrow>
    UnwindRegsX86_64 \<times> controlflow option"

section \<open>Registers and the state\<close>

fun convert_pe_register :: "PeRegister \<Rightarrow> Reg" where
  "convert_pe_register PE_RAX = RAX"
| "convert_pe_register PE_RCX = RCX"
| "convert_pe_register PE_RDX = RDX"
| "convert_pe_register PE_RBX = RBX"
| "convert_pe_register PE_RSP = RSP"
| "convert_pe_register PE_RBP = RBP"
| "convert_pe_register PE_RSI = RSI"
| "convert_pe_register PE_RDI = RDI"
| "convert_pe_register PE_R8 = R8"
| "convert_pe_register PE_R9 = R9"
| "convert_pe_register PE_R10 = R10"
| "convert_pe_register PE_R11 = R11"
| "convert_pe_register PE_R12 = R12"
| "convert_pe_register PE_R13 = R13"
| "convert_pe_register PE_R14 = R14"
| "convert_pe_register PE_R15 = R15"

definition pe_state :: "stack_reader \<Rightarrow> UnwindRegsX86_64 UnwindState" where
  "pe_state rd = \<lparr>us_read_register = (\<lambda>r regs. get regs (convert_pe_register r)), us_read_stack = rd,
     us_write_register = (\<lambda>r v regs. set_reg (convert_pe_register r) v regs)\<rparr>"

text \<open>The two \<open>From\<close> conversions to \<open>OffsetOrPop\<close>.\<close>

fun epilog_offset_or_pop :: "FunctionEpilogInstruction \<Rightarrow> OffsetOrPop" where
  "epilog_offset_or_pop (AddSP off) = (case u32_to_u16 (off div 8) of Some v \<Rightarrow> OffsetBy8 v | None \<Rightarrow> NoOffsetOrPop)"
| "epilog_offset_or_pop (PopReg reg) = Pop (convert_pe_register reg)"
| "epilog_offset_or_pop _ = NoOffsetOrPop"

fun operation_offset_or_pop :: "'op UnwindOperation \<Rightarrow> OffsetOrPop" where
  "operation_offset_or_pop (UnStackAlloc off) = (case u32_to_u16 (off div 8) of Some v \<Rightarrow> OffsetBy8 v | None \<Rightarrow> NoOffsetOrPop)"
| "operation_offset_or_pop (PopNonVolatile reg) = Pop (convert_pe_register reg)"
| "operation_offset_or_pop _ = NoOffsetOrPop"

section \<open>Unwinding a frame\<close>

type_synonym pe_result = "(UnwindRuleX86_64 UnwindResult, PeUnwinderError) result"

definition read_stack_err :: "stack_reader \<Rightarrow> u64 \<Rightarrow> (u64, PeUnwinderError) result" where
  "read_stack_err rd a = ok_or (rd a) (MissingStackData (Some a))"

text \<open>Reading the return address and popping it, the end of both paths.\<close>

definition pe_return :: "bool \<Rightarrow> UnwindRegsX86_64 \<Rightarrow> stack_reader \<Rightarrow> (UnwindRegsX86_64 \<times> pe_result) outcome" where
  "pe_return oc regs rd =
     (let rsp = get regs RSP in
      case read_stack_err rd rsp of
        Err e \<Rightarrow> Val (regs, Err e)
      | Ok ra \<Rightarrow> obind (add_oc oc rsp 8) (\<lambda>rsp'. Val (set_reg RSP rsp' regs, Ok (Uncacheable ra))))"

text \<open>Simulating the remaining epilog instructions.\<close>

fun simulate_epilog ::
  "bool \<Rightarrow> PeRegister option \<Rightarrow> FunctionEpilogInstruction list \<Rightarrow> UnwindRegsX86_64 \<Rightarrow> stack_reader \<Rightarrow>
   (UnwindRegsX86_64 \<times> pe_result) outcome" where
  "simulate_epilog oc fr [] regs rd = pe_return oc regs rd"
| "simulate_epilog oc fr (AddSP off # is) regs rd =
     obind (add_oc oc (get regs RSP) (ucast off)) (\<lambda>rsp. simulate_epilog oc fr is (set_reg RSP rsp regs) rd)"
| "simulate_epilog oc fr (AddSPFromFP off # is) regs rd =
     (case fr of
        None \<Rightarrow> Panic UnwrapFailed
      | Some fp \<Rightarrow>
          obind (add_oc oc (get regs (convert_pe_register fp)) (ucast off)) (\<lambda>rsp.
            simulate_epilog oc fr is (set_reg RSP rsp regs) rd))"
| "simulate_epilog oc fr (PopReg reg # is) regs rd =
     (let rsp = get regs RSP in
      case read_stack_err rd rsp of
        Err e \<Rightarrow> Val (regs, Err e)
      | Ok val \<Rightarrow>
          obind (add_oc oc rsp 8) (\<lambda>rsp'.
            simulate_epilog oc fr is (set_reg RSP rsp' (set_reg (convert_pe_register reg) val regs)) rd))"

text \<open>The unwind info at an address.\<close>

definition unwind_info_at ::
  "('info, 'op) PeLib \<Rightarrow> PeSections \<Rightarrow> u32 \<Rightarrow> ('info, PeUnwinderError) result outcome" where
  "unwind_info_at L s a =
     obind (unwind_info_memory_at_rva s a) (\<lambda>r.
       Val (case r of Err e \<Rightarrow> Err e | Ok bs \<Rightarrow> ok_or (pe_parse_info L bs) UnwindInfoParseError))"

text \<open>All chained unwind infos, the first one first, or the first error.  \<open>None\<close> when the chain never ends.\<close>

partial_function (option) chained_infos ::
  "('info, 'op) PeLib \<Rightarrow> PeSections \<Rightarrow> 'info \<Rightarrow> ('info list, PeUnwinderError) result outcome option" where
  "chained_infos L s info =
     (case pe_chained L info of
        None \<Rightarrow> Some (Val (Ok [info]))
      | Some f \<Rightarrow>
          (case unwind_info_at L s (unwind_info_address f) of
             Panic p \<Rightarrow> Some (Panic p)
           | Val (Err e) \<Rightarrow> Some (Val (Err e))
           | Val (Ok info') \<Rightarrow>
               Option.bind (chained_infos L s info') (\<lambda>r.
                 Some (obind r (\<lambda>infos. Val (map_result (Cons info) infos))))))"

text \<open>The operations of all infos; those of the first one only from the current offset in the function on.\<close>

fun chained_operations :: "('info, 'op) PeLib \<Rightarrow> u32 \<Rightarrow> 'info list \<Rightarrow> 'op UnwindOperation list" where
  "chained_operations L off [] = []"
| "chained_operations L off (info # infos) =
     map snd (dropWhile (\<lambda>(o', _). ucast o' > off) (pe_unwind_operations L info)) @
     concat (map (\<lambda>i. map snd (pe_unwind_operations L i)) infos)"

text \<open>Resolving the operations one after the other.\<close>

fun resolve_operations ::
  "bool \<Rightarrow> ('info, 'op) PeLib \<Rightarrow> 'info \<Rightarrow> 'op UnwindOperation list \<Rightarrow> UnwindRegsX86_64 \<Rightarrow> stack_reader \<Rightarrow>
   (UnwindRegsX86_64 \<times> pe_result) outcome" where
  "resolve_operations oc L info [] regs rd = pe_return oc regs rd"
| "resolve_operations oc L info (op # ops) regs rd =
     (case pe_resolve_operation L info (pe_state rd) op regs of
        (regs', None) \<Rightarrow> Val (regs', Err (MissingStackData None))
      | (regs', Some (FlowBreak ra)) \<Rightarrow> Val (regs', Ok (Uncacheable ra))
      | (regs', Some FlowContinue) \<Rightarrow> resolve_operations oc L info ops regs' rd)"

text \<open>The first frame may be in an epilog: \<open>Some\<close> with the result when it is.\<close>

definition pe_epilog ::
  "bool \<Rightarrow> ('info, 'op) PeLib \<Rightarrow> PeSections \<Rightarrow> RuntimeFunction \<Rightarrow> 'info \<Rightarrow> u32 \<Rightarrow> UnwindRegsX86_64 \<Rightarrow> stack_reader \<Rightarrow>
   (UnwindRegsX86_64 \<times> pe_result) option outcome" where
  "pe_epilog oc L s f info a regs rd =
     obind (sub_oc oc (rf_end_address f) a) (\<lambda>bytes.
       obind (text_memory_at_rva s a) (\<lambda>r.
         case r of
           Err e \<Rightarrow> Val (Some (regs, Err e))
         | Ok mem \<Rightarrow>
             if length mem < unat bytes then Panic IndexOutOfBounds
             else
               (case pe_parse_sequence L (take (unat bytes) mem) (pe_frame_register L info) of
                  None \<Rightarrow> Val None
                | Some is \<Rightarrow>
                    obind (for_sequence_of_offset_or_pop oc (map epilog_offset_or_pop is)) (\<lambda>rule_opt.
                      case rule_opt of
                        Some rule \<Rightarrow> Val (Some (regs, Ok (ExecRule rule)))
                      | None \<Rightarrow> obind (simulate_epilog oc (pe_frame_register L info) is regs rd) (\<lambda>x. Val (Some x))))))"

text \<open>The unwind codes.\<close>

definition pe_codes ::
  "bool \<Rightarrow> ('info, 'op) PeLib \<Rightarrow> PeSections \<Rightarrow> RuntimeFunction \<Rightarrow> 'info \<Rightarrow> u32 \<Rightarrow> UnwindRegsX86_64 \<Rightarrow> stack_reader \<Rightarrow>
   (UnwindRegsX86_64 \<times> pe_result) outcome" where
  "pe_codes oc L s f info a regs rd =
     (case chained_infos L s info of
        None \<Rightarrow> Panic Diverges
      | Some r \<Rightarrow>
          obind r (\<lambda>infos_res.
            case infos_res of
              Err e \<Rightarrow> Val (regs, Err e)
            | Ok infos \<Rightarrow>
                obind (sub_oc oc a (begin_address f)) (\<lambda>off.
                  let ops = chained_operations L off infos in
                  obind (for_sequence_of_offset_or_pop oc (map operation_offset_or_pop ops)) (\<lambda>rule_opt.
                    case rule_opt of
                      Some rule \<Rightarrow> Val (regs, Ok (ExecRule rule))
                    | None \<Rightarrow> resolve_operations oc L info ops regs rd))))"

definition pe_unwind_frame_x86_64 ::
  "bool \<Rightarrow> ('info, 'op) PeLib \<Rightarrow> PeSections \<Rightarrow> u32 \<Rightarrow> UnwindRegsX86_64 \<Rightarrow> bool \<Rightarrow> stack_reader \<Rightarrow>
   (UnwindRegsX86_64 \<times> pe_result) outcome" where
  "pe_unwind_frame_x86_64 oc L s a regs is_first_frame rd =
     (case pe_lookup L (pdata s) a of
        None \<Rightarrow> Val (regs, Ok (ExecRule JustReturn))
      | Some f \<Rightarrow>
          obind (unwind_info_at L s (unwind_info_address f)) (\<lambda>r.
            case r of
              Err e \<Rightarrow> Val (regs, Err e)
            | Ok info \<Rightarrow>
                obind (if is_first_frame then pe_epilog oc L s f info a regs rd else Val None) (\<lambda>ep.
                  case ep of
                    Some x \<Rightarrow> Val x
                  | None \<Rightarrow> pe_codes oc L s f info a regs rd)))"


section \<open>Chains of unwind infos\<close>

text \<open>The unwind info the iterator visits next, and after \<open>n\<close> steps.\<close>

definition next_info :: "('info, 'op) PeLib \<Rightarrow> PeSections \<Rightarrow> 'info \<Rightarrow> 'info option" where
  "next_info L s info =
     (case pe_chained L info of
        None \<Rightarrow> None
      | Some f \<Rightarrow> (case unwind_info_at L s (unwind_info_address f) of Val (Ok info') \<Rightarrow> Some info' | _ \<Rightarrow> None))"

fun info_after :: "('info, 'op) PeLib \<Rightarrow> PeSections \<Rightarrow> nat \<Rightarrow> 'info \<Rightarrow> 'info option" where
  "info_after L s 0 info = Some info"
| "info_after L s (Suc n) info = Option.bind (next_info L s info) (info_after L s n)"

lemma chained_infos_next:
  "next_info L s info = Some info' \<Longrightarrow>
   chained_infos L s info =
     Option.bind (chained_infos L s info') (\<lambda>r. Some (obind r (\<lambda>infos. Val (map_result (Cons info) infos))))"
  by (subst chained_infos.simps) (auto simp: next_info_def split: option.splits outcome.splits result.splits)

lemma chained_infos_last: "next_info L s info = None \<Longrightarrow> \<exists>r. chained_infos L s info = Some r"
  by (subst chained_infos.simps) (auto simp: next_info_def split: option.splits outcome.splits result.splits)

lemma chained_infos_finite: "info_after L s n info = None \<Longrightarrow> \<exists>r. chained_infos L s info = Some r"
proof (induction n arbitrary: info)
  case (Suc n)
  show ?case
  proof (cases "next_info L s info")
    case (Some info')
    with Suc obtain r where "chained_infos L s info' = Some r" by auto
    with Some show ?thesis by (simp add: chained_infos_next)
  qed (rule chained_infos_last)
qed simp


lemma chained_infos_returns: "chained_infos L s info = Some r \<Longrightarrow> \<exists>n. info_after L s n info = None"
proof (induction rule: chained_infos.raw_induct [rotated, consumes 1, case_names step])
  case (step ci L s info r)
  show ?case
  proof (cases "next_info L s info")
    case None
    then have "info_after L s (Suc 0) info = None" by simp
    then show ?thesis ..
  next
    case (Some info')
    with step.hyps obtain r' where "ci L s info' = Some r'"
      by (auto simp: next_info_def bind_eq_Some_conv split: option.splits outcome.splits result.splits)
    then obtain n where "info_after L s n info' = None" using step.IH by blast
    with Some have "info_after L s (Suc n) info = None" by simp
    then show ?thesis ..
  qed
qed

section \<open>Cached rules against the direct path\<close>

lemma for_sequence_no_RSP:
  assumes "for_sequence_of_offset_or_pop oc ops = Val (Some rule)"
  shows "Pop RSP \<notin> set ops"
proof -
  obtain off rest where o: "(case ops of OffsetBy8 offset # rest \<Rightarrow> (offset, rest) | _ \<Rightarrow> (0, ops)) = (off, rest)"
    by fastforce
  with assms obtain rs where rs: "collect_pops rest [] = Some rs"
    by (cases "collect_pops rest []") (auto simp: for_sequence_of_offset_or_pop_def)
  then have rest: "rest = map Pop rs" by (auto simp: collect_pops_Some)
  have "RSP \<notin> set rs"
  proof (cases "rs = [] \<and> off = 0")
    case False
    with assms o rs obtain c e where "encode oc rs = Val (Some (c, e))" by (auto simp: for_sequence_of_offset_or_pop_def)
    then show ?thesis using set_decode [OF decode_of_encode] RSP_notin_ENCODE_REGISTERS by blast
  qed simp
  then show ?thesis using o rest by (auto split: list.splits OffsetOrPop.splits)
qed

lemma exec_x86_64_Some:
  assumes "exec_x86_64 oc rule first regs rd = Val (regs', Ok (Some ra))"
  shows "\<exists>regs1 new_sp new_bp. exec_match_x86_64 rule first regs rd = Val (regs1, Continue (new_sp, new_bp)) \<and>
     rd (new_sp - 8) = Some ra \<and> regs' = set_bp new_bp (set_sp new_sp (set_ip ra regs1))"
proof (cases rule: exec_x86_64_cases [of rule first regs rd oc])
  case (return regs1 r)
  with assms show ?thesis using exec_match_never_returns_Some by auto
next
  case (continue regs1 new_sp new_bp)
  with assms have "return_to_caller_x86_64 oc (sp regs) regs1 new_sp new_bp rd = Val (regs', Ok (Some ra))" by simp
  then show ?thesis by (rule return_to_caller_cases) (use continue in auto)
qed (use assms in simp)

text \<open>
  What the epilog simulation and the resolution of unwind codes have in common: a machine that runs a list of instructions
  and then returns, where some instructions move the stack pointer up and some pop a register.
\<close>

locale pe_machine =
  fixes oc :: bool
    and run :: "'i list \<Rightarrow> UnwindRegsX86_64 \<Rightarrow> stack_reader \<Rightarrow> (UnwindRegsX86_64 \<times> pe_result) outcome"
    and kind :: "'i \<Rightarrow> OffsetOrPop"
    and exact :: "'i \<Rightarrow> bool"
  assumes run_end: "run [] regs rd = pe_return oc regs rd"
    and run_offset: "kind i = OffsetBy8 x \<Longrightarrow> exact i \<Longrightarrow> checked_add (sp regs) (offset_by_8 x) = Some s \<Longrightarrow>
      run (i # is) regs rd = run is (set_sp s regs) rd"
    and run_pop: "kind i = Pop r \<Longrightarrow> rd (sp regs) = Some v \<Longrightarrow> checked_add (sp regs) 8 = Some s \<Longrightarrow>
      run (i # is) regs rd = run is (set_sp s (set_reg r v regs)) rd"
begin

lemma run_pops:
  assumes "map kind is = map Pop rs" "RSP \<notin> set rs" "pop_registers rs s regs rd = (regs', Ok s')"
  shows "run is (set_sp s regs) rd = pe_return oc (set_sp s' regs') rd"
  using assms
proof (induction rs arbitrary: "is" s regs)
  case (Cons r rs)
  then obtain i "is'" where i: "is = i # is'" "kind i = Pop r" "map kind is' = map Pop rs" by auto
  from Cons.prems(3) obtain v s1 where v: "rd s = Some v" "checked_add s 8 = Some s1"
    "pop_registers rs s1 (set_reg r v regs) rd = (regs', Ok s')" by (auto split: option.splits)
  have "set_sp s1 (set_reg r v (set_sp s regs)) = set_sp s1 (set_reg r v regs)"
    using Cons.prems(2) by (intro UnwindRegs_eqI) (auto simp: set_sp_def)
  then have "run is (set_sp s regs) rd = run is' (set_sp s1 (set_reg r v regs)) rd"
    using run_pop [OF i(2), of rd "set_sp s regs" v s1] v i(1) by simp
  with Cons.IH [OF i(3) _ v(3)] Cons.prems(2) show ?case by simp
qed (simp add: run_end)

lemma run_matches:
  assumes ops: "map kind is = OffsetBy8 off # map Pop rs \<or> (map kind is = map Pop rs \<and> off = 0)"
    and ex: "\<forall>i \<in> set is. exact i" and "RSP \<notin> set rs"
    and m: "offset_then_pops off rs regs rd = (regs', Continue (new_sp, new_bp))"
  shows "\<exists>s. checked_add s 8 = Some new_sp \<and> new_bp = bp regs' \<and> run is regs rd = pe_return oc (set_sp s regs') rd"
proof -
  from m obtain s s' where s: "checked_add (sp regs) (offset_by_8 off) = Some s"
    "pop_registers rs s regs rd = (regs', Ok s')" "checked_add s' 8 = Some new_sp" "new_bp = bp regs'"
    by (auto simp: offset_then_pops_def finish_pops_Continue split: option.splits)
  have "run is regs rd = pe_return oc (set_sp s' regs') rd"
    using ops
  proof
    assume "map kind is = OffsetBy8 off # map Pop rs"
    then obtain i is' where "is = i # is'" "kind i = OffsetBy8 off" "map kind is' = map Pop rs" by auto
    with run_pops [OF _ assms(3) s(2), of is'] run_offset [OF _ _ s(1), of i] ex show ?thesis by simp
  next
    assume k: "map kind is = map Pop rs \<and> off = 0"
    with s(1) have "s = sp regs" by (simp add: offset_by_8_def)
    then have "set_sp s regs = regs" by (intro UnwindRegs_eqI) (auto simp: set_sp_def sp_def)
    with k run_pops [OF _ assms(3) s(2), of "is"] show ?thesis by simp
  qed
  with s show ?thesis by blast
qed

lemma rule_is_run:
  assumes f: "for_sequence_of_offset_or_pop oc (map kind is) = Val (Some rule)" and ex: "\<forall>i \<in> set is. exact i"
    and e: "exec_x86_64 oc rule first regs rd = Val (regs', Ok (Some ra))"
  shows "\<exists>regs1. run is regs rd = Val (regs1, Ok (Uncacheable ra)) \<and> regs' = set_ip ra regs1"
proof -
  from f obtain off rs where ops: "map kind is = OffsetBy8 off # map Pop rs \<or> (map kind is = map Pop rs \<and> off = 0)"
    and "length rs \<le> 8" and m: "\<forall>first regs rd. exec_match_x86_64 rule first regs rd = Val (offset_then_pops off rs regs rd)"
    and "wf_rule_x86_64 rule" by (rule for_sequence_cases)
  have "set (map Pop rs) \<subseteq> set (map kind is)" using ops by (metis order_refl set_subset_Cons)
  then have "RSP \<notin> set rs" using for_sequence_no_RSP [OF f] by force
  from exec_x86_64_Some [OF e] obtain regs1 new_sp new_bp where x:
    "exec_match_x86_64 rule first regs rd = Val (regs1, Continue (new_sp, new_bp))"
    "rd (new_sp - 8) = Some ra" "regs' = set_bp new_bp (set_sp new_sp (set_ip ra regs1))" by blast
  with m have "offset_then_pops off rs regs rd = (regs1, Continue (new_sp, new_bp))" by simp
  from run_matches [OF ops ex \<open>RSP \<notin> set rs\<close> this] obtain s where s: "checked_add s 8 = Some new_sp" "new_bp = bp regs1"
    "run is regs rd = pe_return oc (set_sp s regs1) rd" by blast
  have "s = new_sp - 8" using s(1) by (auto simp: checked_add_def split: if_splits)
  with x(2) s(1) have "run is regs rd = Val (set_sp new_sp regs1, Ok (Uncacheable ra))"
    unfolding s(3) by (simp add: pe_return_def read_stack_err_def get_special add_oc_checked set_sp_def)
      (auto intro!: UnwindRegs_eqI)
  moreover have "regs' = set_ip ra (set_sp new_sp regs1)"
    unfolding x(3) s(2) by (intro UnwindRegs_eqI) (auto simp: set_bp_def set_sp_def bp_def)
  ultimately show ?thesis by blast
qed

end

text \<open>Both machines of the source.  For the unwind codes the library has to do what its documentation says of the two
  operations the source interprets itself.\<close>

definition exact_epilog :: "FunctionEpilogInstruction \<Rightarrow> bool" where
  "exact_epilog i = (case i of AddSP off \<Rightarrow> 8 dvd unat off | _ \<Rightarrow> True)"

definition exact_operation :: "'op UnwindOperation \<Rightarrow> bool" where
  "exact_operation op = (case op of UnStackAlloc off \<Rightarrow> 8 dvd unat off | _ \<Rightarrow> True)"

lemma offset_by_8_exact:
  assumes "8 dvd unat (off :: u32)" "u32_to_u16 (off div 8) = Some x"
  shows "offset_by_8 x = ucast off"
proof -
  have x: "x = ucast (off div 8)" "uint (off div 8) \<le> 65535"
    using assms(2) by (auto simp: u32_to_u16_def word_le_def split: if_splits)
  then have "uint x = uint (off div 8)" by (simp add: unsigned_ucast_eq take_bit_int_eq_self)
  moreover have "int (unat off) = 8 * (int (unat off) div 8)" using assms(1) by (metis int_dvd_int_iff dvd_mult_div_cancel of_nat_numeral)
  then have "uint off = 8 * uint (off div 8)" by (simp add: uint_div)
  moreover have "uint (ucast off :: u64) = uint off" by (simp add: unsigned_ucast_eq take_bit_int_eq_self_iff
      order_less_trans [OF uint_lt2p])
  ultimately have "uint (offset_by_8 x) = uint (ucast off :: u64)" by (simp add: uint_offset_by_8)
  then show ?thesis by (simp only: unsigned_word_eqI)
qed

lemma pe_machine_epilog: "pe_machine oc (simulate_epilog oc fr) epilog_offset_or_pop exact_epilog"
proof
  fix i x regs s "is" and rd :: stack_reader
  assume "epilog_offset_or_pop i = OffsetBy8 x" "exact_epilog i" "checked_add (sp regs) (offset_by_8 x) = Some s"
  then show "simulate_epilog oc fr (i # is) regs rd = simulate_epilog oc fr is (set_sp s regs) rd"
    by (cases i) (auto simp: exact_epilog_def get_special set_sp_def add_oc_checked dest: offset_by_8_exact split: option.splits)
next
  fix i r regs v s "is" and rd :: stack_reader
  assume "epilog_offset_or_pop i = Pop r" "rd (sp regs) = Some v" "checked_add (sp regs) 8 = Some s"
  then show "simulate_epilog oc fr (i # is) regs rd = simulate_epilog oc fr is (set_sp s (set_reg r v regs)) rd"
    by (cases i) (auto simp: read_stack_err_def get_special set_sp_def add_oc_checked split: option.splits)
qed simp

interpretation epilog_machine: pe_machine oc "simulate_epilog oc fr" epilog_offset_or_pop exact_epilog
  for oc fr by (rule pe_machine_epilog)

definition resolves_pops :: "('info, 'op) PeLib \<Rightarrow> 'info \<Rightarrow> bool" where
  "resolves_pops L info \<longleftrightarrow>
     (\<forall>off regs rd s. checked_add (get regs RSP) (ucast off) = Some s \<longrightarrow>
        pe_resolve_operation L info (pe_state rd) (UnStackAlloc off) regs = (set_reg RSP s regs, Some FlowContinue)) \<and>
     (\<forall>r regs rd v s. rd (get regs RSP) = Some v \<longrightarrow> checked_add (get regs RSP) 8 = Some s \<longrightarrow>
        pe_resolve_operation L info (pe_state rd) (PopNonVolatile r) regs =
          (set_reg RSP s (set_reg (convert_pe_register r) v regs), Some FlowContinue))"

lemma pe_machine_operations:
  assumes L: "resolves_pops L info"
  shows "pe_machine oc (resolve_operations oc L info) operation_offset_or_pop exact_operation"
proof
  fix op x regs s ops and rd :: stack_reader
  assume "operation_offset_or_pop (op :: 'b UnwindOperation) = OffsetBy8 x" "exact_operation op"
    "checked_add (sp regs) (offset_by_8 x) = Some s"
  then show "resolve_operations oc L info (op # ops) regs rd = resolve_operations oc L info ops (set_sp s regs) rd"
    using L by (cases op) (auto simp: resolves_pops_def exact_operation_def get_special set_sp_def dest: offset_by_8_exact
        split: option.splits)
next
  fix op r regs v s ops and rd :: stack_reader
  assume "operation_offset_or_pop (op :: 'b UnwindOperation) = Pop r" "rd (sp regs) = Some v" "checked_add (sp regs) 8 = Some s"
  then show "resolve_operations oc L info (op # ops) regs rd = resolve_operations oc L info ops (set_sp s (set_reg r v regs)) rd"
    using L by (cases op) (auto simp: resolves_pops_def get_special set_sp_def split: option.splits)
qed simp

section \<open>Where a frame diverges\<close>

lemma add_oc_not_Diverges [simp]: "add_oc oc a b \<noteq> Panic Diverges" "sub_oc oc a b \<noteq> Panic Diverges"
  by (simp_all add: add_oc_def sub_oc_def)

lemma memory_not_Diverges [simp]:
  "unwind_info_memory_at_rva s a \<noteq> Panic Diverges" "text_memory_at_rva s a \<noteq> Panic Diverges"
  by (auto simp: unwind_info_memory_at_rva_def text_memory_at_rva_def opt_memory_at_rva_def memory_at_rva_def Let_def
      obind_Panic_iff split: option.splits if_splits)

lemma unwind_info_at_not_Diverges [simp]: "unwind_info_at L s a \<noteq> Panic Diverges"
  by (simp add: unwind_info_at_def obind_Panic_iff)

lemma for_sequence_not_Panic [simp]: "for_sequence_of_offset_or_pop oc ops \<noteq> Panic p"
  by (auto simp: for_sequence_of_offset_or_pop_def encode_eq_opt [abs_def] Let_def obind_Panic_iff
      split: option.splits prod.splits if_splits)

lemma pe_return_not_Diverges [simp]: "pe_return oc regs rd \<noteq> Panic Diverges"
  by (auto simp: pe_return_def Let_def obind_Panic_iff split: result.splits)

lemma simulate_epilog_not_Diverges [simp]: "simulate_epilog oc fr is regs rd \<noteq> Panic Diverges"
  by (induction oc fr "is" regs rd rule: simulate_epilog.induct)
     (auto simp: Let_def obind_Panic_iff split: result.splits option.splits)

lemma resolve_operations_not_Diverges [simp]: "resolve_operations oc L info ops regs rd \<noteq> Panic Diverges"
  by (induction oc L info ops regs rd rule: resolve_operations.induct)
     (auto split: prod.splits option.splits controlflow.splits)

lemma pe_epilog_not_Diverges [simp]: "pe_epilog oc L s f info a regs rd \<noteq> Panic Diverges"
  by (auto simp: pe_epilog_def Let_def obind_Panic_iff split: result.splits option.splits)

lemma chained_infos_not_Diverges: "chained_infos L s info = Some r \<Longrightarrow> r \<noteq> Panic Diverges"
proof (induction rule: chained_infos.raw_induct [rotated, consumes 1, case_names step])
  case (step ci L s info r)
  then show ?case
    by (auto simp: bind_eq_Some_conv obind_Panic_iff split: option.splits outcome.splits result.splits)
qed

lemma pe_codes_Diverges_iff: "pe_codes oc L s f info a regs rd = Panic Diverges \<longleftrightarrow> chained_infos L s info = None"
  by (auto simp: pe_codes_def obind_Panic_iff Let_def dest: chained_infos_not_Diverges split: option.splits result.splits)

lemma chained_infos_None_iff: "chained_infos L s info = None \<longleftrightarrow> (\<forall>n. info_after L s n info \<noteq> None)"
  using chained_infos_finite chained_infos_returns by (metis option.exhaust option.distinct(1))

section \<open>Properties\<close>

text \<open>
  C20: When the rest of an epilog is turned into a cacheable rule, executing the rule returns to the same caller with the same
  registers as simulating the instructions one by one, provided stack adjustments are multiples of 8.  The only difference is
  that the rule also sets the instruction pointer, which the simulation leaves alone.
\<close>

theorem epilog_rule_is_simulation_x86_64:
  assumes "for_sequence_of_offset_or_pop oc (map epilog_offset_or_pop is) = Val (Some rule)"
    and "\<forall>off. AddSP off \<in> set is \<longrightarrow> 8 dvd unat off"
    and "exec_x86_64 oc rule is_first_frame regs rd = Val (regs', Ok (Some ra))"
  shows "\<exists>regs1. simulate_epilog oc fr is regs rd = Val (regs1, Ok (Uncacheable ra)) \<and> regs' = set_ip ra regs1"
  using assms by (intro epilog_machine.rule_is_run) (auto simp: exact_epilog_def split: FunctionEpilogInstruction.splits)

lemma example_exec:
  "exec_x86_64 True (OffsetSpAndPopRegisters 1 1 0) True (new_regs 5 0x10 0x20) (\<lambda>a. Some (a + 1)) =
     Val (set_bp 0x20 (set_sp 0x28 (set_ip 0x21 (set_reg RBX 0x19 (new_regs 5 0x10 0x20)))), Ok (Some 0x21))"
proof -
  have "decode 1 0 = Val [RBX]"
    by (rule decode_of_encode [of True]) (simp add: encode_eq ENCODE_REGISTERS_def bring_def)
  then show ?thesis
    by (simp add: exec_x86_64_def return_to_caller_x86_64_def rust_arith offset_by_8_def)
qed

theorem epilog_rule_is_simulation_x86_64_witness:
  "\<exists>regs1. simulate_epilog True None [AddSP 8, PopReg PE_RBX] (new_regs 5 0x10 0x20) (\<lambda>a. Some (a + 1)) =
       Val (regs1, Ok (Uncacheable 0x21)) \<and>
     set_bp 0x20 (set_sp 0x28 (set_ip 0x21 (set_reg RBX 0x19 (new_regs 5 0x10 0x20)))) = set_ip 0x21 regs1"
  by (rule epilog_rule_is_simulation_x86_64 [of True _ "OffsetSpAndPopRegisters 1 1 0" True])
     (simp_all add: example_exec for_sequence_of_offset_or_pop_def encode_eq ENCODE_REGISTERS_def bring_def u32_to_u16_def)

text \<open>
  C21: The same for the unwind codes: when the operations of the chained unwind infos become a cacheable rule, executing it
  agrees with resolving them one by one, if the library resolves stack allocations and pops as documented.
\<close>

theorem unwind_code_rule_is_resolution_x86_64:
  assumes "resolves_pops L info"
    and "for_sequence_of_offset_or_pop oc (map operation_offset_or_pop ops) = Val (Some rule)"
    and "\<forall>off. UnStackAlloc off \<in> set ops \<longrightarrow> 8 dvd unat off"
    and "exec_x86_64 oc rule is_first_frame regs rd = Val (regs', Ok (Some ra))"
  shows "\<exists>regs1. resolve_operations oc L info ops regs rd = Val (regs1, Ok (Uncacheable ra)) \<and> regs' = set_ip ra regs1"
  by (rule pe_machine.rule_is_run [OF pe_machine_operations [OF assms(1)] assms(2) _ assms(4)])
     (use assms(3) in \<open>auto simp: exact_operation_def split: UnwindOperation.splits\<close>)

text \<open>A library that knows only the two operations.\<close>

fun example_resolve :: "UnwindRegsX86_64 UnwindState \<Rightarrow> unit UnwindOperation \<Rightarrow> UnwindRegsX86_64 \<Rightarrow> UnwindRegsX86_64 \<times> controlflow option"
  where
  "example_resolve st (UnStackAlloc off) regs =
     (us_write_register st PE_RSP (us_read_register st PE_RSP regs + ucast off) regs, Some FlowContinue)"
| "example_resolve st (PopNonVolatile r) regs =
     (case us_read_stack st (us_read_register st PE_RSP regs) of
        None \<Rightarrow> (regs, None)
      | Some v \<Rightarrow> (us_write_register st PE_RSP (us_read_register st PE_RSP regs + 8) (us_write_register st r v regs), Some FlowContinue))"
| "example_resolve st (OtherOperation _) regs = (regs, None)"

definition example_pe_lib :: "(unit, unit) PeLib" where
  "example_pe_lib = \<lparr>pe_lookup = (\<lambda>_ _. None), pe_parse_info = (\<lambda>_. None), pe_frame_register = (\<lambda>_. None),
     pe_chained = (\<lambda>_. None), pe_unwind_operations = (\<lambda>_. []), pe_parse_sequence = (\<lambda>_ _. None),
     pe_resolve_operation = (\<lambda>_. example_resolve)\<rparr>"

lemma example_resolves_pops: "resolves_pops example_pe_lib ()"
  by (auto simp: resolves_pops_def example_pe_lib_def pe_state_def checked_add_def split: if_splits)

theorem unwind_code_rule_is_resolution_x86_64_witness:
  "\<exists>regs1. resolve_operations True example_pe_lib () [UnStackAlloc 8, PopNonVolatile PE_RBX]
       (new_regs 5 0x10 0x20) (\<lambda>a. Some (a + 1)) = Val (regs1, Ok (Uncacheable 0x21)) \<and>
     set_bp 0x20 (set_sp 0x28 (set_ip 0x21 (set_reg RBX 0x19 (new_regs 5 0x10 0x20)))) = set_ip 0x21 regs1"
  by (rule unwind_code_rule_is_resolution_x86_64 [of _ _ True _ "OffsetSpAndPopRegisters 1 1 0" True])
     (simp_all add: example_exec example_resolves_pops for_sequence_of_offset_or_pop_def encode_eq ENCODE_REGISTERS_def bring_def
       u32_to_u16_def)

text \<open>
  C35: Unwinding a frame never ends exactly when the frame is not handled as an epilog and the chain of unwind infos of its
  function goes on forever; the source has no guard against a cyclic chain.
\<close>

theorem pe_unwind_frame_diverges_iff:
  "pe_unwind_frame_x86_64 oc L s a regs is_first_frame rd = Panic Diverges \<longleftrightarrow>
   (\<exists>f info. pe_lookup L (pdata s) a = Some f \<and> unwind_info_at L s (unwind_info_address f) = Val (Ok info) \<and>
      (is_first_frame \<longrightarrow> pe_epilog oc L s f info a regs rd = Val None) \<and> (\<forall>n. info_after L s n info \<noteq> None))"
proof (cases "pe_lookup L (pdata s) a")
  case (Some f)
  show ?thesis
  proof (cases "unwind_info_at L s (unwind_info_address f)")
    case (Val r)
    with Some show ?thesis
      by (cases r; cases is_first_frame)
         (auto simp: pe_unwind_frame_x86_64_def obind_Panic_iff pe_codes_Diverges_iff chained_infos_None_iff
           split: option.splits)
  next
    case (Panic p)
    with Some unwind_info_at_not_Diverges [of L s "unwind_info_address f"] show ?thesis
      by (auto simp: pe_unwind_frame_x86_64_def)
  qed
qed (simp add: pe_unwind_frame_x86_64_def)


text \<open>A function whose unwind info is chained to itself.\<close>

definition cyclic_pe_lib :: "(unit, unit) PeLib" where
  "cyclic_pe_lib = example_pe_lib\<lparr>
     pe_lookup := (\<lambda>_ _. Some \<lparr>begin_address = 0, rf_end_address = 0x10, unwind_info_address = 0x20\<rparr>),
     pe_parse_info := (\<lambda>_. Some ()),
     pe_chained := (\<lambda>_. Some \<lparr>begin_address = 0, rf_end_address = 0x10, unwind_info_address = 0x20\<rparr>)\<rparr>"

definition example_pe_sections :: PeSections where
  "example_pe_sections = \<lparr>pdata = [], rdata = Some \<lparr>rva_data = [0x20], rva_range = (0x20, 0x21)\<rparr>, xdata = None, text_section = None\<rparr>"

lemma cyclic_info: "unwind_info_at cyclic_pe_lib example_pe_sections 0x20 = Val (Ok ())"
  by (simp add: cyclic_pe_lib_def example_pe_sections_def unwind_info_at_def unwind_info_memory_at_rva_def
      opt_memory_at_rva_def memory_at_rva_def)

lemma cyclic_info_after: "info_after cyclic_pe_lib example_pe_sections n () \<noteq> None"
proof (induction n)
  case (Suc n)
  have "next_info cyclic_pe_lib example_pe_sections () = Some ()"
    using cyclic_info by (simp add: next_info_def cyclic_pe_lib_def)
  with Suc show ?case by simp
qed simp

theorem pe_unwind_frame_diverges_witness:
  "pe_unwind_frame_x86_64 True cyclic_pe_lib example_pe_sections 4 (new_regs 5 0x10 0x20) False (\<lambda>_. None) = Panic Diverges"
  unfolding pe_unwind_frame_diverges_iff
  using cyclic_info cyclic_info_after by (auto simp: cyclic_pe_lib_def)

section \<open>Panics\<close>

text \<open>What the source relies on in the sections of a PE module and in the crate that parses them: section data covers its
  range, the text reaches to the end of a function found, an epilog only restores the stack pointer from a frame register
  if there is one, and chains of unwind infos end.\<close>

definition pe_image_ok :: "('info, 'op) PeLib \<Rightarrow> PeSections \<Rightarrow> bool" where
  "pe_image_ok L s \<longleftrightarrow> wf_sections s \<and>
     (\<forall>a f mem. pe_lookup L (pdata s) a = Some f \<longrightarrow> text_memory_at_rva s a = Val (Ok mem) \<longrightarrow>
        unat (rf_end_address f - a) \<le> length mem) \<and>
     (\<forall>bytes info off is. pe_parse_sequence L bytes (pe_frame_register L info) = Some is \<longrightarrow> AddSPFromFP off \<in> set is \<longrightarrow>
        pe_frame_register L info \<noteq> None) \<and>
     (\<forall>info. \<exists>n. info_after L s n info = None)"

lemma text_memory_no_panic: "wf_sections s \<Longrightarrow> no_panic (text_memory_at_rva s a)"
  using opt_memory_no_panic [of "text_section s" a] by (auto simp: wf_sections_def text_memory_at_rva_def)

lemma unwind_info_at_no_panic: "wf_sections s \<Longrightarrow> no_panic (unwind_info_at L s a)"
  using unwind_info_memory_no_panic [of s a] by (auto simp: unwind_info_at_def)

lemma pe_return_release: "no_panic (pe_return False regs rd)"
  by (auto simp: pe_return_def Let_def split: result.split)

lemma simulate_epilog_release:
  assumes "\<forall>off. AddSPFromFP off \<in> set is \<longrightarrow> fr \<noteq> None"
  shows "no_panic (simulate_epilog False fr is regs rd)"
  using assms
proof (induction "is" arbitrary: regs)
  case Nil
  show ?case unfolding simulate_epilog.simps by (rule pe_return_release)
next
  case (Cons i "is")
  have "\<forall>off. AddSPFromFP off \<in> set is \<longrightarrow> fr \<noteq> None" using Cons.prems by simp
  note IH = Cons.IH [OF this]
  show ?case
  proof (cases i)
    case (AddSPFromFP off)
    then obtain fp where "fr = Some fp" using Cons.prems by auto
    with AddSPFromFP IH show ?thesis by simp
  next
    case (PopReg r)
    show ?thesis by (cases "read_stack_err rd (get regs RSP)") (use PopReg IH in \<open>simp_all add: Let_def\<close>)
  qed (use IH in simp)
qed

lemma resolve_operations_release: "no_panic (resolve_operations False L info ops regs rd)"
proof (induction ops arbitrary: regs)
  case Nil
  show ?case unfolding resolve_operations.simps by (rule pe_return_release)
next
  case (Cons op ops)
  obtain regs' r where "pe_resolve_operation L info (pe_state rd) op regs = (regs', r)" by fastforce
  then show ?case using Cons.IH [of regs'] by (auto split: option.split controlflow.split)
qed

lemma chained_infos_no_panic:
  assumes "wf_sections s" "info_after L s n info = None"
  shows "\<exists>r. chained_infos L s info = Some (Val r)"
  using assms(2)
proof (induction n arbitrary: info)
  case (Suc n)
  show ?case
  proof (cases "next_info L s info")
    case (Some info')
    with Suc obtain r where "chained_infos L s info' = Some (Val r)" by auto
    with Some show ?thesis by (simp add: chained_infos_next)
  next
    case None
    then show ?thesis
    proof (cases "pe_chained L info")
      case (Some f)
      obtain r where r: "unwind_info_at L s (unwind_info_address f) = Val r" using unwind_info_at_no_panic [OF assms(1)] by blast
      with None Some have "\<exists>e. r = Err e" by (cases r) (auto simp: next_info_def)
      with Some r show ?thesis by (subst chained_infos.simps) auto
    qed (subst chained_infos.simps, simp)
  qed
qed simp

lemma for_sequence_Val: "\<exists>r. for_sequence_of_offset_or_pop oc ops = Val r"
  using for_sequence_not_Panic [of oc ops] by (cases "for_sequence_of_offset_or_pop oc ops") auto

lemma pe_codes_release:
  assumes "pe_image_ok L s"
  shows "no_panic (pe_codes False L s f info a regs rd)"
proof -
  have "wf_sections s" "\<exists>n. info_after L s n info = None" using assms by (simp_all add: pe_image_ok_def)
  then obtain r where r: "chained_infos L s info = Some (Val r)" using chained_infos_no_panic by metis
  show ?thesis
  proof (cases r)
    case (Ok infos)
    let ?ops = "chained_operations L (a - begin_address f) infos"
    obtain ro where ro: "for_sequence_of_offset_or_pop False (map operation_offset_or_pop ?ops) = Val ro"
      using for_sequence_Val by metis
    obtain x where "resolve_operations False L info ?ops regs rd = Val x" using resolve_operations_release by metis
    with r Ok ro show ?thesis by (cases ro) (simp_all add: pe_codes_def Let_def)
  qed (use r in \<open>simp add: pe_codes_def\<close>)
qed

lemma pe_epilog_release:
  assumes "pe_image_ok L s" "pe_lookup L (pdata s) a = Some f"
  shows "no_panic (pe_epilog False L s f info a regs rd)"
proof -
  have "wf_sections s" using assms(1) by (simp add: pe_image_ok_def)
  then obtain r where r: "text_memory_at_rva s a = Val r" using text_memory_no_panic by blast
  show ?thesis
  proof (cases r)
    case (Ok mem)
    let ?n = "unat (rf_end_address f - a)" and ?fr = "pe_frame_register L info"
    have l: "?n \<le> length mem" using assms r Ok by (auto simp: pe_image_ok_def)
    show ?thesis
    proof (cases "pe_parse_sequence L (take ?n mem) ?fr")
      case (Some "is")
      obtain ro where ro: "for_sequence_of_offset_or_pop False (map epilog_offset_or_pop is) = Val ro" using for_sequence_Val by blast
      have "\<forall>off. AddSPFromFP off \<in> set is \<longrightarrow> ?fr \<noteq> None" using assms(1) Some unfolding pe_image_ok_def by blast
      from simulate_epilog_release [OF this, of regs rd] obtain x where "simulate_epilog False ?fr is regs rd = Val x" by blast
      with r Ok l Some ro show ?thesis by (cases ro) (simp_all add: pe_epilog_def)
    qed (use r Ok l in \<open>simp add: pe_epilog_def\<close>)
  qed (use r in \<open>simp add: pe_epilog_def\<close>)
qed

lemma pe_frame_release:
  assumes "pe_image_ok L s"
  shows "no_panic (pe_unwind_frame_x86_64 False L s a regs is_first_frame rd)"
proof (cases "pe_lookup L (pdata s) a")
  case (Some f)
  have "wf_sections s" using assms by (simp add: pe_image_ok_def)
  then obtain r where r: "unwind_info_at L s (unwind_info_address f) = Val r" using unwind_info_at_no_panic by blast
  show ?thesis
  proof (cases r)
    case (Ok info)
    obtain ep where ep: "(if is_first_frame then pe_epilog False L s f info a regs rd else Val None) = Val ep"
      using pe_epilog_release [OF assms Some, of info regs rd] by (cases is_first_frame) auto
    obtain x y where "pe_codes False L s f info a regs rd = Val (x, y)"
      using pe_codes_release [OF assms, of f info a regs rd] by (metis surj_pair)
    with Some r Ok ep show ?thesis by (cases ep) (simp_all add: pe_unwind_frame_x86_64_def)
  qed (use Some r in \<open>simp add: pe_unwind_frame_x86_64_def\<close>)
qed (simp add: pe_unwind_frame_x86_64_def)

text \<open>The rules that occur are \<open>JustReturn\<close> and those made of an offset and pops; the direct paths give no rule.\<close>

lemma direct_paths_give_no_rule:
  "pe_return oc regs rd \<noteq> Val (regs', Ok (ExecRule rule))"
  "simulate_epilog oc fr is regs rd \<noteq> Val (regs', Ok (ExecRule rule))"
  "resolve_operations oc L info ops regs rd \<noteq> Val (regs', Ok (ExecRule rule))"
proof -
  show r: "pe_return oc regs rd \<noteq> Val (regs', Ok (ExecRule rule))" for regs
    by (auto simp: pe_return_def Let_def split: result.splits)
  show "simulate_epilog oc fr is regs rd \<noteq> Val (regs', Ok (ExecRule rule))"
    by (induction oc fr "is" regs rd rule: simulate_epilog.induct) (auto simp: pe_return_def Let_def split: result.splits option.splits)
  show "resolve_operations oc L info ops regs rd \<noteq> Val (regs', Ok (ExecRule rule))"
    by (induction oc L info ops regs rd rule: resolve_operations.induct) (auto simp: pe_return_def Let_def split: prod.splits option.splits controlflow.splits result.splits)
qed

lemma pe_frame_rule:
  assumes "pe_unwind_frame_x86_64 oc L s a regs is_first_frame rd = Val (regs', Ok (ExecRule rule))"
  shows "rule = JustReturn \<or> (\<exists>ops. for_sequence_of_offset_or_pop oc ops = Val (Some rule))"
proof -
  have c: "\<exists>ops. for_sequence_of_offset_or_pop oc ops = Val (Some rule)"
    if p: "pe_codes oc L s f info a regs rd = Val (regs', Ok (ExecRule rule))" for f info
  proof -
    from p obtain r where r: "chained_infos L s info = Some (Val r)"
      by (cases "chained_infos L s info") (auto simp: pe_codes_def)
    with p show ?thesis
      by (cases r) (auto simp: pe_codes_def Let_def direct_paths_give_no_rule split: option.split_asm)
  qed
  have e: "\<exists>ops. for_sequence_of_offset_or_pop oc ops = Val (Some rule)"
    if p: "pe_epilog oc L s f info a regs rd = Val (Some (regs', Ok (ExecRule rule)))" for f info
  proof -
    from p obtain n r where n: "sub_oc oc (rf_end_address f) a = Val n" "text_memory_at_rva s a = Val r" by (auto simp: pe_epilog_def)
    with p obtain mem where m: "r = Ok mem" "\<not> length mem < unat n" by (cases r) (auto simp: pe_epilog_def split: if_splits)
    with p n show ?thesis
      by (cases "pe_parse_sequence L (take (unat n) mem) (pe_frame_register L info)")
         (auto simp: pe_epilog_def direct_paths_give_no_rule split: option.split_asm)
  qed
  show ?thesis
  proof (cases "pe_lookup L (pdata s) a")
    case (Some f)
    with assms obtain r where r: "unwind_info_at L s (unwind_info_address f) = Val r" by (auto simp: pe_unwind_frame_x86_64_def)
    with assms Some obtain info where "r = Ok info" by (cases r) (auto simp: pe_unwind_frame_x86_64_def)
    with assms Some r obtain ep where "(if is_first_frame then pe_epilog oc L s f info a regs rd else Val None) = Val ep"
      "(case ep of Some x \<Rightarrow> Val x | None \<Rightarrow> pe_codes oc L s f info a regs rd) = Val (regs', Ok (ExecRule rule))"
      by (auto simp: pe_unwind_frame_x86_64_def)
    with c e show ?thesis by (cases ep) (auto split: if_splits)
  qed (use assms in \<open>simp add: pe_unwind_frame_x86_64_def\<close>)
qed

text \<open>Images whose unwind codes, from wherever in a prolog, are stack allocations and pops that a rule can express.  Frames of
  their functions never take the direct path, except in an epilog, that is in the first frame.\<close>

definition cacheable_codes :: "('info, 'op) PeLib \<Rightarrow> PeSections \<Rightarrow> bool" where
  "cacheable_codes L s \<longleftrightarrow>
     (\<forall>info infos off. chained_infos L s info = Some (Val (Ok infos)) \<longrightarrow>
        for_sequence_of_offset_or_pop False (map operation_offset_or_pop (chained_operations L off infos)) \<noteq> Val None)"

lemma pe_codes_cacheable:
  assumes "cacheable_codes L s" "pe_codes False L s f info a regs rd = Val (regs', res)"
  shows "regs' = regs" "res \<noteq> Ok (Uncacheable ra)"
proof -
  from assms(2) obtain r where r: "chained_infos L s info = Some (Val r)"
    by (cases "chained_infos L s info") (auto simp: pe_codes_def)
  show "regs' = regs" "res \<noteq> Ok (Uncacheable ra)"
    using assms r by (cases r; auto simp: pe_codes_def cacheable_codes_def Let_def split: option.splits)+
qed

lemma pe_frame_cacheable:
  assumes "cacheable_codes L s" "pe_unwind_frame_x86_64 False L s a regs False rd = Val (regs', res)"
  shows "regs' = regs" "res \<noteq> Ok (Uncacheable ra)"
proof -
  have "regs' = regs \<and> (\<forall>ra. res \<noteq> Ok (Uncacheable ra))"
  proof (cases "pe_lookup L (pdata s) a")
    case (Some f)
    with assms(2) obtain r where r: "unwind_info_at L s (unwind_info_address f) = Val r" by (auto simp: pe_unwind_frame_x86_64_def)
    with assms(2) Some pe_codes_cacheable [OF assms(1)] show ?thesis by (cases r) (auto simp: pe_unwind_frame_x86_64_def)
  qed (use assms(2) in \<open>auto simp: pe_unwind_frame_x86_64_def\<close>)
  then show "regs' = regs" "res \<noteq> Ok (Uncacheable ra)" by blast+
qed

text \<open>A function of 16 bytes with unwind info that is not chained.\<close>

definition simple_pe_lib :: "(unit, unit) PeLib" where
  "simple_pe_lib = example_pe_lib\<lparr>
     pe_lookup := (\<lambda>_ a. if a < 0x10 then Some \<lparr>begin_address = 0, rf_end_address = 0x10, unwind_info_address = 0x20\<rparr> else None),
     pe_parse_info := (\<lambda>_. Some ()), pe_unwind_operations := (\<lambda>_. [(4, UnStackAlloc 0x20), (1, PopNonVolatile PE_RBX)])\<rparr>"

lemma pe_image_ok_example: "pe_image_ok simple_pe_lib example_pe_sections"
  unfolding pe_image_ok_def
proof (intro conjI)
  have "info_after simple_pe_lib example_pe_sections (Suc 0) info = None" for info
    by (simp add: next_info_def simple_pe_lib_def example_pe_lib_def)
  then show "\<forall>info. \<exists>n. info_after simple_pe_lib example_pe_sections n info = None" by blast
qed (simp_all add: wf_sections_def covers_range_def example_pe_sections_def simple_pe_lib_def example_pe_lib_def
  text_memory_at_rva_def opt_memory_at_rva_def)

lemma cacheable_example: "cacheable_codes simple_pe_lib s"
proof -
  have c: "chained_infos simple_pe_lib s info = Some (Val (Ok [info]))" for info
    by (subst chained_infos.simps) (simp add: simple_pe_lib_def example_pe_lib_def)
  have "for_sequence_of_offset_or_pop False (map operation_offset_or_pop (chained_operations simple_pe_lib off [info])) \<noteq> Val None" for off info
    by (simp add: simple_pe_lib_def for_sequence_of_offset_or_pop_def u32_to_u16_def encode_eq ENCODE_REGISTERS_def bring_def swap_elems_def)
  with c show ?thesis by (simp add: cacheable_codes_def)
qed

end
