(* ===== verification/FrameImpl.thy ===== *)
theory FrameImpl
  imports UnwinderCore ModuleData X86Dwarf A64Dwarf X86Macho A64Macho X86Pe
begin

text \<open>
  \<open>UnwinderInternal::unwind_frame_impl\<close> of \<^verbatim>\<open>src/unwinder.rs\<close>: dispatching a frame to the unwinder for the kind of unwind
  data its module has, and the two architectures as instances of the trait \<open>Arch\<close> and its subtraits.
\<close>

section \<open>Interfaces\<close>

text \<open>gimli's view of a section during unwinding: expressions, frame description entries and the parsed header.\<close>

record ('reg, 'expr, 'ev, 'fde, 'tbl, 'ptr, 'g) GimliFrame =
  gf_eval :: "UnwindSectionType \<Rightarrow> u8 list \<Rightarrow> ('reg, 'expr, 'ev) GimliEval"
  gf_table :: "UnwindSectionType \<Rightarrow> u8 list \<Rightarrow> BaseAddresses \<Rightarrow> (('reg, 'expr) UnwindTableRow, 'fde, 'g) GimliTable"
  gf_parse_hdr :: "u8 list \<Rightarrow> BaseAddresses \<Rightarrow> ('tbl, 'ptr) GimliHdr option"

text \<open>An architecture: the traits \<open>UnwindRule\<close>, \<open>DwarfUnwinding\<close>, \<open>CompactUnwindInfoUnwinding\<close> and \<open>PeUnwinding\<close>.\<close>

type_synonym ('regs, 'r) pe_unwind_frame =
  "PeSections \<Rightarrow> u32 \<Rightarrow> 'regs \<Rightarrow> bool \<Rightarrow> stack_reader \<Rightarrow> ('regs \<times> ('r UnwindResult, PeUnwinderError) result) outcome"

record ('reg, 'expr, 'ev, 'regs, 'r, 'm, 'g) ArchUnwinding =
  arch_rule :: "('r, 'regs) UnwindRuleOps"
  arch_dwarf :: "('reg, 'expr, 'ev) GimliEval \<Rightarrow> ('reg, 'expr, 'regs, 'r, 'g) DwarfUnwinding"
  arch_cui :: "('r, 'm, 'g) CompactUnwindInfoUnwinding"
  arch_pe :: "('regs, 'r) pe_unwind_frame"

section \<open>DwarfUnwinder\<close>

record ('tbl, 'ptr) DwarfUnwinder =
  unwind_section_data :: "u8 list"
  unwind_section_type :: UnwindSectionType
  du_eh_frame_hdr :: "('tbl, 'ptr) GimliHdr option"
  du_base_svma :: u64
  du_bases :: BaseAddresses

definition new_dwarf_unwinder ::
  "('reg, 'expr, 'ev, 'fde, 'tbl, 'ptr, 'g) GimliFrame \<Rightarrow> u8 list \<Rightarrow> UnwindSectionType \<Rightarrow> u8 list option \<Rightarrow> BaseAddresses \<Rightarrow>
   u64 \<Rightarrow> ('tbl, 'ptr) DwarfUnwinder" where
  "new_dwarf_unwinder G bytes ty eh_frame_hdr_data bases base =
     \<lparr>unwind_section_data = bytes, unwind_section_type = ty,
      du_eh_frame_hdr = (case eh_frame_hdr_data of None \<Rightarrow> None | Some d \<Rightarrow> gf_parse_hdr G d bases),
      du_base_svma = base, du_bases = bases\<rparr>"

text \<open>\<open>unwind_frame_with_fde\<close> on such an unwinder, with the error conversion of \<open>?\<close>.\<close>

definition dwarf_unwind_with_fde ::
  "bool \<Rightarrow> ('reg, 'expr, 'ev, 'regs, 'r, 'm, 'g) ArchUnwinding \<Rightarrow> ('reg, 'expr, 'ev, 'fde, 'tbl, 'ptr, 'g) GimliFrame \<Rightarrow>
   ('tbl, 'ptr) DwarfUnwinder \<Rightarrow> 'regs \<Rightarrow> bool \<Rightarrow> u32 \<Rightarrow> u32 \<Rightarrow> stack_reader \<Rightarrow>
   ('regs \<times> ('r UnwindResult, ('m, 'g) UnwinderError) result) outcome" where
  "dwarf_unwind_with_fde oc A G du regs is_first_frame rel_lookup_address fde_offset rd =
     obind (unwind_frame_with_fde oc (arch_dwarf A (gf_eval G (unwind_section_type du) (unwind_section_data du)))
              (gf_table G (unwind_section_type du) (unwind_section_data du) (du_bases du)) (du_base_svma du)
              regs is_first_frame rel_lookup_address fde_offset rd)
       (\<lambda>(regs', r). Val (regs', map_err UnwinderError.Dwarf r))"

section \<open>Compact unwind info\<close>

definition text_bytes_for_module :: "'u Module \<Rightarrow> TextByteData option \<Rightarrow> TextBytes option" where
  "text_bytes_for_module m text_data =
     (case text_data of
        None \<Rightarrow> None
      | Some d \<Rightarrow>
          (case checked_sub (fst (td_svma_range d)) (base_svma m) of
             None \<Rightarrow> None
           | Some off \<Rightarrow>
               (case u64_to_u32 off of
                  None \<Rightarrow> None
                | Some offset_from_base \<Rightarrow> Some \<lparr>offset_from_base_address = offset_from_base, text_bytes = td_bytes d\<rparr>)))"

text \<open>The range of a section relative to the base address; the subtractions may overflow, the casts truncate.\<close>

definition relative_range :: "bool \<Rightarrow> u64 \<Rightarrow> u64_range option \<Rightarrow> (u32 \<times> u32) outcome" where
  "relative_range oc base r =
     (case r of
        None \<Rightarrow> Val (0, 0)
      | Some (start, end') \<Rightarrow>
          obind (sub_oc oc start base) (\<lambda>a. obind (sub_oc oc end' base) (\<lambda>b. Val (ucast a, ucast b))))"

definition new_cui_unwinder ::
  "bool \<Rightarrow> 'u Module \<Rightarrow> u8 list \<Rightarrow> u64_range option \<Rightarrow> u64_range option \<Rightarrow> TextByteData option \<Rightarrow>
   CompactUnwindInfoUnwinder outcome" where
  "new_cui_unwinder oc m unwind_info stubs stub_helper text_data =
     obind (relative_range oc (base_svma m) stubs) (\<lambda>sr.
       obind (relative_range oc (base_svma m) stub_helper) (\<lambda>hr.
         Val \<lparr>unwind_info_data = unwind_info, cui_text_bytes = text_bytes_for_module m text_data, stubs_range = sr,
              stub_helper_range = hr\<rparr>))"

section \<open>The dispatch\<close>

text \<open>Unwinding with an FDE offset found in an index, or the error for an address without one.\<close>

definition dwarf_unwind_at ::
  "bool \<Rightarrow> ('reg, 'expr, 'ev, 'regs, 'r, 'm, 'g) ArchUnwinding \<Rightarrow> ('reg, 'expr, 'ev, 'fde, 'tbl, 'ptr, 'g) GimliFrame \<Rightarrow>
   ('tbl, 'ptr) DwarfUnwinder \<Rightarrow> 'regs \<Rightarrow> bool \<Rightarrow> u32 \<Rightarrow> u32 option outcome \<Rightarrow> ('m, 'g) UnwinderError \<Rightarrow> stack_reader \<Rightarrow>
   ('regs \<times> ('r UnwindResult, ('m, 'g) UnwinderError) result) outcome" where
  "dwarf_unwind_at oc A G du regs is_first_frame rel_lookup_address found e rd =
     obind found (\<lambda>fde_offset.
       case fde_offset of
         None \<Rightarrow> Val (regs, Err e)
       | Some off \<Rightarrow> dwarf_unwind_with_fde oc A G du regs is_first_frame rel_lookup_address off rd)"

definition unwind_frame_impl ::
  "bool \<Rightarrow> ('reg, 'expr, 'ev, 'regs, 'r, 'm, 'g) ArchUnwinding \<Rightarrow> ('reg, 'expr, 'ev, 'fde, 'tbl, 'ptr, 'g) GimliFrame \<Rightarrow>
   ('ui, 'm) MachoUnwindInfo \<Rightarrow> (ModuleUnwindDataInternal, 'regs, 'r, ('m, 'g) UnwinderError) frame_callback" where
  "unwind_frame_impl oc A G M m fa rel_lookup_address regs rd =
     (let is_first_frame = \<not> is_return_address fa in
      case unwind_data m of
        CompactUnwindInfoAndEhFrame unwind_info eh_frame stubs stub_helper bases text_data \<Rightarrow>
          obind (new_cui_unwinder oc m unwind_info stubs stub_helper text_data) (\<lambda>unwinder.
            obind (compact_unwind_frame oc (arch_rule A) (arch_cui A) M unwinder rel_lookup_address is_first_frame) (\<lambda>r.
              case r of
                Err e \<Rightarrow> Val (regs, Err (unwinder_error_from_cui e))
              | Ok (CuiExecRule rule) \<Rightarrow> Val (regs, Ok (ExecRule rule))
              | Ok (NeedDwarf fde_offset) \<Rightarrow>
                  (case eh_frame of
                     None \<Rightarrow> Val (regs, Err NoDwarfData)
                   | Some eh_frame_data \<Rightarrow>
                       dwarf_unwind_with_fde oc A G (new_dwarf_unwinder G eh_frame_data EhFrame None bases (base_svma m))
                         regs is_first_frame rel_lookup_address fde_offset rd)))
      | EhFrameHdrAndEhFrame eh_frame_hdr eh_frame bases \<Rightarrow>
          let du = new_dwarf_unwinder G eh_frame EhFrame (Some eh_frame_hdr) bases (base_svma m) in
          dwarf_unwind_at oc A G du regs is_first_frame rel_lookup_address
            (get_fde_offset_for_relative_address oc (du_eh_frame_hdr du) (du_base_svma du) rel_lookup_address)
            EhFrameHdrCouldNotFindAddress rd
      | DwarfCfiIndexAndEhFrame index eh_frame bases \<Rightarrow>
          dwarf_unwind_at oc A G (new_dwarf_unwinder G eh_frame EhFrame None bases (base_svma m)) regs is_first_frame
            rel_lookup_address (fde_offset_for_relative_address index rel_lookup_address) DwarfCfiIndexCouldNotFindAddress rd
      | DwarfCfiIndexAndDebugFrame index debug_frame bases \<Rightarrow>
          dwarf_unwind_at oc A G (new_dwarf_unwinder G debug_frame DebugFrame None bases (base_svma m)) regs is_first_frame
            rel_lookup_address (fde_offset_for_relative_address index rel_lookup_address) DwarfCfiIndexCouldNotFindAddress rd
      | PeUnwindInfo pdata_bytes r x t \<Rightarrow>
          obind (arch_pe A \<lparr>pdata = pdata_bytes, rdata = r, xdata = x, text_section = t\<rparr> rel_lookup_address regs is_first_frame rd)
            (\<lambda>(regs', res). Val (regs', map_err UnwinderError.Pe res))
      | NoUnwindData \<Rightarrow> Val (regs, Err NoModuleUnwindData))"

section \<open>The architectures\<close>

definition arch_x86_64 ::
  "bool \<Rightarrow> (u32 \<Rightarrow> OpcodeX86_64) \<Rightarrow> ('info, 'op) PeLib \<Rightarrow>
   (DwarfRegX86_64, 'expr, 'ev, UnwindRegsX86_64, UnwindRuleX86_64, 'm, 'g) ArchUnwinding" where
  "arch_x86_64 oc parse_opcode L = \<lparr>arch_rule = ops_x86_64 oc, arch_dwarf = dwarf_x86_64 oc,
     arch_cui = macho_x86_64 oc parse_opcode, arch_pe = pe_unwind_frame_x86_64 oc L\<rparr>"

definition pe_unwind_frame_aarch64 :: "(UnwindRegsAarch64, UnwindRuleAarch64) pe_unwind_frame" where
  "pe_unwind_frame_aarch64 sections a regs is_first_frame rd = Val (regs, Err Aarch64Unsupported)"

definition arch_aarch64 ::
  "bool \<Rightarrow> (u32 \<Rightarrow> OpcodeArm64) \<Rightarrow>
   (DwarfRegAarch64, 'expr, 'ev, UnwindRegsAarch64, UnwindRuleAarch64, 'm, 'g) ArchUnwinding" where
  "arch_aarch64 oc parse_opcode = \<lparr>arch_rule = ops_aarch64 oc, arch_dwarf = dwarf_aarch64 oc,
     arch_cui = macho_aarch64 oc parse_opcode, arch_pe = pe_unwind_frame_aarch64\<rparr>"

section \<open>The public unwinders\<close>

definition unwind_frame ::
  "bool \<Rightarrow> ('reg, 'expr, 'ev, 'regs, 'r, 'm, 'g) ArchUnwinding \<Rightarrow> ('reg, 'expr, 'ev, 'fde, 'tbl, 'ptr, 'g) GimliFrame \<Rightarrow>
   ('ui, 'm) MachoUnwindInfo \<Rightarrow> ModuleUnwindDataInternal UnwinderInternal \<Rightarrow> FrameAddress \<Rightarrow> 'regs \<Rightarrow> 'r RuleCache \<Rightarrow> stack_reader \<Rightarrow>
   ('regs \<times> 'r RuleCache \<times> (u64 option, Error) result) outcome" where
  "unwind_frame oc A G M u fa regs c rd = with_cache oc (arch_rule A) (unwind_frame_impl oc A G M) u fa regs c rd"

text \<open>The trait \<open>Unwinder\<close>; its provided method \<open>iter_frames\<close> makes an iterator over the unwinder.\<close>

record ('regs, 'r) Unwinder =
  un_add_module :: "ModuleUnwindDataInternal Module \<Rightarrow> u16 \<Rightarrow> ModuleUnwindDataInternal UnwinderInternal \<Rightarrow>
    (u16 \<times> ModuleUnwindDataInternal UnwinderInternal) outcome"
  un_remove_module :: "u64 \<Rightarrow> u16 \<Rightarrow> ModuleUnwindDataInternal UnwinderInternal \<Rightarrow>
    (u16 \<times> ModuleUnwindDataInternal UnwinderInternal) outcome"
  un_max_known_code_address :: "ModuleUnwindDataInternal UnwinderInternal \<Rightarrow> u64"
  un_unwind_frame :: "ModuleUnwindDataInternal UnwinderInternal \<Rightarrow> FrameAddress \<Rightarrow> 'regs \<Rightarrow> 'r RuleCache \<Rightarrow> stack_reader \<Rightarrow>
    ('regs \<times> 'r RuleCache \<times> (u64 option, Error) result) outcome"

definition iter_frames :: "u64 \<Rightarrow> 'regs \<Rightarrow> 'r RuleCache \<Rightarrow> ('regs, 'r) UnwindIterator" where
  "iter_frames pc regs c = new_iterator pc regs c"

definition unwinder_x86_64 ::
  "bool \<Rightarrow> (u32 \<Rightarrow> OpcodeX86_64) \<Rightarrow> ('info, 'op) PeLib \<Rightarrow> (DwarfRegX86_64, 'expr, 'ev, 'fde, 'tbl, 'ptr, 'g) GimliFrame \<Rightarrow>
   ('ui, 'm) MachoUnwindInfo \<Rightarrow> (UnwindRegsX86_64, UnwindRuleX86_64) Unwinder" where
  "unwinder_x86_64 oc parse_opcode L G M = \<lparr>un_add_module = add_module, un_remove_module = remove_module,
     un_max_known_code_address = max_known_code_address, un_unwind_frame = unwind_frame oc (arch_x86_64 oc parse_opcode L) G M\<rparr>"

definition unwinder_aarch64 ::
  "bool \<Rightarrow> (u32 \<Rightarrow> OpcodeArm64) \<Rightarrow> (DwarfRegAarch64, 'expr, 'ev, 'fde, 'tbl, 'ptr, 'g) GimliFrame \<Rightarrow>
   ('ui, 'm) MachoUnwindInfo \<Rightarrow> (UnwindRegsAarch64, UnwindRuleAarch64) Unwinder" where
  "unwinder_aarch64 oc parse_opcode G M = \<lparr>un_add_module = add_module, un_remove_module = remove_module,
     un_max_known_code_address = max_known_code_address, un_unwind_frame = unwind_frame oc (arch_aarch64 oc parse_opcode) G M\<rparr>"

end
