(* ===== verification/Iteration.thy ===== *)
theory Iteration
  imports UnwinderCore
begin

text \<open>
  Iterations of a build without overflow checks: they neither panic nor go on for ever, if the callback does its part.
  The locale \<open>safe_rule\<close> adds to an advancing rule that the rules which can occur execute without a panic.
\<close>

text \<open>What is asked of the callback: it returns, and the rules it gives can be executed.\<close>

definition callback_safe :: "('r \<Rightarrow> bool) \<Rightarrow> ('u, 'regs, 'r, 'e) frame_callback \<Rightarrow> 'u Module list \<Rightarrow> bool" where
  "callback_safe ok callback ms \<longleftrightarrow>
     (\<forall>m \<in> set ms. \<forall>fa rel regs rd. \<exists>regs' res. callback m fa rel regs rd = Val (regs', res) \<and>
        (\<forall>rule. res = Ok (ExecRule rule) \<longrightarrow> ok rule))"

lemma callback_safeD:
  assumes "callback_safe ok callback ms" "m \<in> set ms" "callback m fa rel regs rd = Val (regs', Ok (ExecRule rule))"
  shows "ok rule"
proof -
  obtain r1 r2 where "callback m fa rel regs rd = Val (r1, r2)" "\<forall>rule. r2 = Ok (ExecRule rule) \<longrightarrow> ok rule"
    using assms(1,2) unfolding callback_safe_def by blast
  with assms(3) show ?thesis by simp
qed

definition cache_ok :: "('r \<Rightarrow> bool) \<Rightarrow> 'r RuleCache \<Rightarrow> bool" where
  "cache_ok ok c \<longleftrightarrow> wf_cache c \<and> (\<forall>addr g rule. cached c addr g = Some rule \<longrightarrow> ok rule)"

lemma cache_ok_new [simp]: "cache_ok ok new_rule_cache"
  by (simp add: cache_ok_def)

lemma lookup_release: "wf_cache c \<Longrightarrow> \<exists>c' r. lookup False addr g c = Val (c', r)"
  by (cases rule: lookup_cases [of c addr g False]) auto

locale safe_rule = advancing_rule +
  fixes ok :: "'a \<Rightarrow> bool"
  assumes exec_safe: "ok rule \<Longrightarrow> no_panic (op_exec ops rule first regs rd)"
    and fallback_ok: "ok (op_fallback_rule ops)"
begin

lemma rule_on_miss_safe:
  assumes "modules_sorted u" "callback_safe ok callback (modules u)"
  shows "\<exists>regs' fl. rule_on_miss ops callback u fa addr regs rd = Val (regs', fl) \<and> (\<forall>rule. fl = Continue rule \<longrightarrow> ok rule)"
proof -
  have "no_panic (rule_on_miss ops callback u fa addr regs rd)"
    by (rule rule_on_miss_no_panic [OF assms(1)]) (use assms(2) in \<open>unfold callback_safe_def, blast\<close>)
  then obtain regs' fl where m: "rule_on_miss ops callback u fa addr regs rd = Val (regs', fl)" by auto
  have "ok rule" if "fl = Continue rule" for rule
    using assms(1) m
  proof (cases rule: rule_on_miss_cases)
    case (callback m rel res)
    then have "res = Ok (ExecRule r) \<Longrightarrow> ok r" for r using callback_safeD [OF assms(2)] by blast
    with callback(3) that fallback_ok show ?thesis by (auto split: result.splits UnwindResult.splits)
  qed (use that fallback_ok in simp)
  with m show ?thesis by blast
qed

lemma with_cache_safe:
  assumes s: "modules_sorted u" "callback_safe ok callback (modules u)" and c: "cache_ok ok c" and wf: "wf_frame_address fa"
  shows "\<exists>regs' c' res. with_cache False ops callback u fa regs c rd = Val (regs', c', res) \<and> cache_ok ok c'"
proof -
  let ?a = "lookup_address fa" and ?g = "modules_generation u" and ?f = "\<not> is_return_address fa"
  have w: "wf_cache c" using c by (simp add: cache_ok_def)
  obtain c1 cr where l: "lookup False ?a ?g c = Val (c1, cr)" using lookup_release [OF w] by blast
  note e = lookup_effect [OF w l]
  have c1: "cache_ok ok c1" using c e by (simp add: cache_ok_def)
  have v: "\<exists>regs' res. op_exec ops rule ?f regs rd = Val (regs', res)" if "ok rule" for rule regs
    using exec_safe [OF that, of ?f regs rd] by auto
  show ?thesis
  proof (cases "cached c ?a ?g")
    case (Some rule)
    with c have "ok rule" by (simp add: cache_ok_def)
    with Some e(4) l v [of rule regs] c1 show ?thesis by (auto simp: with_cache_def address_for_lookup_wf [OF wf])
  next
    case None
    with e have cr: "cr = Miss (miss_handle ?a ?g)" by simp
    obtain regs1 fl where m: "rule_on_miss ops callback u fa ?a regs rd = Val (regs1, fl)"
      "\<forall>rule. fl = Continue rule \<longrightarrow> ok rule" using rule_on_miss_safe [OF s] by blast
    show ?thesis
    proof (cases fl)
      case (Return x)
      with l cr m c1 show ?thesis by (simp add: with_cache_def address_for_lookup_wf [OF wf])
    next
      case (Continue rule)
      then have r: "ok rule" using m(2) by simp
      obtain c2 where c2: "insert_rule (miss_handle ?a ?g) rule c1 = Val c2" "wf_cache c2"
        "\<And>a' g'. cached c2 a' g' =
          (if slot_of a' = slot_of ?a then if a' = ?a \<and> g' = ?g then Some rule else None else cached c1 a' g')"
        using insert_effect [OF e(1)] by blast
      have "cache_ok ok c2" using c1 c2 r by (auto simp: cache_ok_def split: if_splits)
      with Continue l cr m v [OF r, of regs1] c2(1) show ?thesis
        by (auto simp: with_cache_def address_for_lookup_wf [OF wf])
    qed
  qed
qed

text \<open>The states an iterator can be in.\<close>

definition it_ok :: "('b, 'a) UnwindIterator \<Rightarrow> bool" where
  "it_ok it \<longleftrightarrow> cache_ok ok (it_cache it) \<and> (\<forall>fa. it_state it = Unwinding fa \<longrightarrow> wf_frame_address fa)"

lemma next_frame_safe:
  assumes "modules_sorted u" "callback_safe ok callback (modules u)" "it_ok it"
  shows "\<exists>it' res. next_frame False ops callback u rd it = Val (it', res) \<and> it_ok it'"
proof (cases "it_state it")
  case (Unwinding fa)
  then obtain regs' c' res where w: "with_cache False ops callback u fa (it_regs it) (it_cache it) rd = Val (regs', c', res)"
    "cache_ok ok c'" using with_cache_safe [OF assms(1,2)] assms(3) unfolding it_ok_def by blast
  have wf: "wf_frame_address fa" using assms(3) Unwinding by (simp add: it_ok_def)
  have "\<exists>it' r. next_frame False ops callback u rd it = Val (it', r)" using Unwinding w(1)
    by (simp add: next_frame_def Let_def)
  then obtain it' r where n: "next_frame False ops callback u rd it = Val (it', r)" by blast
  have "it_ok it'"
    using Unwinding n by (rule next_frame_Unwinding) (use w wf Unwinding in \<open>auto simp: it_ok_def\<close>)
  with n show ?thesis by blast
qed (use assms(3) in \<open>auto simp: next_frame_def it_ok_def\<close>)

lemma take_frames_safe:
  assumes "modules_sorted u" "callback_safe ok callback (modules u)" "it_ok it"
  shows "no_panic (take_frames False ops callback u rd n it)"
  using assms(3)
proof (induction n arbitrary: it)
  case (Suc n)
  obtain it' res where n: "next_frame False ops callback u rd it = Val (it', res)" "it_ok it'"
    using next_frame_safe [OF assms(1,2) Suc.prems] by blast
  obtain fas fin where "take_frames False ops callback u rd n it' = Val (fas, fin)" using Suc.IH [OF n(2)] by auto
  with n(1) show ?case by (auto split: result.splits option.splits)
qed simp

lemma iteration_ends_from_return_address:
  assumes s: "modules_sorted u" "callback_safe ok callback (modules u)" "callback_ranked rank callback (modules u)"
    and it: "it_ok it" "it_state it = Unwinding (ReturnAddress a)"
  shows "\<exists>fas fin. take_frames False ops callback u rd (Suc (rank rd (it_regs it))) it = Val (fas, Some fin)"
proof -
  have "a \<noteq> 0" "wf_cache (it_cache it)" using it by (simp_all add: it_ok_def cache_ok_def)
  obtain fas fin where t: "take_frames False ops callback u rd (Suc (rank rd (it_regs it))) it = Val (fas, fin)"
    using take_frames_safe [OF s(1,2) it(1), of rd "Suc (rank rd (it_regs it))"] by (metis surj_pair)
  from take_frames_bounded [OF s(1,3) \<open>wf_cache (it_cache it)\<close> it(2) \<open>a \<noteq> 0\<close> t] have "fin \<noteq> None" by simp
  with t show ?thesis by blast
qed

text \<open>An iteration ends without a panic: after finitely many frames it yields the end of the stack or an error.\<close>

lemma iteration_ends:
  assumes s: "modules_sorted u" "callback_safe ok callback (modules u)" "callback_ranked rank callback (modules u)"
    and c: "cache_ok ok c"
  shows "\<exists>n fas fin. take_frames False ops callback u rd n (new_iterator pc regs c) = Val (fas, Some fin)"
proof -
  let ?it = "(new_iterator pc regs c)\<lparr>it_state := Unwinding (InstructionPointer pc)\<rparr>"
  have "it_ok ?it" using c by (simp add: it_ok_def new_iterator_def)
  then obtain it' res where n: "next_frame False ops callback u rd ?it = Val (it', res)" "it_ok it'"
    using next_frame_safe [OF s(1,2)] by blast
  have i: "take_frames False ops callback u rd (Suc k) (new_iterator pc regs c) =
     obind (take_frames False ops callback u rd k ?it) (\<lambda>(fas, fin). Val (InstructionPointer pc # fas, fin))" for k
    by (simp add: new_iterator_def)
  have "\<exists>k fas fin. take_frames False ops callback u rd k ?it = Val (fas, Some fin)"
  proof (cases "\<exists>ra. res = Ok (Some ra)")
    case True
    then obtain a where a: "res = Ok (Some (ReturnAddress a))" "it_state it' = Unwinding (ReturnAddress a)"
      using next_frame_cases [OF n(1)] by auto
    obtain fas fin where "take_frames False ops callback u rd (Suc (rank rd (it_regs it'))) it' = Val (fas, Some fin)"
      using iteration_ends_from_return_address [OF s n(2) a(2)] by blast
    with n(1) a(1) have "take_frames False ops callback u rd (Suc (Suc (rank rd (it_regs it')))) ?it =
       Val (ReturnAddress a # fas, Some fin)" by (simp only: take_frames.simps(2) obind.simps prod.case result.case option.case)
    then show ?thesis by blast
  next
    case False
    then have "\<exists>fin. take_frames False ops callback u rd (Suc 0) ?it = Val ([], Some fin)"
      using n(1) by (cases res) (auto split: option.splits)
    then show ?thesis by blast
  qed
  then obtain k fas fin where "take_frames False ops callback u rd k ?it = Val (fas, Some fin)" by blast
  then have "take_frames False ops callback u rd (Suc k) (new_iterator pc regs c) = Val (InstructionPointer pc # fas, Some fin)"
    unfolding i by simp
  then show ?thesis by blast
qed

end

end
