(* ===== verification/Guarantees.thy ===== *)
theory Guarantees
  imports FrameImpl Iteration
begin

text \<open>
  The whole unwinder, both architectures: unwinding frames neither panics in a build without overflow checks nor goes on
  for ever, the latter in modules with compact unwind info or DWARF, or PE unwind codes
  that rules can express.  The locale \<open>safe_arch\<close> states what this asks of an
  architecture.
\<close>

section \<open>The contract of an architecture\<close>

text \<open>Expressions whose evaluation ends.\<close>

definition terminating :: "('reg, 'expr, 'ev) GimliEval \<Rightarrow> bool" where
  "terminating G \<longleftrightarrow> (\<forall>get_reg e. eval_expr G get_reg e \<noteq> Panic Diverges)"

text \<open>A frame's result: a rule that can be executed, a return address or an error.  Unless \<open>free\<close> is set, as for the first
  frame, the registers are as they were for a rule or an error, and the return address is closer to the end of the stack.\<close>

definition frame_result_ok ::
  "('r \<Rightarrow> bool) \<Rightarrow> (stack_reader \<Rightarrow> 'regs \<Rightarrow> nat) \<Rightarrow> bool \<Rightarrow> stack_reader \<Rightarrow> 'regs \<Rightarrow> 'regs \<times> ('r UnwindResult, 'e) result \<Rightarrow> bool"
  where
  "frame_result_ok ok rank free rd regs p =
     (case p of
        (regs', Ok (ExecRule rule)) \<Rightarrow> ok rule \<and> (free \<or> regs' = regs)
      | (regs', Ok (Uncacheable ra)) \<Rightarrow> free \<or> rank rd regs' < rank rd regs
      | (regs', Err _) \<Rightarrow> free \<or> regs' = regs)"

lemma frame_result_ok_simps [simp]:
  "frame_result_ok ok rank free rd regs (regs', Ok (ExecRule rule)) \<longleftrightarrow> ok rule \<and> (free \<or> regs' = regs)"
  "frame_result_ok ok rank free rd regs (regs', Ok (Uncacheable ra)) \<longleftrightarrow> free \<or> rank rd regs' < rank rd regs"
  "frame_result_ok ok rank free rd regs (regs', Err e) \<longleftrightarrow> free \<or> regs' = regs"
  "frame_result_ok ok rank free rd regs (regs', map_err f r) \<longleftrightarrow> frame_result_ok ok rank free rd regs (regs', r)"
  by (simp_all add: frame_result_ok_def) (cases r; simp add: frame_result_ok_def split: UnwindResult.splits)

lemma frame_result_ok_mono:
  "frame_result_ok ok rank free rd regs p \<Longrightarrow> (free \<Longrightarrow> free') \<Longrightarrow> frame_result_ok ok rank free' rd regs p"
  by (auto simp: frame_result_ok_def split: prod.splits result.splits UnwindResult.splits)

lemma frame_result_ok_freeI: "(\<And>rule. snd p = Ok (ExecRule rule) \<Longrightarrow> ok rule) \<Longrightarrow> frame_result_ok ok rank True rd regs p"
  by (auto simp: frame_result_ok_def split: prod.splits result.splits UnwindResult.splits)

locale safe_arch =
  fixes A :: "('reg, 'expr, 'ev, 'regs, 'r, 'm, 'g) ArchUnwinding"
    and ok :: "'r \<Rightarrow> bool"
    and rank :: "stack_reader \<Rightarrow> 'regs \<Rightarrow> nat"
    and row_ok :: "('reg, 'expr) UnwindTableRow \<Rightarrow> bool"
    and pe_ok :: "PeSections \<Rightarrow> bool"
    and pe_advances :: "PeSections \<Rightarrow> bool"
  assumes cui_frame: "(\<And>bs. bytes = Some bs \<Longrightarrow> off < length bs) \<Longrightarrow>
      \<exists>r. cui_unwind_frame (arch_cui A) f first off bytes = Val r \<and> (\<forall>rule. r = Ok (CuiExecRule rule) \<longrightarrow> ok rule)"
    and stub_helper: "cui_rule_for_stub_helper (arch_cui A) a = Ok (CuiExecRule rule) \<Longrightarrow> ok rule"
    and stub: "ok (op_rule_for_stub_functions (arch_rule A))"
    and function_start: "ok (op_rule_for_function_start (arch_rule A))"
    and dwarf_frame: "terminating G \<Longrightarrow>
      \<exists>p. dw_unwind_frame (arch_dwarf A G) row regs first rd = Val p \<and> frame_result_ok ok rank (first \<or> \<not> row_ok row) rd regs p"
    and uncovered: "ok (dw_rule_if_uncovered_by_fde (arch_dwarf A G))"
    and pe_frame: "pe_ok s \<Longrightarrow>
      \<exists>p. arch_pe A s a regs first rd = Val p \<and> frame_result_ok ok rank (first \<or> \<not> pe_advances s) rd regs p"

text \<open>What is asked of the unwind data and of the external crates.\<close>

definition index_ok :: "DwarfCfiIndex \<Rightarrow> bool" where
  "index_ok ix \<longleftrightarrow> sorted (sorted_fde_pc_starts ix) \<and> length (fde_offsets ix) = length (sorted_fde_pc_starts ix)"

text \<open>The PE sections of a module, if it has PE unwind data, satisfy \<open>P\<close>.\<close>

definition pe_data :: "(PeSections \<Rightarrow> bool) \<Rightarrow> ModuleUnwindDataInternal \<Rightarrow> bool" where
  "pe_data P d = (case d of PeUnwindInfo p r x t \<Rightarrow> P \<lparr>pdata = p, rdata = r, xdata = x, text_section = t\<rparr> | _ \<Rightarrow> True)"

lemma pe_data_mono: "pe_data P d \<Longrightarrow> (\<And>s. P s \<Longrightarrow> Q s) \<Longrightarrow> pe_data Q d"
  by (auto simp: pe_data_def split: ModuleUnwindDataInternal.splits)

lemma pe_data_True [simp]: "pe_data (\<lambda>_. True) d"
  by (auto simp: pe_data_def split: ModuleUnwindDataInternal.splits)

definition data_ok :: "(PeSections \<Rightarrow> bool) \<Rightarrow> ModuleUnwindDataInternal \<Rightarrow> bool" where
  "data_ok P d \<longleftrightarrow> pe_data P d \<and>
     (case d of DwarfCfiIndexAndEhFrame ix _ _ \<Rightarrow> index_ok ix | DwarfCfiIndexAndDebugFrame ix _ _ \<Rightarrow> index_ok ix | _ \<Rightarrow> True)"

definition gimli_terminating :: "('reg, 'expr, 'ev, 'fde, 'tbl, 'ptr, 'g) GimliFrame \<Rightarrow> bool" where
  "gimli_terminating G \<longleftrightarrow> (\<forall>ty bytes. terminating (gf_eval G ty bytes))"

definition rows_ok ::
  "(('reg, 'expr) UnwindTableRow \<Rightarrow> bool) \<Rightarrow> ('reg, 'expr, 'ev, 'fde, 'tbl, 'ptr, 'g) GimliFrame \<Rightarrow> bool" where
  "rows_ok row_ok G \<longleftrightarrow>
     (\<forall>ty bytes bases fde a row. g_unwind_info_for_address (gf_table G ty bytes bases) fde a = Ok row \<longrightarrow> row_ok row)"

text \<open>Modules that \<open>Module::new\<close> made, from whatever section information: their index, if there is one, is sorted.\<close>

definition made_by ::
  "('cie, 'pfde, 'fde, 'off, 'g) GimliCfi \<Rightarrow> 's ModuleSectionInfo \<Rightarrow> ModuleUnwindDataInternal Module \<Rightarrow> bool" where
  "made_by C I m \<longleftrightarrow> (\<exists>oc name avmas base s. new_module oc C I name avmas base s = Val m)"

lemma try_new_index_ok: "try_new S base es = Ok ix \<Longrightarrow> index_ok ix"
  unfolding index_ok_def by (rule try_new_Ok) simp_all

lemma try_new_section_index_ok: "run_state (try_new_section C I ty bs) s = (Ok ix, s') \<Longrightarrow> index_ok ix"
  by (auto simp: try_new_section_def try_new_index_ok split: prod.splits)

lemma new_unwind_data_ok: "run_state (new_unwind_data oc C I) s = (Val d, s') \<Longrightarrow> pe_data P d \<Longrightarrow> data_ok P d"
  by (auto simp: new_unwind_data_def pe_unwind_data_def macho_unwind_data_def dwarf_unwind_data_def data_ok_def
      try_new_eh_frame_def try_new_debug_frame_def
      split: prod.splits option.splits result.splits dest!: try_new_section_index_ok)

lemma made_by_ok:
  assumes "made_by C I m" "pe_data P (unwind_data m)"
  shows "data_ok P (unwind_data m)"
proof -
  from assms(1) obtain oc name avmas base s where m: "new_module oc C I name avmas base s = Val m" by (auto simp: made_by_def)
  obtain d s' where d: "run_state (new_unwind_data oc C I) s = (d, s')" by fastforce
  with m have "d = Val (unwind_data m)" by (auto simp: new_module_def)
  with d show ?thesis by (intro new_unwind_data_ok [OF _ assms(2)]) simp
qed

lemma map_err_Ok [simp]: "map_err f r = Ok x \<longleftrightarrow> r = Ok x"
  by (cases r) auto

lemma unwind_info_for_fde_Ok:
  "unwind_info_for_fde T a off = Ok row \<Longrightarrow> \<exists>fde. g_unwind_info_for_address T fde a = Ok row"
  by (auto simp: unwind_info_for_fde_def split: result.splits)

lemma hdr_lookup_no_panic: "no_panic (get_fde_offset_for_relative_address False hdr base rel)"
  by (simp add: get_fde_offset_for_relative_address_def)

lemma index_lookup_no_panic: "index_ok ix \<Longrightarrow> no_panic (fde_offset_for_relative_address ix rel)"
  using index_lookup [of ix "zip (sorted_fde_pc_starts ix) (fde_offsets ix)" rel] by (auto simp: index_ok_def)

context safe_arch
begin

lemma dwarf_unwind_with_fde_ok:
  assumes "gimli_terminating G" "free \<or> rows_ok row_ok G"
  shows "\<exists>p. dwarf_unwind_with_fde False A G du regs first rel off rd = Val p \<and> frame_result_ok ok rank (first \<or> free) rd regs p"
proof -
  let ?D = "arch_dwarf A (gf_eval G (unwind_section_type du) (unwind_section_data du))"
  let ?T = "gf_table G (unwind_section_type du) (unwind_section_data du) (du_bases du)"
  have "\<exists>p. unwind_frame_with_fde False ?D ?T (du_base_svma du) regs first rel off rd = Val p \<and>
      frame_result_ok ok rank (first \<or> free) rd regs p"
  proof (cases "unwind_info_for_fde ?T (du_base_svma du + ucast rel) off")
    case (Ok row)
    then have "free \<or> row_ok row" using assms(2) unwind_info_for_fde_Ok [OF Ok] unfolding rows_ok_def by blast
    moreover have "terminating (gf_eval G (unwind_section_type du) (unwind_section_data du))"
      using assms(1) by (simp add: gimli_terminating_def)
    ultimately show ?thesis
      using Ok dwarf_frame [of _ row regs first rd] frame_result_ok_mono unfolding unwind_frame_with_fde_def by fastforce
  next
    case (Err e)
    then show ?thesis using uncovered by (cases e) (simp_all add: unwind_frame_with_fde_def)
  qed
  then obtain regs' r where "unwind_frame_with_fde False ?D ?T (du_base_svma du) regs first rel off rd = Val (regs', r)"
    "frame_result_ok ok rank (first \<or> free) rd regs (regs', r)" by auto
  then show ?thesis by (simp add: dwarf_unwind_with_fde_def)
qed

lemma dwarf_unwind_at_ok:
  assumes "gimli_terminating G" "free \<or> rows_ok row_ok G" "no_panic found"
  shows "\<exists>p. dwarf_unwind_at False A G du regs first rel found e rd = Val p \<and> frame_result_ok ok rank (first \<or> free) rd regs p"
proof -
  obtain x where "found = Val x" using assms(3) by blast
  then show ?thesis using dwarf_unwind_with_fde_ok [OF assms(1,2)] by (cases x) (simp_all add: dwarf_unwind_at_def)
qed

lemma compact_frame_ok:
  assumes M: "lookup_in_range M"
  shows "\<exists>r. compact_unwind_frame oc (arch_rule A) (arch_cui A) M u a first = Val r \<and> (\<forall>rule. r = Ok (CuiExecRule rule) \<longrightarrow> ok rule)"
proof (cases "function_for_address M u a :: (MachoFunction, ('m, 'g) CompactUnwindInfoUnwinderError) result")
  case (Ok f)
  then have f: "start_address f \<le> a" "a < end_address f" using M by (auto dest: function_for_address_range)
  have "\<exists>r. cui_unwind_frame (arch_cui A) f first (unat (a - start_address f)) (function_bytes u f) = Val r \<and>
      (\<forall>rule. r = Ok (CuiExecRule rule) \<longrightarrow> ok rule)"
    by (rule cui_frame) (use function_bytes_length [OF _ f] in blast)
  with Ok f stub stub_helper function_start show ?thesis by (auto simp: compact_unwind_frame_def)
next
  case (Err e)
  then show ?thesis using stub stub_helper by (cases e) (auto simp: compact_unwind_frame_def)
qed

lemma impl_compact_ok:
  assumes G: "gimli_terminating G" and M: "lookup_in_range M" and rows: "free \<or> rows_ok row_ok G"
    and d: "unwind_data m = CompactUnwindInfoAndEhFrame ui eh stubs helper bases td"
  shows "\<exists>p. unwind_frame_impl False A G M m fa rel regs rd = Val p \<and>
    frame_result_ok ok rank (\<not> is_return_address fa \<or> free) rd regs p"
proof -
  obtain u where u: "new_cui_unwinder False m ui stubs helper td = Val u"
    by (cases stubs; cases helper) (auto simp: new_cui_unwinder_def relative_range_def)
  obtain r where r: "compact_unwind_frame False (arch_rule A) (arch_cui A) M u rel (\<not> is_return_address fa) = Val r"
    "\<forall>rule. r = Ok (CuiExecRule rule) \<longrightarrow> ok rule" using compact_frame_ok [OF M] by blast
  consider (dwarf) fde bs where "r = Ok (NeedDwarf fde)" "eh = Some bs" | (rule) ru where "r = Ok (CuiExecRule ru)"
    | (no_eh_frame) fde where "r = Ok (NeedDwarf fde)" "eh = None" | (error) e where "r = Err e"
    by (cases r) (metis CuiUnwindResult.exhaust option.exhaust)+
  then show ?thesis
  proof cases
    case dwarf
    let ?du = "new_dwarf_unwinder G bs EhFrame None bases (base_svma m)"
    have "unwind_frame_impl False A G M m fa rel regs rd =
        dwarf_unwind_with_fde False A G ?du regs (\<not> is_return_address fa) rel fde rd"
      using u r dwarf d by (simp add: unwind_frame_impl_def Let_def)
    then show ?thesis by (simp only:) (rule dwarf_unwind_with_fde_ok [OF G rows])
  next
    case (rule ru)
    with r(2) have "ok ru" by blast
    with u r(1) d rule show ?thesis by (simp add: unwind_frame_impl_def Let_def)
  next
    case (no_eh_frame fde)
    with u r(1) d show ?thesis by (simp add: unwind_frame_impl_def Let_def)
  next
    case (error e)
    with u r(1) d show ?thesis by (simp add: unwind_frame_impl_def Let_def)
  qed
qed

lemma impl_ok:
  assumes G: "gimli_terminating G" and M: "lookup_in_range M" and d: "data_ok pe_ok (unwind_data m)"
    and rows: "free \<or> rows_ok row_ok G" and free: "free \<or> pe_data pe_advances (unwind_data m)"
  shows "\<exists>p. unwind_frame_impl False A G M m fa rel regs rd = Val p \<and>
    frame_result_ok ok rank (\<not> is_return_address fa \<or> free) rd regs p"
proof (cases "unwind_data m")
  case (CompactUnwindInfoAndEhFrame ui eh stubs helper bases td)
  then show ?thesis by (rule impl_compact_ok [OF G M rows])
next
  case (EhFrameHdrAndEhFrame hdr eh bases)
  then show ?thesis unfolding unwind_frame_impl_def Let_def
    by (simp only: ModuleUnwindDataInternal.case) (rule dwarf_unwind_at_ok [OF G rows hdr_lookup_no_panic])
next
  case (DwarfCfiIndexAndEhFrame ix eh bases)
  with d have "no_panic (fde_offset_for_relative_address ix rel)" by (simp add: data_ok_def index_lookup_no_panic)
  with DwarfCfiIndexAndEhFrame show ?thesis unfolding unwind_frame_impl_def Let_def
    by (simp only: ModuleUnwindDataInternal.case) (rule dwarf_unwind_at_ok [OF G rows])
next
  case (DwarfCfiIndexAndDebugFrame ix df bases)
  with d have "no_panic (fde_offset_for_relative_address ix rel)" by (simp add: data_ok_def index_lookup_no_panic)
  with DwarfCfiIndexAndDebugFrame show ?thesis unfolding unwind_frame_impl_def Let_def
    by (simp only: ModuleUnwindDataInternal.case) (rule dwarf_unwind_at_ok [OF G rows])
next
  case (PeUnwindInfo p r x t)
  let ?s = "\<lparr>pdata = p, rdata = r, xdata = x, text_section = t\<rparr>"
  have "pe_ok ?s" "free \<or> pe_advances ?s" using d free PeUnwindInfo by (auto simp: data_ok_def pe_data_def)
  then obtain regs' res where "arch_pe A ?s rel regs (\<not> is_return_address fa) rd = Val (regs', res)"
    "frame_result_ok ok rank (\<not> is_return_address fa \<or> free) rd regs (regs', res)"
    using pe_frame frame_result_ok_mono by (metis surj_pair)
  with PeUnwindInfo show ?thesis by (simp add: unwind_frame_impl_def)
qed (simp add: unwind_frame_impl_def)

lemma impl_safe:
  assumes "gimli_terminating G" "lookup_in_range M" "\<forall>m \<in> set ms. data_ok pe_ok (unwind_data m)"
  shows "callback_safe ok (unwind_frame_impl False A G M) ms"
  unfolding callback_safe_def
proof (intro ballI allI)
  fix m fa rel regs rd
  assume "m \<in> set ms"
  then obtain regs' res where "unwind_frame_impl False A G M m fa rel regs rd = Val (regs', res)"
    "frame_result_ok ok rank True rd regs (regs', res)" using impl_ok [OF assms(1,2), of m True] assms(3) by fastforce
  then show "\<exists>regs' res. unwind_frame_impl False A G M m fa rel regs rd = Val (regs', res) \<and>
      (\<forall>rule. res = Ok (ExecRule rule) \<longrightarrow> ok rule)" by auto
qed

lemma impl_ranked:
  assumes "gimli_terminating G" "lookup_in_range M" "\<forall>m \<in> set ms. data_ok pe_ok (unwind_data m)"
    and "rows_ok row_ok G" "\<forall>m \<in> set ms. pe_data pe_advances (unwind_data m)"
  shows "callback_ranked rank (unwind_frame_impl False A G M) ms"
  unfolding callback_ranked_def
proof (intro ballI allI impI)
  fix m a rel regs rd regs' res
  assume "m \<in> set ms" "unwind_frame_impl False A G M m (ReturnAddress a) rel regs rd = Val (regs', res)"
  then have "frame_result_ok ok rank False rd regs (regs', res)"
    using impl_ok [OF assms(1,2), of m False "ReturnAddress a" rel regs rd] assms(3-5) by simp
  then show "case res of Ok (Uncacheable ra) \<Rightarrow> ra \<noteq> 0 \<longrightarrow> rank rd regs' < rank rd regs | _ \<Rightarrow> rank rd regs' \<le> rank rd regs"
    by (auto simp: frame_result_ok_def split: result.splits UnwindResult.splits)
qed

end

section \<open>Evaluation of rules\<close>

lemma eval_expr_no_panic:
  assumes "terminating G"
  shows "no_panic (eval_expr G get_reg e)"
proof -
  have "eval_expr G get_reg e \<noteq> Panic p" for p
    using assms by (cases "p = Diverges") (auto simp: terminating_def eval_expr_def split: option.splits)
  then show ?thesis unfolding no_panic_iff by blast
qed

lemma eval_cfa_rule_no_panic: "terminating G \<Longrightarrow> no_panic (eval_cfa_rule G rule get_reg)"
  using eval_expr_no_panic by (cases rule) (auto simp: eval_cfa_rule_def)

lemma eval_register_rule_no_panic: "terminating G \<Longrightarrow> no_panic (eval_register_rule G rule cfa v get_reg rd)"
  using eval_expr_no_panic [of G get_reg] by (cases rule) (auto simp: eval_register_rule_def)

section \<open>x86_64\<close>

text \<open>The rules that decode without a panic, and the rows of the platform's calling convention: the return address is either
  unknown, at the bottom of the stack, or stored right below the CFA.\<close>

definition encoded_ok :: "UnwindRuleX86_64 \<Rightarrow> bool" where
  "encoded_ok rule = (case rule of OffsetSpAndPopRegisters _ _ e \<Rightarrow> unat e < 40320 | _ \<Rightarrow> True)"

lemma encoded_ok_simps [simp]:
  "encoded_ok UnwindRuleX86_64.EndOfStack" "encoded_ok JustReturn" "encoded_ok JustReturnIfFirstFrameOtherwiseFp"
  "encoded_ok (UnwindRuleX86_64.OffsetSp x)" "encoded_ok (OffsetSpAndRestoreBp x y)" "encoded_ok UnwindRuleX86_64.UseFramePointer"
  by (simp_all add: encoded_ok_def)

definition standard_row_x86_64 :: "(DwarfRegX86_64, 'expr) UnwindTableRow \<Rightarrow> bool" where
  "standard_row_x86_64 row \<longleftrightarrow> row_register row DW_RA = Undefined \<or> row_register row DW_RA = Offset (- 8)"

lemma exec_release_x86_64: "encoded_ok rule \<Longrightarrow> no_panic (exec_x86_64 False rule first regs rd)"
  unfolding no_panic_iff
proof (intro allI)
  fix p
  assume "encoded_ok rule"
  then have "exec_match_x86_64 rule first regs rd \<noteq> Panic q" for q
    by (auto simp: exec_match_panics_iff encoded_ok_def)
  then show "exec_x86_64 False rule first regs rd \<noteq> Panic p"
    by (cases rule: exec_x86_64_cases [of rule first regs rd False]) (simp_all add: return_to_caller_panics_iff)
qed

interpretation x86_release: safe_rule "ops_x86_64 False" sp rank_x86_64 encoded_ok
proof unfold_locales
  fix rule first regs rd
  assume "encoded_ok rule"
  then show "no_panic (op_exec (ops_x86_64 False) rule first regs rd)"
    unfolding ops_x86_64_simps by (rule exec_release_x86_64)
qed (simp add: fallback_rule_x86_64_def)

lemma prologue_loop_encoded_ok: "prologue_loop oc bytes cursor n = Val (Some rule) \<Longrightarrow> encoded_ok rule"
proof (induction oc bytes cursor n rule: prologue_loop.induct)
  case (1 oc bytes cursor n)
  from "1.prems" show ?case
    by (subst (asm) prologue_loop.simps) (auto split: if_splits intro: "1.IH")
qed

lemma epilogue_encoded_ok:
  assumes "rule_from_epilogue_analysis_x86_64 oc bs off = Val (Some rule)"
  shows "encoded_ok rule"
proof -
  obtain prev x where x: "epilogue_loop oc prev 0 None (drop off bs) = Val x"
    "(case x of
        None \<Rightarrow> Val None
      | Some (n, bp_off) \<Rightarrow>
          if n = 0 then Val (Some JustReturn)
          else obind (add_oc oc n 1) (\<lambda>n'.
            Val (Some (case bp_off of Some y \<Rightarrow> OffsetSpAndRestoreBp n' y | None \<Rightarrow> UnwindRuleX86_64.OffsetSp n')))) = Val (Some rule)"
    using assms unfolding rule_from_epilogue_analysis_x86_64_def Let_def by (auto split: if_splits)
  then show ?thesis by (cases x) (auto split: if_splits option.splits)
qed

lemma analysis_encoded_ok:
  assumes "rule_from_instruction_analysis_x86_64 oc bs off = Val (Some rule)"
  shows "encoded_ok rule"
proof -
  obtain r where r: "rule_from_prologue_analysis_x86_64 oc bs off = Val r"
    "(case r of Some rule \<Rightarrow> Val (Some rule) | None \<Rightarrow> rule_from_epilogue_analysis_x86_64 oc bs off) = Val (Some rule)"
    using assms by (auto simp: rule_from_instruction_analysis_x86_64_def)
  then show ?thesis
    using epilogue_encoded_ok
    by (cases r) (auto simp: rule_from_prologue_analysis_x86_64_def intro: prologue_loop_encoded_ok split: if_splits)
qed

lemma opcode_encoded_ok:
  "rule_for_opcode_x86_64 oc opc bytes = Val (Ok (CuiExecRule rule) :: ('m, 'g) cui_result_x86_64) \<Longrightarrow> encoded_ok rule"
  by (auto simp: rule_for_opcode_x86_64_def frameless_rule_def
      split: OpcodeX86_64.splits option.splits result.splits if_splits)

lemma compact_encoded_ok:
  assumes "compact_frame_x86_64 oc parse_opcode f first off bytes = Val (Ok (CuiExecRule rule) :: ('m, 'g) cui_result_x86_64)"
  shows "encoded_ok rule"
  using assms analysis_encoded_ok opcode_encoded_ok
  by (fastforce simp: compact_frame_x86_64_def Let_def split: if_splits option.splits)

lemma translate_release_x86_64:
  "\<exists>r. translate_into_unwind_rule_x86_64 False cfa bp_rule ra_rule = Val r \<and> (\<forall>rule. r = Ok rule \<longrightarrow> encoded_ok rule)"
  by (auto simp: translate_into_unwind_rule_x86_64_def translate_cfa_x86_64_def iadd_oc_def
      split: RegisterRule.splits CfaRule.splits DwarfRegX86_64.splits option.splits result.splits if_splits)

text \<open>In a standard row the return address is what is stored below the CFA, whichever way it is found.\<close>

lemma standard_return_address:
  assumes "eval_register_rule G (Offset (- 8)) cfa v get_reg rd = Val (Some ra)"
  shows "rd (cfa - 8) = Some ra"
proof -
  from assms obtain a where a: "add_offset cfa (- 8) = Some a" "rd a = Some ra"
    by (auto simp: eval_register_rule_def split: option.splits)
  then have "uint a = uint cfa - 8" by (simp add: add_offset_Some_iff)
  then have "a = word_of_int (uint cfa - 8)" by (metis word_of_int_uint)
  then have "a = cfa - 8" by simp
  with a(2) show ?thesis by simp
qed

lemma dwarf_eval_frame_x86_64_ok:
  assumes G: "terminating G" and row: "row_register row DW_RA = Offset (- 8)"
  shows "\<exists>p. dwarf_eval_frame_x86_64 False G row regs first rd =
        Val (p :: UnwindRegsX86_64 \<times> (UnwindRuleX86_64 UnwindResult, 'g DwarfUnwinderError) result) \<and>
      frame_result_ok encoded_ok rank_x86_64 first rd regs p"
proof -
  let ?get = "dwarf_get_x86_64 regs"
  obtain c where c: "eval_cfa_rule G (row_cfa row) ?get = Val c" using eval_cfa_rule_no_panic [OF G] by blast
  show ?thesis
  proof (cases c)
    case None
    with c show ?thesis by (simp add: dwarf_eval_frame_x86_64_def)
  next
    case (Some cfa)
    obtain b where b: "eval_register_rule G (row_register row DW_RBP) cfa (bp regs) ?get rd = Val b"
      using eval_register_rule_no_panic [OF G] by blast
    obtain r where r: "eval_register_rule G (Offset (- 8)) cfa (ip regs) ?get rd = Val r"
      using eval_register_rule_no_panic [OF G] by blast
    let ?ra = "case r of Some ra \<Rightarrow> Ok ra | None \<Rightarrow> ok_or (rd (cfa - 8)) (CouldNotRecoverReturnAddress :: 'g DwarfUnwinderError)"
    have e: "dwarf_eval_frame_x86_64 False G row regs first rd =
      (case ?ra of
         Err e \<Rightarrow> Val (regs, Err e)
       | Ok return_address \<Rightarrow>
           if cfa = sp regs \<and> return_address = ip regs then Val (regs, Err DidNotAdvanceDwarf)
           else if \<not> first \<and> cfa < sp regs then Val (regs, Err StackPointerMovedBackwards)
           else Val (set_sp cfa (set_bp (unwrap_or b (bp regs)) (set_ip return_address regs)), Ok (Uncacheable return_address)))"
      using c Some b r row by (cases r) (simp_all add: dwarf_eval_frame_x86_64_def)
    show ?thesis
    proof (cases ?ra)
      case (Err e')
      with e have "dwarf_eval_frame_x86_64 False G row regs first rd = Val (regs, Err e')" by simp
      then show ?thesis by simp
    next
      case (Ok ra)
      have "rd (cfa - 8) = Some ra" using Ok r standard_return_address by (cases r) auto
      then have "rank_x86_64 rd (set_sp cfa (set_bp x (set_ip ra regs))) < rank_x86_64 rd regs"
        if "\<not> (cfa = sp regs \<and> ra = ip regs)" "\<not> cfa < sp regs" for x
        using that by (intro rank_x86_64_less) (simp_all add: not_less)
      then show ?thesis unfolding e Ok by auto
    qed
  qed
qed

lemma dwarf_eval_frame_x86_64_release:
  assumes G: "terminating G"
  shows "\<exists>regs' res. dwarf_eval_frame_x86_64 False G row regs first rd =
      Val (regs', res :: (UnwindRuleX86_64 UnwindResult, 'g DwarfUnwinderError) result) \<and> (\<forall>rule. res \<noteq> Ok (ExecRule rule))"
proof -
  let ?get = "dwarf_get_x86_64 regs"
  obtain c where c: "eval_cfa_rule G (row_cfa row) ?get = Val c" using eval_cfa_rule_no_panic [OF G] by blast
  have "\<exists>x. eval_register_rule G rule cfa v ?get rd = Val x" for rule cfa v
    using eval_register_rule_no_panic [OF G] by blast
  then obtain er where er: "\<And>rule cfa v. eval_register_rule G rule cfa v ?get rd = Val (er rule cfa v)" by metis
  show ?thesis
    by (cases c) (auto simp: dwarf_eval_frame_x86_64_def c er Let_def split: option.split result.split)
qed

lemma dwarf_frame_x86_64_ok:
  assumes G: "terminating G"
  shows "\<exists>p. dwarf_unwind_frame_x86_64 False G row regs first rd =
        Val (p :: UnwindRegsX86_64 \<times> (UnwindRuleX86_64 UnwindResult, 'g DwarfUnwinderError) result) \<and>
      frame_result_ok encoded_ok rank_x86_64 (first \<or> \<not> standard_row_x86_64 row) rd regs p"
proof -
  obtain r where r: "translate_into_unwind_rule_x86_64 False (row_cfa row) (row_register row DW_RBP) (row_register row DW_RA) = Val r"
    "\<forall>rule. r = Ok rule \<longrightarrow> encoded_ok rule" using translate_release_x86_64 by blast
  show ?thesis
  proof (cases r)
    case (Ok rule)
    with r show ?thesis by (simp add: dwarf_unwind_frame_x86_64_def)
  next
    case (Err e)
    then have e: "dwarf_unwind_frame_x86_64 False G row regs first rd =
        (dwarf_eval_frame_x86_64 False G row regs first rd ::
          (UnwindRegsX86_64 \<times> (UnwindRuleX86_64 UnwindResult, 'g DwarfUnwinderError) result) outcome)"
      using r(1) by (simp add: dwarf_unwind_frame_x86_64_def)
    show ?thesis
    proof (cases "standard_row_x86_64 row")
      case True
      have "row_register row DW_RA \<noteq> Undefined" using r(1) Err by (auto simp: translate_into_unwind_rule_x86_64_def)
      then have "row_register row DW_RA = Offset (- 8)" using True by (simp add: standard_row_x86_64_def)
      from dwarf_eval_frame_x86_64_ok [OF G this] e True show ?thesis by simp
    next
      case False
      obtain regs' and res :: "(UnwindRuleX86_64 UnwindResult, 'g DwarfUnwinderError) result" where
        d: "dwarf_eval_frame_x86_64 False G row regs first rd = Val (regs', res)" "\<forall>rule. res \<noteq> Ok (ExecRule rule)"
        using dwarf_eval_frame_x86_64_release [OF G] by blast
      then have "frame_result_ok encoded_ok rank_x86_64 True rd regs (regs', res)" by (intro frame_result_ok_freeI) simp
      with d e False show ?thesis by auto
    qed
  qed
qed

lemma cui_frame_x86_64_ok:
  fixes bytes :: "u8 list option"
  assumes "\<And>bs. bytes = Some bs \<Longrightarrow> off < length bs"
  shows "\<exists>r. compact_frame_x86_64 False parse_opcode f first off bytes = Val (r :: ('m, 'g) cui_result_x86_64) \<and>
     (\<forall>rule. r = Ok (CuiExecRule rule) \<longrightarrow> encoded_ok rule)"
proof -
  have "no_panic (compact_frame_x86_64 False parse_opcode f first off bytes :: ('m, 'g) cui_result_x86_64 outcome)"
    by (rule compact_frame_no_panic_x86_64) (use assms in simp)
  then obtain r where "compact_frame_x86_64 False parse_opcode f first off bytes = Val (r :: ('m, 'g) cui_result_x86_64)" by blast
  then show ?thesis using compact_encoded_ok by blast
qed

lemma for_sequence_encoded_ok: "for_sequence_of_offset_or_pop oc ops = Val (Some rule) \<Longrightarrow> encoded_ok rule"
  by (erule for_sequence_cases) (auto simp: wf_rule_x86_64_def encoded_ok_def split: UnwindRuleX86_64.splits)

lemma pe_frame_x86_64_ok:
  assumes "pe_image_ok L s"
  shows "\<exists>p. pe_unwind_frame_x86_64 False L s a regs first rd = Val p \<and>
    frame_result_ok encoded_ok rank (first \<or> \<not> cacheable_codes L s) rd regs p"
proof -
  obtain regs' res where r: "pe_unwind_frame_x86_64 False L s a regs first rd = Val (regs', res)"
    using pe_frame_release [OF assms] by (metis surj_pair)
  have ok: "encoded_ok rule" if "res = Ok (ExecRule rule)" for rule
    using pe_frame_rule [of False L s a regs first rd regs' rule] r that for_sequence_encoded_ok by auto
  have "frame_result_ok encoded_ok rank (first \<or> \<not> cacheable_codes L s) rd regs (regs', res)"
  proof (cases "first \<or> \<not> cacheable_codes L s")
    case True
    with ok show ?thesis by (simp only:) (intro frame_result_ok_freeI; simp)
  next
    case False
    with pe_frame_cacheable [of L s a regs rd regs' res] r have "regs' = regs" "\<And>ra. res \<noteq> Ok (Uncacheable ra)" by auto
    with ok show ?thesis by (auto simp: frame_result_ok_def split: result.splits UnwindResult.splits)
  qed
  with r show ?thesis by blast
qed

interpretation x86_arch: safe_arch
    "arch_x86_64 False parse_opcode L :: (DwarfRegX86_64, 'expr, 'ev, UnwindRegsX86_64, UnwindRuleX86_64, 'm, 'g) ArchUnwinding"
    encoded_ok rank_x86_64 standard_row_x86_64 "pe_image_ok L" "cacheable_codes L" for parse_opcode L
proof unfold_locales
  fix bytes :: "u8 list option" and off f first
  assume a: "\<And>bs. bytes = Some bs \<Longrightarrow> off < length bs"
  show "\<exists>r. cui_unwind_frame (arch_cui (arch_x86_64 False parse_opcode L)) f first off bytes = Val r \<and>
      (\<forall>rule. r = Ok (CuiExecRule rule) \<longrightarrow> encoded_ok rule)"
    using cui_frame_x86_64_ok [OF a] by (simp add: arch_x86_64_def macho_x86_64_def)
next
  fix G :: "(DwarfRegX86_64, 'expr, 'ev) GimliEval" and row :: "(DwarfRegX86_64, 'expr) UnwindTableRow"
    and regs first rd
  assume a: "terminating G"
  show "\<exists>p. dw_unwind_frame (arch_dwarf (arch_x86_64 False parse_opcode L) G) row regs first rd = Val p \<and>
      frame_result_ok encoded_ok rank_x86_64 (first \<or> \<not> standard_row_x86_64 row) rd regs p"
    using dwarf_frame_x86_64_ok [OF a] by (simp add: arch_x86_64_def dwarf_x86_64_def)
next
  fix s a regs first rd
  assume "pe_image_ok L s"
  then show "\<exists>p. arch_pe (arch_x86_64 False parse_opcode L) s a regs first rd = Val p \<and>
      frame_result_ok encoded_ok rank_x86_64 (first \<or> \<not> cacheable_codes L s) rd regs p"
    using pe_frame_x86_64_ok by (simp add: arch_x86_64_def)
qed (auto simp: arch_x86_64_def macho_x86_64_def ops_x86_64_def dwarf_x86_64_def rule_for_stub_helper_x86_64_def
  rule_for_stub_functions_x86_64_def rule_for_function_start_x86_64_def rule_if_uncovered_by_fde_x86_64_def)

section \<open>aarch64\<close>

interpretation a64_release: safe_rule "ops_aarch64 False" a64_sp rank_aarch64 "\<lambda>_. True"
proof unfold_locales
  fix rule first regs rd
  show "no_panic (op_exec (ops_aarch64 False) rule first regs rd)"
    unfolding ops_aarch64_simps by (rule exec_aarch64_no_panic)
qed simp

lemma storage_offset_release: "storage_offset False off c e = Val (ok_or (signed_to_i16 (idiv (off + c) 8)) e)"
  by (simp add: storage_offset_def iadd_oc_def)

lemma translate_release_aarch64: "no_panic (translate_into_unwind_rule_aarch64 False cfa fp_rule lr_rule)"
  by (auto simp: translate_into_unwind_rule_aarch64_def translate_sp_aarch64_def translate_fp_aarch64_def storage_offset_release
      split: CfaRule.split DwarfRegAarch64.split option.split result.split prod.split if_split)

lemma dwarf_eval_frame_aarch64_ok:
  assumes G: "terminating G"
  shows "\<exists>p. dwarf_eval_frame_aarch64 G row regs first rd =
        Val (p :: UnwindRegsAarch64 \<times> (UnwindRuleAarch64 UnwindResult, 'g DwarfUnwinderError) result) \<and>
      frame_result_ok (\<lambda>_. True) rank_aarch64 first rd regs p"
proof -
  have "no_panic (dwarf_eval_frame_aarch64 G row regs first rd ::
      (UnwindRegsAarch64 \<times> (UnwindRuleAarch64 UnwindResult, 'g DwarfUnwinderError) result) outcome)"
  proof -
    let ?get = "dwarf_get_aarch64 regs"
    obtain c where c: "eval_cfa_rule G (row_cfa row) ?get = Val c" using eval_cfa_rule_no_panic [OF G] by blast
    have "\<exists>x. eval_register_rule G rule cfa v ?get rd = Val x" for rule cfa v
      using eval_register_rule_no_panic [OF G] by blast
    then obtain er where er: "\<And>rule cfa v. eval_register_rule G rule cfa v ?get rd = Val (er rule cfa v)" by metis
    show ?thesis by (cases c) (simp_all add: dwarf_eval_frame_aarch64_def c er Let_def)
  qed
  then obtain regs' res where e: "dwarf_eval_frame_aarch64 G row regs first rd =
      Val (regs', res :: (UnwindRuleAarch64 UnwindResult, 'g DwarfUnwinderError) result)" by auto
  have "frame_result_ok (\<lambda>_. True) rank_aarch64 first rd regs (regs', res)"
    using dwarf_eval_frame_aarch64_cases [OF e] by (auto simp: rank_aarch64_def word_less_nat_alt diff_less_mono2)
  with e show ?thesis by blast
qed

lemma dwarf_frame_aarch64_ok:
  assumes "terminating G"
  shows "\<exists>p. dwarf_unwind_frame_aarch64 False G row regs first rd =
        Val (p :: UnwindRegsAarch64 \<times> (UnwindRuleAarch64 UnwindResult, 'g DwarfUnwinderError) result) \<and>
      frame_result_ok (\<lambda>_. True) rank_aarch64 first rd regs p"
proof -
  obtain r where r: "translate_into_unwind_rule_aarch64 False (row_cfa row) (row_register row DW_X29) (row_register row DW_X30) = Val r"
    using translate_release_aarch64 by blast
  then show ?thesis
    using dwarf_eval_frame_aarch64_ok [OF assms] by (cases r) (simp_all add: dwarf_unwind_frame_aarch64_def)
qed

lemma cui_frame_aarch64_ok:
  fixes bytes :: "u8 list option"
  assumes "\<And>bs. bytes = Some bs \<Longrightarrow> off < length bs"
  shows "no_panic (compact_frame_aarch64 False parse_opcode f first off bytes :: ('m, 'g) cui_result_aarch64 outcome)"
  by (rule compact_frame_no_panic_aarch64) (use assms in simp)

interpretation a64_arch: safe_arch
    "arch_aarch64 False parse_opcode :: (DwarfRegAarch64, 'expr, 'ev, UnwindRegsAarch64, UnwindRuleAarch64, 'm, 'g) ArchUnwinding"
    "\<lambda>_. True" rank_aarch64 "\<lambda>_. True" "\<lambda>_. True" "\<lambda>_. True" for parse_opcode
proof unfold_locales
  fix bytes :: "u8 list option" and off f first
  assume a: "\<And>bs. bytes = Some bs \<Longrightarrow> off < length bs"
  show "\<exists>r. cui_unwind_frame (arch_cui (arch_aarch64 False parse_opcode)) f first off bytes = Val r \<and>
      (\<forall>rule. r = Ok (CuiExecRule rule) \<longrightarrow> True)"
    using cui_frame_aarch64_ok [OF a] by (simp add: arch_aarch64_def macho_aarch64_def)
next
  fix G :: "(DwarfRegAarch64, 'expr, 'ev) GimliEval" and row :: "(DwarfRegAarch64, 'expr) UnwindTableRow"
    and regs first rd
  assume a: "terminating G"
  show "\<exists>p. dw_unwind_frame (arch_dwarf (arch_aarch64 False parse_opcode) G) row regs first rd = Val p \<and>
      frame_result_ok (\<lambda>_. True) rank_aarch64 (first \<or> \<not> True) rd regs p"
    using dwarf_frame_aarch64_ok [OF a] by (simp add: arch_aarch64_def dwarf_aarch64_def)
qed (simp_all add: arch_aarch64_def pe_unwind_frame_aarch64_def)

section \<open>An example\<close>

text \<open>A gimli that knows no frame description, and a module with compact unwind info.\<close>

definition example_gimli :: "('reg, unit, unit, unit, unit, unit, unit) GimliFrame" where
  "example_gimli = \<lparr>gf_eval = (\<lambda>_ _. no_expressions),
     gf_table = (\<lambda>_ _ _. \<lparr>g_fde_from_offset = (\<lambda>_. Err ()), g_unwind_info_for_address = (\<lambda>_ _. Err ())\<rparr>),
     gf_parse_hdr = (\<lambda>_ _. None)\<rparr>"

lemma example_gimli_ok: "gimli_terminating example_gimli" "rows_ok row_ok example_gimli"
  by (simp_all add: gimli_terminating_def rows_ok_def terminating_def eval_expr_def example_gimli_def no_expressions_def)

definition example_cfi :: "(u64, u64 \<times> u64 \<times> u64, u64 \<times> u64, u64, unit) GimliCfi" where
  "example_cfi = \<lparr>g_section = (\<lambda>_ _ _. example_section), g_entries = (\<lambda>_ _ _. [])\<rparr>"

definition example_sections :: ExplicitModuleSectionInfo where
  "example_sections = \<lparr>ex_base_svma = 0x100000000, ex_text_svma = None, ex_text = None, ex_stubs_svma = Some (0x100001000, 0x100001100),
     ex_stub_helper_svma = None, ex_got_svma = None, ex_unwind_info = Some [], ex_eh_frame_svma = None, ex_eh_frame = None,
     ex_eh_frame_hdr_svma = None, ex_eh_frame_hdr = None, ex_debug_frame = None, ex_text_segment_svma = Some (0x100000000, 0x100004000),
     ex_text_segment = Some [0xc3]\<rparr>"

definition example_module :: "ModuleUnwindDataInternal Module" where
  "example_module = \<lparr>mod_name = ''example'', avma_range = (0x1000, 0x5000), base_avma = 0x1000, base_svma = 0x100000000,
     unwind_data = explicit_unwind_data example_cfi example_sections\<rparr>"

lemma made_by_example: "made_by example_cfi explicit_section_info example_module"
  unfolding made_by_def new_module_explicit_eq
  by (intro exI [of _ True] exI [of _ "''example''"] exI [of _ "(0x1000, 0x5000)"] exI [of _ "0x1000"] exI [of _ example_sections])
     (simp add: example_module_def example_sections_def)

definition example_unwinder :: "ModuleUnwindDataInternal UnwinderInternal" where
  "example_unwinder = \<lparr>modules = [example_module], modules_generation = 1\<rparr>"

lemma example_unwinder_ok: "modules_sorted example_unwinder"
  "\<forall>m \<in> set (modules example_unwinder). made_by example_cfi explicit_section_info m"
  "\<forall>m \<in> set (modules example_unwinder). pe_data P (unwind_data m)"
  using made_by_example
  by (simp_all add: example_unwinder_def modules_sorted_def example_module_def pe_data_def explicit_unwind_data_def example_sections_def)

end
