(* ===== verification/Cache.thy ===== *)
theory Cache
  imports Guarantees
begin

text \<open>
  \<^verbatim>\<open>src/cache.rs\<close> and the files \<^verbatim>\<open>cache.rs\<close> of the architectures: the cache that a user makes and hands to every call.  It
  holds the rule cache and the memory that gimli works in, whose size depends on the allocation policy.  That memory is of an
  abstract type, made by the parameter \<open>new_in\<close> for gimli's \<open>UnwindContext::new_in\<close>.  It is scratch
  memory, and what gimli computes with it is a parameter elsewhere, so that the operations on frames take the rule cache only.
\<close>

section \<open>Allocation policies\<close>

datatype AllocationPolicy = MustNotAllocateDuringUnwind | MayAllocateDuringUnwind

text \<open>The lengths of the arrays gimli stores into; \<open>None\<close> is a vector on the heap, without a limit.\<close>

record UnwindContextStorage =
  ucs_rules :: "nat option"
  ucs_stack :: "nat option"

record EvaluationStorage =
  es_stack :: "nat option"
  es_expression_stack :: "nat option"
  es_result :: "nat option"

definition store_on_stack_context :: UnwindContextStorage where
  "store_on_stack_context = \<lparr>ucs_rules = Some 192, ucs_stack = Some 4\<rparr>"

definition store_on_stack_evaluation :: EvaluationStorage where
  "store_on_stack_evaluation = \<lparr>es_stack = Some 64, es_expression_stack = Some 4, es_result = Some 1\<rparr>"

text \<open>\<open>AllocationPolicy::GimliUnwindContextStorage\<close> and \<open>AllocationPolicy::GimliEvaluationStorage\<close>.\<close>

fun gimli_unwind_context_storage :: "AllocationPolicy \<Rightarrow> UnwindContextStorage" where
  "gimli_unwind_context_storage MustNotAllocateDuringUnwind = store_on_stack_context"
| "gimli_unwind_context_storage MayAllocateDuringUnwind = \<lparr>ucs_rules = None, ucs_stack = None\<rparr>"

fun gimli_evaluation_storage :: "AllocationPolicy \<Rightarrow> EvaluationStorage" where
  "gimli_evaluation_storage MustNotAllocateDuringUnwind = store_on_stack_evaluation"
| "gimli_evaluation_storage MayAllocateDuringUnwind = \<lparr>es_stack = None, es_expression_stack = None, es_result = None\<rparr>"

section \<open>Caches\<close>

record ('ctx, 'r) Cache =
  gimli_unwind_context :: 'ctx
  rule_cache :: "'r RuleCache"

definition new_cache :: "(UnwindContextStorage \<Rightarrow> 'ctx) \<Rightarrow> AllocationPolicy \<Rightarrow> ('ctx, 'r) Cache" where
  "new_cache new_in p = \<lparr>gimli_unwind_context = new_in (gimli_unwind_context_storage p), rule_cache = new_rule_cache\<rparr>"

definition new_in_x86_64 :: "(UnwindContextStorage \<Rightarrow> 'ctx) \<Rightarrow> AllocationPolicy \<Rightarrow> ('ctx, UnwindRuleX86_64) Cache" where
  "new_in_x86_64 new_in p = new_cache new_in p"

definition new_cache_x86_64 :: "(UnwindContextStorage \<Rightarrow> 'ctx) \<Rightarrow> ('ctx, UnwindRuleX86_64) Cache" where
  "new_cache_x86_64 new_in = new_cache new_in MayAllocateDuringUnwind"

definition stats_x86_64 :: "('ctx, UnwindRuleX86_64) Cache \<Rightarrow> CacheStats" where
  "stats_x86_64 c = stats (rule_cache c)"

definition new_in_aarch64 :: "(UnwindContextStorage \<Rightarrow> 'ctx) \<Rightarrow> AllocationPolicy \<Rightarrow> ('ctx, UnwindRuleAarch64) Cache" where
  "new_in_aarch64 new_in p = new_cache new_in p"

definition new_cache_aarch64 :: "(UnwindContextStorage \<Rightarrow> 'ctx) \<Rightarrow> ('ctx, UnwindRuleAarch64) Cache" where
  "new_cache_aarch64 new_in = new_cache new_in MayAllocateDuringUnwind"

definition stats_aarch64 :: "('ctx, UnwindRuleAarch64) Cache \<Rightarrow> CacheStats" where
  "stats_aarch64 c = stats (rule_cache c)"

text \<open>Whichever constructor and policy is used, the rule cache is one that the guarantees on iterations are for, and nothing
  has been counted.\<close>

lemma new_caches_ok:
  "cache_ok ok (rule_cache (new_in_x86_64 new_in p))" "cache_ok ok (rule_cache (new_cache_x86_64 new_in))"
  "cache_ok ok' (rule_cache (new_in_aarch64 new_in p))" "cache_ok ok' (rule_cache (new_cache_aarch64 new_in))"
  by (simp_all add: new_in_x86_64_def new_cache_x86_64_def new_in_aarch64_def new_cache_aarch64_def new_cache_def)

lemma new_caches_counted_nothing:
  "total oc (stats_x86_64 (new_in_x86_64 new_in p)) = Val 0" "total oc (stats_aarch64 (new_in_aarch64 new_in p)) = Val 0"
  by (simp_all add: stats_x86_64_def stats_aarch64_def new_in_x86_64_def new_in_aarch64_def new_cache_def new_rule_cache_def
      total_def hits_def misses_def new_stats_def add_oc_def)

end
