(* ===== verification/Display.thy ===== *)
theory Display
  imports Dwarf X86Regs A64Regs
begin

text \<open>
  What errors and registers look like as text: the \<open>Display\<close> implementations of \<^verbatim>\<open>src/error.rs\<close>, \<^verbatim>\<open>src/dwarf.rs\<close>, \<^verbatim>\<open>src/macho.rs\<close>
  and \<^verbatim>\<open>src/pe.rs\<close>, the \<open>Debug\<close> implementations of the registers with \<^verbatim>\<open>src/display_utils.rs\<close>, and \<open>std::error::Error::source\<close>.
  Writing to a formatter is modelled by the text written, with the flags of a plain \<open>{}\<close>, \<open>{:x}\<close> or \<open>{:?}\<close>.  The messages of the
  external crates' errors are functions the definitions take as arguments.
\<close>

section \<open>Numbers\<close>

text \<open>The standard library's integer formatting: digits without leading zeros, and \<open>0\<close> for zero.\<close>

definition digit :: "nat \<Rightarrow> char" where
  "digit d = (if d < 10 then char_of (48 + d) else char_of (87 + d))"

fun radix_digits :: "nat \<Rightarrow> nat \<Rightarrow> string" where
  "radix_digits b n = (if n < b \<or> b < 2 then [digit n] else radix_digits b (n div b) @ [digit (n mod b)])"

definition fmt_decimal :: "'a::len word \<Rightarrow> string" where
  "fmt_decimal w = radix_digits 10 (unat w)"

definition hex_num :: "'a::len word \<Rightarrow> string" where
  "hex_num w = radix_digits 16 (unat w)"

definition bin_num :: "'a::len word \<Rightarrow> string" where
  "bin_num w = radix_digits 2 (unat w)"

declare radix_digits.simps [simp del]

section \<open>Errors\<close>

fun display_error :: "Error \<Rightarrow> string" where
  "display_error (CouldNotReadStack addr) = ''Could not read stack memory at 0x'' @ hex_num addr"
| "display_error FramepointerUnwindingMovedBackwards = ''Frame pointer unwinding moved backwards''"
| "display_error DidNotAdvance = ''Neither the code address nor the stack pointer changed, would loop''"
| "display_error IntegerOverflow = ''Unwinding caused integer overflow''"
| "display_error ReturnAddressIsNull = ''Return address is null''"

fun display_dwarf_error :: "('g \<Rightarrow> string) \<Rightarrow> 'g DwarfUnwinderError \<Rightarrow> string" where
  "display_dwarf_error dg (FdeFromOffsetFailed err) = ''Could not get the FDE for the supplied offset: '' @ dg err"
| "display_dwarf_error dg (UnwindInfoForAddressFailed err) =
     ''Could not find DWARF unwind info for the requested address: '' @ dg err"
| "display_dwarf_error dg StackPointerMovedBackwards = ''Stack pointer moved backwards''"
| "display_dwarf_error dg DidNotAdvanceDwarf = ''Did not advance''"
| "display_dwarf_error dg CouldNotRecoverCfa = ''Could not recover the CFA''"
| "display_dwarf_error dg CouldNotRecoverReturnAddress = ''Could not recover the return address''"
| "display_dwarf_error dg CouldNotRecoverFramePointer = ''Could not recover the frame pointer''"

fun display_cfi_index_error :: "('g \<Rightarrow> string) \<Rightarrow> 'g DwarfCfiIndexError \<Rightarrow> string" where
  "display_cfi_index_error dg (GimliError e) = ''EhFrame processing failed: '' @ dg e"
| "display_cfi_index_error dg CouldNotSubtractBaseAddress = ''Could not subtract base address to create relative pc''"
| "display_cfi_index_error dg RelativeAddressTooBig = ''Relative address did not fit into u32''"
| "display_cfi_index_error dg FdeOffsetTooBig = ''FDE offset did not fit into u32''"

fun display_cui_error :: "('m \<Rightarrow> string) \<Rightarrow> ('g \<Rightarrow> string) \<Rightarrow> ('m, 'g) CompactUnwindInfoUnwinderError \<Rightarrow> string" where
  "display_cui_error dm dg (BadFormat err) = ''Bad __unwind_info format: '' @ dm err"
| "display_cui_error dm dg (AddressOutsideRange addr) =
     ''Address 0x'' @ hex_num addr @ '' outside of the range covered by __unwind_info''"
| "display_cui_error dm dg CallerCannotBeFrameless = ''Encountered a non-leaf function which was marked as frameless.''"
| "display_cui_error dm dg FunctionHasNoInfo = ''No unwind info (null opcode) for this function in __unwind_info''"
| "display_cui_error dm dg BpOffsetDoesNotFit = ''rbp offset from the stack pointer divided by 8 does not fit into i16''"
| "display_cui_error dm dg (BadOpcodeKind kind) = ''Unrecognized __unwind_info opcode kind '' @ fmt_decimal kind"
| "display_cui_error dm dg (BadDwarfUnwinding err) = ''DWARF unwinding failed: '' @ display_dwarf_error dg err"
| "display_cui_error dm dg NoTextBytesToLookUpIndirectStackOffset =
     ''Don'' @ [CHR 0x27] @ ''t have the function bytes to look up the offset for frameless function with indirect stack offset''"
| "display_cui_error dm dg IndirectStackOffsetOutOfBounds = ''Stack offset not found inside the bounds of the text bytes''"
| "display_cui_error dm dg StackAdjustOverflow = ''Stack adjust addition overflowed''"
| "display_cui_error dm dg StackSizeDoesNotFit = ''Stack size does not fit into the rule representation''"
| "display_cui_error dm dg StubFunctionCannotBeCaller = ''A caller had its address in the __stubs section''"
| "display_cui_error dm dg InvalidFrameless = ''Encountered invalid unwind entry''"

fun display_pe_error :: "PeUnwinderError \<Rightarrow> string" where
  "display_pe_error (MissingUnwindInfoData rva) = ''failed to read unwind info memory at RVA '' @ hex_num rva"
| "display_pe_error (MissingInstructionData rva) = ''failed to read instruction memory at RVA '' @ hex_num rva"
| "display_pe_error (MissingStackData addr) =
     ''failed to read stack'' @ (case addr of Some a \<Rightarrow> '' at address '' @ hex_num a | None \<Rightarrow> [])"
| "display_pe_error UnwindInfoParseError = ''failed to parse UnwindInfo''"
| "display_pe_error Aarch64Unsupported = ''AArch64 is not yet supported''"

fun display_unwinder_error :: "('m \<Rightarrow> string) \<Rightarrow> ('g \<Rightarrow> string) \<Rightarrow> ('m, 'g) UnwinderError \<Rightarrow> string" where
  "display_unwinder_error dm dg (CompactUnwindInfo err) = ''Compact Unwind Info unwinding failed: '' @ display_cui_error dm dg err"
| "display_unwinder_error dm dg (Dwarf err) = ''DWARF unwinding failed: '' @ display_dwarf_error dg err"
| "display_unwinder_error dm dg (Pe err) = ''PE unwinding failed: '' @ display_pe_error err"
| "display_unwinder_error dm dg NoDwarfData = ''__unwind_info referred to DWARF FDE but we do not have __eh_frame data''"
| "display_unwinder_error dm dg NoModuleUnwindData = ''No unwind data for the module containing the address''"
| "display_unwinder_error dm dg EhFrameHdrCouldNotFindAddress =
     ''.eh_frame_hdr was not successful in looking up the address in the table''"
| "display_unwinder_error dm dg DwarfCfiIndexCouldNotFindAddress =
     ''Failed to look up the address in the DwarfCfiIndex search table''"

text \<open>\<open>source\<close> returns a reference to some other error; the datatype has the ones that occur.\<close>

datatype ('m, 'g) source_error =
    SourceGimli 'g
  | SourceMacho 'm
  | SourceDwarf "'g DwarfUnwinderError"
  | SourceCui "('m, 'g) CompactUnwindInfoUnwinderError"
  | SourcePe PeUnwinderError

definition source_dwarf :: "'g DwarfUnwinderError \<Rightarrow> ('m, 'g) source_error option" where
  "source_dwarf e =
     (case e of FdeFromOffsetFailed g \<Rightarrow> Some (SourceGimli g) | UnwindInfoForAddressFailed g \<Rightarrow> Some (SourceGimli g) | _ \<Rightarrow> None)"

definition source_cfi_index :: "'g DwarfCfiIndexError \<Rightarrow> ('m, 'g) source_error option" where
  "source_cfi_index e = (case e of GimliError g \<Rightarrow> Some (SourceGimli g) | _ \<Rightarrow> None)"

definition source_cui :: "('m, 'g) CompactUnwindInfoUnwinderError \<Rightarrow> ('m, 'g) source_error option" where
  "source_cui e = (case e of BadFormat m \<Rightarrow> Some (SourceMacho m) | BadDwarfUnwinding d \<Rightarrow> Some (SourceDwarf d) | _ \<Rightarrow> None)"

definition source_unwinder :: "('m, 'g) UnwinderError \<Rightarrow> ('m, 'g) source_error option" where
  "source_unwinder e =
     (case e of CompactUnwindInfo c \<Rightarrow> Some (SourceCui c) | Dwarf d \<Rightarrow> Some (SourceDwarf d) | Pe p \<Rightarrow> Some (SourcePe p) | _ \<Rightarrow> None)"

section \<open>Registers\<close>

text \<open>The text of \<open>f.debug_struct(name).field(..)...finish()\<close>.\<close>

definition debug_field :: "string \<times> string \<Rightarrow> string" where
  "debug_field = (\<lambda>(name, value). name @ '': '' @ value)"

fun debug_fields :: "(string \<times> string) list \<Rightarrow> string" where
  "debug_fields [] = []"
| "debug_fields [f] = debug_field f"
| "debug_fields (f # fs) = debug_field f @ '', '' @ debug_fields fs"

definition debug_struct :: "string \<Rightarrow> (string \<times> string) list \<Rightarrow> string" where
  "debug_struct name fs = name @ '' { '' @ debug_fields fs @ '' }''"

definition debug_regs_x86_64 :: "UnwindRegsX86_64 \<Rightarrow> string" where
  "debug_regs_x86_64 r = debug_struct ''UnwindRegsX86_64''
     [(''ip'', hex_num (ip r)), (''rax'', hex_num (get r RAX)), (''rdx'', hex_num (get r RDX)), (''rcx'', hex_num (get r RCX)),
      (''rbx'', hex_num (get r RBX)), (''rsi'', hex_num (get r RSI)), (''rdi'', hex_num (get r RDI)), (''rbp'', hex_num (get r RBP)),
      (''rsp'', hex_num (get r RSP)), (''r8'', hex_num (get r R8)), (''r9'', hex_num (get r R9)), (''r10'', hex_num (get r R10)),
      (''r11'', hex_num (get r R11)), (''r12'', hex_num (get r R12)), (''r13'', hex_num (get r R13)), (''r14'', hex_num (get r R14)),
      (''r15'', hex_num (get r R15))]"

definition debug_regs_aarch64 :: "UnwindRegsAarch64 \<Rightarrow> string" where
  "debug_regs_aarch64 r = debug_struct ''UnwindRegsAarch64''
     [(''lr'', hex_num (a64_lr r)), (''sp'', hex_num (a64_sp r)), (''fp'', hex_num (a64_fp r))]"

section \<open>Reading numbers back\<close>

definition digit_value :: "char \<Rightarrow> nat" where
  "digit_value c = (if of_char c < (58 :: nat) then of_char c - 48 else of_char c - 87)"

definition radix_value :: "nat \<Rightarrow> string \<Rightarrow> nat" where
  "radix_value b s = foldl (\<lambda>n c. n * b + digit_value c) 0 s"

lemma of_char_digit: "d < 16 \<Longrightarrow> of_char (digit d) = (if d < 10 then 48 + d else 87 + d)"
  by (simp add: digit_def)

lemma digit_value_digit: "d < 16 \<Longrightarrow> digit_value (digit d) = d"
  by (simp add: digit_value_def of_char_digit)

lemma radix_value_digits:
  assumes "2 \<le> b" "b \<le> 16"
  shows "radix_value b (radix_digits b n) = n"
  using assms
proof (induction b n rule: radix_digits.induct)
  case (1 b n)
  show ?case
  proof (cases "n < b")
    case True
    then show ?thesis using 1 by (subst radix_digits.simps) (simp add: radix_value_def digit_value_digit)
  next
    case False
    then have "radix_value b (radix_digits b (n div b)) = n div b" using 1 by simp
    moreover have "n mod b < 16" using 1(2,3) mod_less_divisor [of b n] by linarith
    ultimately show ?thesis using False 1(2) by (subst radix_digits.simps) (simp add: radix_value_def digit_value_digit)
  qed
qed

lemma radix_digits_eq: "2 \<le> b \<Longrightarrow> b \<le> 16 \<Longrightarrow> radix_digits b m = radix_digits b n \<longleftrightarrow> m = n"
  by (metis radix_value_digits)

lemma fmt_eq [simp]:
  "hex_num v = hex_num w \<longleftrightarrow> v = w" "fmt_decimal v = fmt_decimal w \<longleftrightarrow> v = w" "bin_num v = bin_num w \<longleftrightarrow> v = w"
  by (simp_all add: hex_num_def fmt_decimal_def bin_num_def radix_digits_eq word_unat_eq_iff)

section \<open>Reading messages back\<close>

lemma display_error_eq: "display_error e = display_error e' \<longleftrightarrow> e = e'"
  by (cases e; cases e') simp_all

lemma display_dwarf_error_eq:
  "display_dwarf_error dg e = display_dwarf_error dg e' \<longleftrightarrow> map_DwarfUnwinderError dg e = map_DwarfUnwinderError dg e'"
  by (cases e; cases e') simp_all

lemma display_cui_error_eq:
  "display_cui_error dm dg e = display_cui_error dm dg e' \<longleftrightarrow>
   map_CompactUnwindInfoUnwinderError dm dg e = map_CompactUnwindInfoUnwinderError dm dg e'"
  by (cases e; cases e') (simp_all add: display_dwarf_error_eq)

lemma display_pe_error_eq: "display_pe_error e = display_pe_error e' \<longleftrightarrow> e = e'"
  by (cases e; cases e') (simp_all split: option.splits)

lemma display_unwinder_error_eq:
  "display_unwinder_error dm dg e = display_unwinder_error dm dg e' \<longleftrightarrow> map_UnwinderError dm dg e = map_UnwinderError dm dg e'"
  by (cases e; cases e') (simp_all add: display_dwarf_error_eq display_cui_error_eq display_pe_error_eq)


text \<open>The message of an error repeats the message of its source at its end.\<close>

fun display_source :: "('m \<Rightarrow> string) \<Rightarrow> ('g \<Rightarrow> string) \<Rightarrow> ('m, 'g) source_error \<Rightarrow> string" where
  "display_source dm dg (SourceGimli g) = dg g"
| "display_source dm dg (SourceMacho m) = dm m"
| "display_source dm dg (SourceDwarf d) = display_dwarf_error dg d"
| "display_source dm dg (SourceCui c) = display_cui_error dm dg c"
| "display_source dm dg (SourcePe p) = display_pe_error p"

lemma message_ends_with_source:
  "source_unwinder ue = Some s \<Longrightarrow> \<exists>prefix. display_unwinder_error dm dg ue = prefix @ display_source dm dg s"
  "source_cui ce = Some s \<Longrightarrow> \<exists>prefix. display_cui_error dm dg ce = prefix @ display_source dm dg s"
  "source_dwarf de = Some s \<Longrightarrow> \<exists>prefix. display_dwarf_error dg de = prefix @ display_source dm dg s"
  "source_cfi_index ie = Some s \<Longrightarrow> \<exists>prefix. display_cfi_index_error dg ie = prefix @ display_source dm dg s"
  subgoal by (cases ue) (auto simp: source_unwinder_def)
  subgoal by (cases ce) (auto simp: source_cui_def)
  subgoal by (cases de) (auto simp: source_dwarf_def)
  subgoal by (cases ie) (auto simp: source_cfi_index_def)
  done

text \<open>Field values without a comma can be read back.\<close>

lemma append_separator_eq:
  "c \<notin> set xs \<Longrightarrow> c \<notin> set ys \<Longrightarrow> xs @ c # us = ys @ c # vs \<longleftrightarrow> xs = ys \<and> us = vs"
  by (induction xs ys rule: list_induct2') auto

lemma debug_fields_eq:
  assumes "map fst fs = map fst gs" "\<forall>f \<in> set fs \<union> set gs. CHR '','' \<notin> set (snd f)"
  shows "debug_fields fs = debug_fields gs \<longleftrightarrow> fs = gs"
  using assms
proof (induction fs arbitrary: gs rule: debug_fields.induct)
  case (2 f)
  then obtain g where "gs = [g]" "fst f = fst g" by (auto simp: map_eq_Cons_conv)
  then show ?case by (auto simp: debug_field_def prod_eq_iff split: prod.splits)
next
  case (3 f f' fs)
  then obtain g g' gs' where gs: "gs = g # g' # gs'" "fst f = fst g" "map fst (f' # fs) = map fst (g' # gs')"
    by (auto simp: map_eq_Cons_conv)
  have "debug_fields (f' # fs) = debug_fields (g' # gs') \<longleftrightarrow> f' # fs = g' # gs'"
    using "3.prems" gs by (intro "3.IH") auto
  moreover have "CHR '','' \<notin> set (snd f)" "CHR '','' \<notin> set (snd g)" using "3.prems" gs by auto
  ultimately show ?case
    using gs(2) by (auto simp: gs(1) debug_field_def append_separator_eq prod_eq_iff split: prod.splits)
qed simp

lemma digit_no_comma: "d < 16 \<Longrightarrow> digit d \<noteq> CHR '',''"
proof
  assume "d < 16" "digit d = CHR '',''"
  then have "of_char (digit d) = (44 :: nat)" by simp
  with of_char_digit [OF \<open>d < 16\<close>] show False by (simp split: if_splits)
qed

lemma radix_digits_no_comma: "2 \<le> b \<Longrightarrow> b \<le> 16 \<Longrightarrow> CHR '','' \<notin> set (radix_digits b n)"
proof (induction b n rule: radix_digits.induct)
  case (1 b n)
  have "n mod b < 16" using "1.prems" mod_less_divisor [of b n] by linarith
  then show ?case using 1 digit_no_comma [THEN not_sym] by (subst radix_digits.simps) auto
qed

lemma hex_num_no_comma [simp]: "CHR '','' \<notin> set (hex_num w)"
  by (simp add: hex_num_def radix_digits_no_comma)

lemma debug_struct_eq:
  "map fst fs = map fst gs \<Longrightarrow> \<forall>f \<in> set fs \<union> set gs. CHR '','' \<notin> set (snd f) \<Longrightarrow>
   debug_struct name fs = debug_struct name gs \<longleftrightarrow> fs = gs"
  by (simp add: debug_struct_def debug_fields_eq)

lemma all_Reg:
  "(\<forall>r. P r) \<longleftrightarrow> P RAX \<and> P RDX \<and> P RCX \<and> P RBX \<and> P RSI \<and> P RDI \<and> P RBP \<and> P RSP \<and>
     P R8 \<and> P R9 \<and> P R10 \<and> P R11 \<and> P R12 \<and> P R13 \<and> P R14 \<and> P R15"
  (is "?all \<longleftrightarrow> ?each")
proof
  assume ?each
  then show ?all by (intro allI) (rule Reg.induct; simp)
qed simp

lemma debug_regs_x86_64_eq: "debug_regs_x86_64 r = debug_regs_x86_64 r' \<longleftrightarrow> r = r'"
proof -
  have "debug_regs_x86_64 r = debug_regs_x86_64 r' \<longleftrightarrow> ip r = ip r' \<and> (\<forall>reg. get r reg = get r' reg)"
    unfolding debug_regs_x86_64_def by (subst debug_struct_eq) (simp_all add: all_Reg)
  then show ?thesis by (auto simp: ip_def get_def intro!: UnwindRegsX86_64.equality ext)
qed

lemma debug_regs_aarch64_eq:
  "debug_regs_aarch64 r = debug_regs_aarch64 r' \<longleftrightarrow> a64_lr r = a64_lr r' \<and> a64_sp r = a64_sp r' \<and> a64_fp r = a64_fp r'"
  unfolding debug_regs_aarch64_def by (subst debug_struct_eq) auto

lemma debug_example:
  "debug_regs_aarch64 (new_regs_aarch64 0x1003fc000 0x10 0) = ''UnwindRegsAarch64 { lr: 1003fc000, sp: 10, fp: 0 }''"
  by (simp add: debug_regs_aarch64_def new_regs_aarch64_def debug_struct_def debug_field_def hex_num_def radix_digits.simps digit_def char_of_def bit_Suc_0_iff)

end
