(* ===== verification/System.thy ===== *)
theory System
  imports UnwinderCore
begin

text \<open>
  Unwinders and caches in one process, as a step relation: unwinders are created, cloned, dropped and changed, all
  drawing generations from the one global counter of \<^verbatim>\<open>src/unwinder.rs\<close>, while frames are unwound with any unwinder and
  any cache.  Removing a module that is not there changes nothing and is not a step.  This is the situation the
  documentation of \<open>Cache\<close> describes (\<open>a single unwinder cache can be used with multiple unwinders alternatingly\<close>).  Which
  frames are unwound is a parameter, \<open>legal\<close>: all of them, or only those at aligned addresses.

  The ghost field \<open>w_history\<close> records every generation drawn with the module list it was drawn for.  The counter is a
  \<open>u16\<close>; as long as at most \<open>2 ^ 16\<close> generations were drawn, a generation identifies a module list, which is what makes
  sharing a cache sound.
\<close>

record ('u, 'r) world =
  w_global :: u16
  w_unwinders :: "'u UnwinderInternal list"
  w_caches :: "'r RuleCache list"
  w_history :: "(u16 \<times> 'u Module list) list"

definition initial_world :: "('u, 'r) world" where
  "initial_world = \<lparr>w_global = 0, w_unwinders = [], w_caches = [], w_history = []\<rparr>"

definition stamp :: "'u UnwinderInternal \<Rightarrow> u16 \<times> 'u Module list" where
  "stamp u = (modules_generation u, modules u)"

inductive world_step ::
  "(FrameAddress \<Rightarrow> bool) \<Rightarrow> bool \<Rightarrow> ('r, 'regs) UnwindRuleOps \<Rightarrow> ('u, 'regs, 'r, 'e) frame_callback \<Rightarrow> ('u, 'r) world \<Rightarrow> ('u, 'r) world \<Rightarrow> bool"
  for legal oc ops callback where
  create: "new_unwinder (w_global w) = (global', u) \<Longrightarrow>
     world_step legal oc ops callback w
       (w\<lparr>w_global := global', w_unwinders := w_unwinders w @ [u], w_history := w_history w @ [stamp u]\<rparr>)"
| clone: "u \<in> set (w_unwinders w) \<Longrightarrow>
     world_step legal oc ops callback w (w\<lparr>w_unwinders := w_unwinders w @ [u]\<rparr>)"
| drop_unwinder: "world_step legal oc ops callback w (w\<lparr>w_unwinders := take i (w_unwinders w) @ drop (Suc i) (w_unwinders w)\<rparr>)"
| new_cache: "world_step legal oc ops callback w (w\<lparr>w_caches := w_caches w @ [new_rule_cache]\<rparr>)"
| add: "i < length (w_unwinders w) \<Longrightarrow> add_module m (w_global w) (w_unwinders w ! i) = Val (global', u') \<Longrightarrow>
     world_step legal oc ops callback w
       (w\<lparr>w_global := global', w_unwinders := (w_unwinders w)[i := u'], w_history := w_history w @ [stamp u']\<rparr>)"
| remove: "i < length (w_unwinders w) \<Longrightarrow> remove_module start (w_global w) (w_unwinders w ! i) = Val (global', u') \<Longrightarrow>
     global' \<noteq> w_global w \<Longrightarrow>
     world_step legal oc ops callback w
       (w\<lparr>w_global := global', w_unwinders := (w_unwinders w)[i := u'], w_history := w_history w @ [stamp u']\<rparr>)"
| unwind: "i < length (w_unwinders w) \<Longrightarrow> j < length (w_caches w) \<Longrightarrow> legal fa \<Longrightarrow> wf_frame_address fa \<Longrightarrow>
     with_cache oc ops callback (w_unwinders w ! i) fa regs (w_caches w ! j) rd = Val (regs', c', res) \<Longrightarrow>
     world_step legal oc ops callback w (w\<lparr>w_caches := (w_caches w)[j := c']\<rparr>)"

inductive reachable ::
  "(FrameAddress \<Rightarrow> bool) \<Rightarrow> bool \<Rightarrow> ('r, 'regs) UnwindRuleOps \<Rightarrow> ('u, 'regs, 'r, 'e) frame_callback \<Rightarrow> ('u, 'r) world \<Rightarrow> bool"
  for legal oc ops callback where
  init: "reachable legal oc ops callback initial_world"
| step: "reachable legal oc ops callback w \<Longrightarrow> world_step legal oc ops callback w w' \<Longrightarrow> reachable legal oc ops callback w'"

section \<open>The invariant\<close>

definition history_numbered :: "('u, 'r) world \<Rightarrow> bool" where
  "history_numbered w \<longleftrightarrow> w_global w = of_nat (length (w_history w)) \<and>
     (\<forall>k < length (w_history w). fst (w_history w ! k) = of_nat k)"

definition unwinders_stamped :: "('u, 'r) world \<Rightarrow> bool" where
  "unwinders_stamped w \<longleftrightarrow> (\<forall>u \<in> set (w_unwinders w). modules_sorted u \<and> stamp u \<in> set (w_history w))"

definition cache_explained ::
  "(FrameAddress \<Rightarrow> bool) \<Rightarrow> ('r, 'regs) UnwindRuleOps \<Rightarrow> ('u, 'regs, 'r, 'e) frame_callback \<Rightarrow> (u16 \<times> 'u Module list) set \<Rightarrow> 'r RuleCache \<Rightarrow> bool" where
  "cache_explained legal ops callback H c \<longleftrightarrow> wf_cache c \<and>
     (\<forall>a g r. cached c a g = Some r \<longrightarrow> (\<exists>ms. (g, ms) \<in> H \<and> rule_of_modules legal ops callback ms a r))"

definition world_inv ::
  "(FrameAddress \<Rightarrow> bool) \<Rightarrow> ('r, 'regs) UnwindRuleOps \<Rightarrow> ('u, 'regs, 'r, 'e) frame_callback \<Rightarrow> ('u, 'r) world \<Rightarrow> bool" where
  "world_inv legal ops callback w \<longleftrightarrow> history_numbered w \<and> unwinders_stamped w \<and>
     (\<forall>c \<in> set (w_caches w). cache_explained legal ops callback (set (w_history w)) c)"

lemma cache_explained_mono: "cache_explained legal ops callback H c \<Longrightarrow> H \<subseteq> H' \<Longrightarrow> cache_explained legal ops callback H' c"
  unfolding cache_explained_def by blast

lemma history_numbered_snoc:
  assumes "history_numbered w" "modules_generation u = w_global w" "global' = w_global w + 1"
    "w_global w' = global'" "w_history w' = w_history w @ [stamp u]"
  shows "history_numbered w'"
  using assms by (auto simp: history_numbered_def stamp_def nth_append less_Suc_eq)

text \<open>A step that draws a generation for one unwinder keeps the invariant.\<close>

lemma world_inv_draw:
  assumes inv: "world_inv legal ops callback w" and u: "modules_generation u = w_global w" "modules_sorted u"
    and w': "w_global w' = w_global w + 1" "w_history w' = w_history w @ [stamp u]" "w_caches w' = w_caches w"
      "set (w_unwinders w') \<subseteq> insert u (set (w_unwinders w))"
  shows "world_inv legal ops callback w'"
proof -
  have "history_numbered w'"
    using inv history_numbered_snoc [OF _ u(1) refl w'(1,2)] by (simp add: world_inv_def)
  moreover have "unwinders_stamped w'" using inv u w' by (auto simp: world_inv_def unwinders_stamped_def)
  moreover have "\<forall>c \<in> set (w_caches w'). cache_explained legal ops callback (set (w_history w')) c"
    using inv w' cache_explained_mono [of legal ops callback "set (w_history w)" _ "set (w_history w')"]
    by (auto simp: world_inv_def)
  ultimately show ?thesis by (simp add: world_inv_def)
qed

lemma cache_explained_with_cache:
  assumes c: "cache_explained legal ops callback H c" and u: "stamp u \<in> H" and l: "legal fa" and fa: "wf_frame_address fa"
    and r: "with_cache oc ops callback u fa regs c rd = Val (regs', c', res)"
  shows "cache_explained legal ops callback H c'"
proof -
  have "wf_cache c" using c by (simp add: cache_explained_def)
  from this fa r show ?thesis
  proof (cases rule: with_cache_Val)
    case (miss rule regs1)
    have "rule_of_modules legal ops callback (modules u) (lookup_address fa) rule" using rule_of_modulesI [of legal, OF l fa miss(2)] .
    moreover have "(modules_generation u, modules u) \<in> H" using u by (simp add: stamp_def)
    ultimately show ?thesis
      using c miss(4-6) unfolding cache_explained_def by (metis option.inject prod.inject)
  qed (use c in \<open>simp_all add: cache_explained_def\<close>)
qed

lemma add_module_stamp:
  assumes "modules_sorted u" "add_module m global u = Val (global', u')"
  shows "modules_sorted u' \<and> modules_generation u' = global \<and> global' = global + 1"
  using add_module_sorted [OF assms(1), of m global] assms(2) by auto

lemma remove_module_stamp:
  assumes "modules_sorted u" "remove_module start global u = Val (global', u')" "global' \<noteq> global"
  shows "modules_sorted u' \<and> modules_generation u' = global \<and> global' = global + 1"
  using remove_module_sorted [OF assms(1), of start global] assms(2,3) by (auto split: if_splits)

lemma world_inv_step:
  assumes inv: "world_inv legal ops callback w" and st: "world_step legal oc ops callback w w'"
  shows "world_inv legal ops callback w'"
  using st
proof cases
  case (create global' u)
  then have "modules_generation u = w_global w" "modules_sorted u" "global' = w_global w + 1"
    by (auto simp: new_unwinder_def next_global_modules_generation_def modules_sorted_def)
  with create show ?thesis by (intro world_inv_draw [OF inv]) auto
next
  case (add i m global' u')
  then have "modules_sorted (w_unwinders w ! i)" using inv by (simp add: world_inv_def unwinders_stamped_def)
  note s = add_module_stamp [OF this add(3)]
  show ?thesis using s add set_update_subset_insert [of "w_unwinders w" i u'] by (intro world_inv_draw [OF inv, of u']) auto
next
  case (remove i start global' u')
  then have "modules_sorted (w_unwinders w ! i)" using inv by (simp add: world_inv_def unwinders_stamped_def)
  note s = remove_module_stamp [OF this remove(3,4)]
  show ?thesis using s remove set_update_subset_insert [of "w_unwinders w" i u'] by (intro world_inv_draw [OF inv, of u']) auto
next
  case (unwind i j fa regs rd regs' c' res)
  have c: "cache_explained legal ops callback (set (w_history w)) (w_caches w ! j)" "stamp (w_unwinders w ! i) \<in> set (w_history w)"
    using inv unwind(2,3) by (auto simp: world_inv_def unwinders_stamped_def)
  have "cache_explained legal ops callback (set (w_history w)) c'"
    by (rule cache_explained_with_cache [OF c unwind(4-6)])
  then show ?thesis using inv unwind(1) set_update_subset_insert [of "w_caches w" j c']
    by (auto simp: world_inv_def history_numbered_def unwinders_stamped_def)
next
  case (drop_unwinder i)
  then show ?thesis using inv by (auto simp: world_inv_def history_numbered_def unwinders_stamped_def dest: in_set_takeD in_set_dropD)
next
  case new_cache
  then show ?thesis using inv by (auto simp: world_inv_def history_numbered_def unwinders_stamped_def cache_explained_def)
qed (use inv in \<open>auto simp: world_inv_def history_numbered_def unwinders_stamped_def\<close>)

lemma world_inv_reachable: "reachable legal oc ops callback w \<Longrightarrow> world_inv legal ops callback w"
proof (induction rule: reachable.induct)
  case init
  show ?case by (simp add: world_inv_def history_numbered_def unwinders_stamped_def initial_world_def)
qed (rule world_inv_step)

lemma history_functional:
  assumes "history_numbered w" "length (w_history w) \<le> 65536"
    "(g, ms) \<in> set (w_history w)" "(g, ms') \<in> set (w_history w)"
  shows "ms = ms'"
proof -
  obtain k where k: "k < length (w_history w)" "w_history w ! k = (g, ms)" using assms(3) by (auto simp: in_set_conv_nth)
  obtain l where l: "l < length (w_history w)" "w_history w ! l = (g, ms')" using assms(4) by (auto simp: in_set_conv_nth)
  have "(of_nat k :: u16) = of_nat l" using assms(1) k l unfolding history_numbered_def by (metis fst_conv)
  moreover have "k < 2 ^ 16" "l < 2 ^ 16" using k l assms(2) by simp_all
  then have "unat (of_nat k :: u16) = k" "unat (of_nat l :: u16) = l"
    by (simp_all add: unsigned_of_nat take_bit_nat_eq_self)
  ultimately have "k = l" by metis
  with k l show ?thesis by simp
qed

lemma shared_caches_agree:
  assumes w: "reachable legal oc ops callback w" "length (w_history w) \<le> 65536"
    and u: "u \<in> set (w_unwinders w)" and c: "c \<in> set (w_caches w)"
  shows "cache_agrees legal ops callback u c"
proof -
  note inv = world_inv_reachable [OF w(1)]
  have e: "cache_explained legal ops callback (set (w_history w)) c" using inv c by (simp add: world_inv_def)
  have s: "(modules_generation u, modules u) \<in> set (w_history w)"
    using inv u by (simp add: world_inv_def unwinders_stamped_def stamp_def)
  have h: "history_numbered w" using inv by (simp add: world_inv_def)
  show ?thesis
    using e history_functional [OF h w(2) s] unfolding cache_explained_def cache_agrees_def by blast
qed

end
