(* ===== verification/Stable.thy ===== *)
theory Stable
  imports Guarantees System
begin

text \<open>
  Where the rule for a code address depends on the modules only, so that caching it changes nothing: in modules with DWARF
  data, at the addresses whose row can be translated into a rule (\<^verbatim>\<open>dwarf.rs\<close>, \<open>unwind_frame_with_fde\<close> and the \<open>DwarfUnwinding\<close>
  implementation of x86_64).  At the end an example of such a module.
\<close>

section \<open>Where rules depend on the modules only\<close>

lemma stable_at_module:
  assumes "find_module_for_address addr u = Val (Some (i, rel))" "i < length (modules u)"
    and "\<And>fa regs rd. callback (modules u ! i) fa rel regs rd = Val (regs, Ok (ExecRule rule))"
  shows "stable_at legal ops callback (modules u) addr"
    "lookup_address fa = addr \<Longrightarrow> without_cache ops callback u fa regs rd = op_exec ops rule (\<not> is_return_address fa) regs rd"
proof -
  have r: "rule_on_miss ops callback u fa addr regs rd = Val (regs, Continue rule)" for fa regs rd
    using assms by (simp add: rule_on_miss_def vec_index_def)
  then show "stable_at legal ops callback (modules u) addr"
    by (auto simp: stable_at_def rule_of_modules_def rule_on_miss_modules)
  show "without_cache ops callback u fa regs rd = op_exec ops rule (\<not> is_return_address fa) regs rd" if "lookup_address fa = addr"
    using r that by (simp add: without_cache_def)
qed

text \<open>The DWARF row for an address of a module, found with whichever index the module has.\<close>

definition dwarf_row_at ::
  "bool \<Rightarrow> ('reg, 'expr, 'ev, 'fde, 'tbl, 'ptr, 'g) GimliFrame \<Rightarrow> ModuleUnwindDataInternal Module \<Rightarrow> u32 \<Rightarrow>
   ('reg, 'expr) UnwindTableRow option" where
  "dwarf_row_at oc G m rel =
     (let row = (\<lambda>ty bytes bases found.
        case (found, add_oc oc (base_svma m) (ucast rel)) of
          (Val (Some off), Val lookup_svma) \<Rightarrow>
            (case unwind_info_for_fde (gf_table G ty bytes bases) lookup_svma off of Ok r \<Rightarrow> Some r | Err _ \<Rightarrow> None)
        | _ \<Rightarrow> None)
      in case unwind_data m of
        EhFrameHdrAndEhFrame hdr eh bases \<Rightarrow>
          row EhFrame eh bases (get_fde_offset_for_relative_address oc (gf_parse_hdr G hdr bases) (base_svma m) rel)
      | DwarfCfiIndexAndEhFrame ix eh bases \<Rightarrow> row EhFrame eh bases (fde_offset_for_relative_address ix rel)
      | DwarfCfiIndexAndDebugFrame ix df bases \<Rightarrow> row DebugFrame df bases (fde_offset_for_relative_address ix rel)
      | _ \<Rightarrow> None)"

lemma dwarf_unwind_at_translated:
  assumes "found = Val (Some off)" "add_oc oc (du_base_svma du) (ucast rel) = Val lookup_svma"
    and "unwind_info_for_fde (gf_table G (unwind_section_type du) (unwind_section_data du) (du_bases du)) lookup_svma off =
      (Ok row :: (('reg, 'expr) UnwindTableRow, 'g DwarfUnwinderError) result)"
    and "\<And>ev. dw_unwind_frame (arch_dwarf A ev) row regs first rd = Val (regs, Ok (ExecRule rule))"
  shows "dwarf_unwind_at oc A G du regs first rel found e rd = Val (regs, Ok (ExecRule rule))"
  using assms by (simp add: dwarf_unwind_at_def dwarf_unwind_with_fde_def unwind_frame_with_fde_def)

lemma impl_translated:
  assumes "dwarf_row_at oc G m rel = Some row"
    and "\<And>ev regs first rd. dw_unwind_frame (arch_dwarf A ev) row regs first rd = Val (regs, Ok (ExecRule rule))"
  shows "unwind_frame_impl oc A G M m fa rel regs rd = Val (regs, Ok (ExecRule rule))"
proof (cases "unwind_data m")
  case (EhFrameHdrAndEhFrame hdr eh bases)
  with assms show ?thesis
    by (auto simp: dwarf_row_at_def unwind_frame_impl_def Let_def new_dwarf_unwinder_def
        intro!: dwarf_unwind_at_translated split: outcome.splits option.splits result.splits)
next
  case (DwarfCfiIndexAndEhFrame ix eh bases)
  with assms show ?thesis
    by (auto simp: dwarf_row_at_def unwind_frame_impl_def Let_def new_dwarf_unwinder_def
        intro!: dwarf_unwind_at_translated split: outcome.splits option.splits result.splits)
next
  case (DwarfCfiIndexAndDebugFrame ix df bases)
  with assms show ?thesis
    by (auto simp: dwarf_row_at_def unwind_frame_impl_def Let_def new_dwarf_unwinder_def
        intro!: dwarf_unwind_at_translated split: outcome.splits option.splits result.splits)
qed (use assms(1) in \<open>simp_all add: dwarf_row_at_def Let_def\<close>)

lemma translated_frame_x86_64:
  assumes "translate_into_unwind_rule_x86_64 oc (row_cfa row) (row_register row DW_RBP) (row_register row DW_RA) = Val (Ok rule)"
  shows "dw_unwind_frame (arch_dwarf (arch_x86_64 oc parse_opcode L) ev) row regs first rd = Val (regs, Ok (ExecRule rule))"
  using assms by (simp add: arch_x86_64_def dwarf_x86_64_def dwarf_unwind_frame_x86_64_def)

lemma translated_frame_aarch64:
  assumes "translate_into_unwind_rule_aarch64 oc (row_cfa row) (row_register row DW_X29) (row_register row DW_X30) = Val (Ok rule)"
  shows "dw_unwind_frame (arch_dwarf (arch_aarch64 oc parse_opcode) ev) row regs first rd = Val (regs, Ok (ExecRule rule))"
  using assms by (simp add: arch_aarch64_def dwarf_aarch64_def dwarf_unwind_frame_aarch64_def)

text \<open>The CFA of a row is above the return address, and with the slot of the base pointer in the lower half of the address
  space.\<close>

definition low_slots_x86_64 :: "(DwarfRegX86_64, 'expr) UnwindTableRow \<Rightarrow> u64 \<Rightarrow> bool" where
  "low_slots_x86_64 row cfa \<longleftrightarrow> 8 \<le> uint cfa \<and> uint cfa < 2 ^ 63 \<and>
     (\<forall>b. row_register row DW_RBP = Offset b \<longrightarrow> uint cfa + sint b < 2 ^ 63)"

text \<open>A gimli with one frame description, which has one row; rows with a return address below the CFA.\<close>

definition one_row_gimli :: "('reg, unit) UnwindTableRow \<Rightarrow> ('reg, unit, unit, unit, unit, unit, unit) GimliFrame" where
  "one_row_gimli row = \<lparr>gf_eval = (\<lambda>_ _. no_expressions),
     gf_table = (\<lambda>_ _ _. \<lparr>g_fde_from_offset = (\<lambda>_. Ok ()), g_unwind_info_for_address = (\<lambda>_ _. Ok row)\<rparr>),
     gf_parse_hdr = (\<lambda>_ _. None)\<rparr>"

definition one_row_x86_64 :: "(DwarfRegX86_64, unit) UnwindTableRow" where
  "one_row_x86_64 = \<lparr>row_cfa = RegisterAndOffset DW_RSP 64, row_register = (\<lambda>r. if r = DW_RA then Offset (- 8) else SameValue)\<rparr>"

definition one_row_module :: "ModuleUnwindDataInternal Module" where
  "one_row_module = \<lparr>mod_name = ''one'', avma_range = (0x1000, 0x5000), base_avma = 0x1000, base_svma = 0,
     unwind_data = DwarfCfiIndexAndEhFrame \<lparr>sorted_fde_pc_starts = [0], fde_offsets = [0]\<rparr> []
       \<lparr>bases_eh_frame = 0, bases_eh_frame_hdr = 0, bases_text = 0, bases_got = 0\<rparr>\<rparr>"

definition one_row_unwinder :: "ModuleUnwindDataInternal UnwinderInternal" where
  "one_row_unwinder = \<lparr>modules = [one_row_module], modules_generation = 1\<rparr>"

lemma one_row_gimli_ok: "gimli_terminating (one_row_gimli row)"
  by (auto simp: gimli_terminating_def terminating_def eval_expr_def one_row_gimli_def no_expressions_def)

lemma one_row_module_ok: "modules_sorted one_row_unwinder" "\<forall>m \<in> set (modules one_row_unwinder). data_ok P (unwind_data m)"
  by (simp_all add: one_row_unwinder_def one_row_module_def modules_sorted_def data_ok_def pe_data_def index_ok_def)

lemma one_row_lookup:
  "find_module_for_address 0x1008 one_row_unwinder = Val (Some (0, 8))"
  "find_module_for_address 0x1FFF one_row_unwinder = Val (Some (0, 0xFFF))"
  unfolding one_row_unwinder_def one_row_module_def by code_simp+

lemma one_row_found:
  "dwarf_row_at False (one_row_gimli row) one_row_module 8 = Some row"
  "dwarf_row_at False (one_row_gimli row) one_row_module 0xFFF = Some row"
proof -
  have "fde_offset_for_relative_address \<lparr>sorted_fde_pc_starts = [0], fde_offsets = [0]\<rparr> 8 = Val (Some 0)"
    "fde_offset_for_relative_address \<lparr>sorted_fde_pc_starts = [0], fde_offsets = [0]\<rparr> 0xFFF = Val (Some 0)" by code_simp+
  then show "dwarf_row_at False (one_row_gimli row) one_row_module 8 = Some row"
    "dwarf_row_at False (one_row_gimli row) one_row_module 0xFFF = Some row"
    by (simp_all add: dwarf_row_at_def one_row_module_def one_row_gimli_def unwind_info_for_fde_def)
qed

lemma one_row_x86_64_rule:
  "translate_into_unwind_rule_x86_64 False (row_cfa one_row_x86_64) (row_register one_row_x86_64 DW_RBP) (row_register one_row_x86_64 DW_RA) =
     Val (Ok (UnwindRuleX86_64.OffsetSp 8))"
proof -
  have "signed_to_u16 (idiv (64 :: i64) 8) = Some 8" by (simp add: signed_to_u16_Some_iff idiv_def signed_divide_int_def)
  then show ?thesis
    by (simp add: one_row_x86_64_def translate_into_unwind_rule_x86_64_def translate_cfa_x86_64_def register_rule_to_cfa_offset_def)
qed

lemma example_row_aarch64_rule:
  "translate_into_unwind_rule_aarch64 False (row_cfa example_row_aarch64) (row_register example_row_aarch64 DW_X29)
     (row_register example_row_aarch64 DW_X30) = Val (Ok UnwindRuleAarch64.UseFramePointer)"
  by (simp add: example_row_aarch64_def translate_into_unwind_rule_aarch64_def translate_fp_aarch64_def register_rule_to_cfa_offset_def)

end
