(* ===== verification/Aligned.thy ===== *)
theory Aligned
  imports Stable
begin

text \<open>
  Frames whose kind can be told from the lookup address.  The code address of a frame is looked up at the instruction pointer,
  and at one byte before a return address (\<^verbatim>\<open>src/code_address.rs\<close>).  Where instruction pointers are at the start of instructions
  and return addresses right after call instructions, the two kinds of frame never share a lookup address, so that a cached
  rule is only used for the kind of frame it was made for.  This makes the cache transparent for compact unwind info, whose
  rules depend on the kind of frame.
\<close>

definition unambiguous :: "(FrameAddress \<Rightarrow> bool) \<Rightarrow> bool" where
  "unambiguous legal \<longleftrightarrow>
     (\<forall>fa fa'. legal fa \<and> legal fa' \<and> wf_frame_address fa \<and> wf_frame_address fa' \<and> lookup_address fa = lookup_address fa' \<longrightarrow> fa = fa')"

text \<open>Instruction pointers at the starts of instructions, return addresses right after the last byte of one.\<close>

fun code_frame :: "(u64 \<Rightarrow> bool) \<Rightarrow> FrameAddress \<Rightarrow> bool" where
  "code_frame starts (InstructionPointer a) \<longleftrightarrow> starts a"
| "code_frame starts (ReturnAddress a) \<longleftrightarrow> \<not> starts (a - 1)"

lemma code_frame_unambiguous: "unambiguous (code_frame starts)"
  unfolding unambiguous_def
proof (intro allI impI)
  fix fa fa'
  assume "code_frame starts fa \<and> code_frame starts fa' \<and> wf_frame_address fa \<and> wf_frame_address fa' \<and> lookup_address fa = lookup_address fa'"
  then show "fa = fa'" by (cases fa; cases fa') (auto simp: lookup_address_def)
qed

text \<open>Where instructions are four bytes long and aligned, as on aarch64, it is enough that addresses are aligned.\<close>

definition aligned_frame :: "FrameAddress \<Rightarrow> bool" where
  "aligned_frame fa \<longleftrightarrow> 4 dvd unat (address fa)"

lemma aligned_unambiguous: "unambiguous aligned_frame"
  unfolding unambiguous_def
proof (intro allI impI)
  fix fa fa'
  assume a: "aligned_frame fa \<and> aligned_frame fa' \<and> wf_frame_address fa \<and> wf_frame_address fa' \<and> lookup_address fa = lookup_address fa'"
  have no: "a \<noteq> b - 1" if ab: "4 dvd unat a" "4 dvd unat b" "b \<noteq> 0" for a b :: u64
  proof
    assume "a = b - 1"
    then have "unat a = unat b - 1" using unat_sub [OF one_le_nonzero [OF ab(3)]] by simp
    moreover have "unat b \<noteq> 0" using ab(3) by (simp add: unat_eq_0)
    moreover obtain k l where "unat a = 4 * k" "unat b = 4 * l" using ab(1,2) by (auto elim!: dvdE)
    ultimately have "4 * k = 4 * l - 1" "l \<noteq> 0" by simp_all
    then show False by presburger
  qed
  show "fa = fa'" using a no by (cases fa; cases fa') (auto simp: lookup_address_def aligned_frame_def)
qed

text \<open>Where no other frame has the same lookup address, a rule that does not depend on registers and stack is stable.\<close>

lemma stable_at_unique_frame:
  assumes "\<And>fa'. legal fa' \<Longrightarrow> wf_frame_address fa' \<Longrightarrow> lookup_address fa' = lookup_address fa \<Longrightarrow> fa' = fa"
    and r: "\<And>regs rd. rule_on_miss ops callback u fa (lookup_address fa) regs rd = Val (regs, Continue rule)"
  shows "stable_at legal ops callback (modules u) (lookup_address fa)"
    "without_cache ops callback u fa regs rd = op_exec ops rule (\<not> is_return_address fa) regs rd"
proof -
  show "stable_at legal ops callback (modules u) (lookup_address fa)"
    using assms by (auto simp: stable_at_def rule_of_modules_def rule_on_miss_modules dest!: assms(1))
  show "without_cache ops callback u fa regs rd = op_exec ops rule (\<not> is_return_address fa) regs rd"
    using r by (simp add: without_cache_def)
qed

text \<open>The rule for an address of a module with compact unwind info; a failure means the fallback rule.  There is none where
  the compact unwind info refers to a DWARF frame description.\<close>

definition compact_rule_at ::
  "bool \<Rightarrow> ('reg, 'expr, 'ev, 'regs, 'r, 'm, 'g) ArchUnwinding \<Rightarrow> ('ui, 'm) MachoUnwindInfo \<Rightarrow> ModuleUnwindDataInternal Module \<Rightarrow>
   u32 \<Rightarrow> bool \<Rightarrow> 'r option" where
  "compact_rule_at oc A M m rel first =
     (case unwind_data m of
        CompactUnwindInfoAndEhFrame unwind_info eh_frame stubs stub_helper bases text_data \<Rightarrow>
          (case obind (new_cui_unwinder oc m unwind_info stubs stub_helper text_data) (\<lambda>u.
                  compact_unwind_frame oc (arch_rule A) (arch_cui A) M u rel first) of
             Val (Ok (CuiExecRule rule)) \<Rightarrow> Some rule
           | Val (Err e) \<Rightarrow> Some (op_fallback_rule (arch_rule A))
           | _ \<Rightarrow> None)
      | _ \<Rightarrow> None)"

lemma compact_rule_on_miss:
  assumes "find_module_for_address (lookup_address fa) u = Val (Some (i, rel))" "i < length (modules u)"
    and "compact_rule_at oc A M (modules u ! i) rel (\<not> is_return_address fa) = Some rule"
  shows "rule_on_miss (arch_rule A) (unwind_frame_impl oc A G M) u fa (lookup_address fa) regs rd = Val (regs, Continue rule)"
proof -
  from assms(3) obtain ui eh stubs helper bases td where d:
    "unwind_data (modules u ! i) = CompactUnwindInfoAndEhFrame ui eh stubs helper bases td"
    by (auto simp: compact_rule_at_def split: ModuleUnwindDataInternal.splits)
  with assms(3) obtain r cu where "new_cui_unwinder oc (modules u ! i) ui stubs helper td = Val cu"
    "compact_unwind_frame oc (arch_rule A) (arch_cui A) M cu rel (\<not> is_return_address fa) = Val r"
    "(case r of Ok (CuiExecRule rule) \<Rightarrow> Some rule | Err e \<Rightarrow> Some (op_fallback_rule (arch_rule A)) | _ \<Rightarrow> None) = Some rule"
    by (fastforce simp: compact_rule_at_def split: outcome.splits result.splits CuiUnwindResult.splits)
  with assms(1,2) d show ?thesis
    by (auto simp: rule_on_miss_def vec_index_def unwind_frame_impl_def split: result.splits CuiUnwindResult.splits)
qed

text \<open>Unwinding such a frame, through whichever cache of the process, executes the rule.\<close>

lemma cached_unwind_compact:
  assumes w: "reachable legal oc (arch_rule A) (unwind_frame_impl oc A G M) w" "length (w_history w) \<le> 65536"
    "u \<in> set (w_unwinders w)" "c \<in> set (w_caches w)" and fa: "legal fa" "wf_frame_address fa" and "unambiguous legal"
    and m: "find_module_for_address (lookup_address fa) u = Val (Some (i, rel))" "i < length (modules u)"
    and rule: "compact_rule_at oc A M (modules u ! i) rel (\<not> is_return_address fa) = Some rule"
    and f: "unwind_frame oc A G M u fa regs c rd = Val (regs', c', res)"
  shows "op_exec (arch_rule A) rule (\<not> is_return_address fa) regs rd = Val (regs', res)"
proof -
  have "\<And>fa'. legal fa' \<Longrightarrow> wf_frame_address fa' \<Longrightarrow> lookup_address fa' = lookup_address fa \<Longrightarrow> fa' = fa"
    using fa assms(7) unfolding unambiguous_def by blast
  note st = stable_at_unique_frame [where callback = "unwind_frame_impl oc A G M", OF this compact_rule_on_miss [OF m rule]]
  from with_cache_transparent [OF shared_caches_agree [OF w] fa st(1) f [unfolded unwind_frame_def]]
  have "Val (regs', res) = without_cache (arch_rule A) (unwind_frame_impl oc A G M) u fa regs rd" ..
  also have "\<dots> = op_exec (arch_rule A) rule (\<not> is_return_address fa) regs rd" by (rule st(2))
  finally show ?thesis ..
qed

end
