(* ===== verification/PeIteration.thy ===== *)
theory PeIteration
  imports Guarantees
begin

text \<open>
  Iterations over PE modules of x86_64.  They do not panic, but the direct path of \<^verbatim>\<open>src/x86_64/pe.rs\<close> has no check for
  progress, so that they need not end: an unwind code that restores the stack pointer from a frame register can lead back to
  the same frame.
\<close>

section \<open>A module with PE unwind data\<close>

text \<open>Section information with \<open>.pdata\<close>, \<open>.rdata\<close> and \<open>.text\<close>, and what \<open>Module::new\<close> makes of it.\<close>

definition pe_section_info :: "unit ModuleSectionInfo" where
  "pe_section_info = \<lparr>si_base_svma = (\<lambda>_. 0),
     si_section_svma_range = (\<lambda>name. State_Monad.return
       (if name = ''.rdata'' then Some (0x20, 0x21) else if name = ''.text'' then Some (0, 0x10) else None)),
     si_section_data = (\<lambda>name. State_Monad.return
       (if name = ''.pdata'' then Some [] else if name = ''.rdata'' then Some [0x20]
        else if name = ''.text'' then Some (replicate 16 0x90) else None)),
     si_segment_svma_range = (\<lambda>_. State_Monad.return None), si_segment_data = (\<lambda>_. State_Monad.return None)\<rparr>"

definition framed_pe_sections :: PeSections where
  "framed_pe_sections = \<lparr>pdata = [], rdata = Some \<lparr>rva_data = [0x20], rva_range = (0x20, 0x21)\<rparr>, xdata = None,
     text_section = Some \<lparr>rva_data = replicate 16 0x90, rva_range = (0, 0x10)\<rparr>\<rparr>"

definition pe_module :: "ModuleUnwindDataInternal Module" where
  "pe_module = \<lparr>mod_name = ''pe'', avma_range = (0x1000, 0x5000), base_avma = 0x1000, base_svma = 0,
     unwind_data = PeUnwindInfo (pdata framed_pe_sections) (rdata framed_pe_sections) (xdata framed_pe_sections)
       (text_section framed_pe_sections)\<rparr>"

definition pe_unwinder :: "ModuleUnwindDataInternal UnwinderInternal" where
  "pe_unwinder = \<lparr>modules = [pe_module], modules_generation = 1\<rparr>"

lemma pe_module_made: "made_by C pe_section_info pe_module"
proof -
  have u: "u64_to_u32 0 = Some 0" "u64_to_u32 0x10 = Some 0x10" "u64_to_u32 0x20 = Some 0x20" "u64_to_u32 0x21 = Some 0x21"
    by (simp_all add: u64_to_u32_def)
  have "new_module False C pe_section_info ''pe'' (0x1000, 0x5000) 0x1000 () = Val pe_module"
    by (simp add: new_module_def new_unwind_data_def pe_unwind_data_def range_and_data_def rva_range_of_def pe_section_info_def
        pe_module_def framed_pe_sections_def u)
  then show ?thesis unfolding made_by_def by blast
qed

lemma pe_unwinder_ok: "modules_sorted pe_unwinder" "\<forall>m \<in> set (modules pe_unwinder). made_by C pe_section_info m"
  "P framed_pe_sections \<Longrightarrow> \<forall>m \<in> set (modules pe_unwinder). pe_data P (unwind_data m)"
  using pe_module_made by (simp_all add: pe_unwinder_def modules_sorted_def pe_module_def pe_data_def framed_pe_sections_def)

section \<open>An iteration that goes on for ever\<close>

text \<open>One function whose single unwind code sets the stack pointer to the frame register.\<close>

definition framed_pe_lib :: "(unit, unit) PeLib" where
  "framed_pe_lib = simple_pe_lib\<lparr>pe_frame_register := (\<lambda>_. Some PE_RBP), pe_unwind_operations := (\<lambda>_. [(4, OtherOperation ())]),
     pe_resolve_operation := (\<lambda>_ st op regs. (us_write_register st PE_RSP (us_read_register st PE_RBP regs) regs, Some FlowContinue))\<rparr>"

lemma framed_pe_lib_simps [simp]:
  "pe_lookup framed_pe_lib p a = (if a < 0x10 then Some \<lparr>begin_address = 0, rf_end_address = 0x10, unwind_info_address = 0x20\<rparr> else None)"
  "pe_parse_info framed_pe_lib bs = Some ()" "pe_chained framed_pe_lib i = None" "pe_parse_sequence framed_pe_lib bs fr = None"
  "pe_unwind_operations framed_pe_lib i = [(4, OtherOperation ())]"
  "pe_resolve_operation framed_pe_lib i st op regs =
     (us_write_register st PE_RSP (us_read_register st PE_RBP regs) regs, Some FlowContinue)"
  by (simp_all add: framed_pe_lib_def simple_pe_lib_def example_pe_lib_def)

lemma framed_memory:
  "unwind_info_at framed_pe_lib framed_pe_sections 0x20 = Val (Ok ())"
  "a < 0x10 \<Longrightarrow> text_memory_at_rva framed_pe_sections a = Val (Ok (replicate (16 - unat a) 0x90))"
proof -
  show "unwind_info_at framed_pe_lib framed_pe_sections 0x20 = Val (Ok ())"
    by (simp add: framed_pe_sections_def unwind_info_at_def unwind_info_memory_at_rva_def opt_memory_at_rva_def memory_at_rva_def)
  assume "a < 0x10"
  then have "unat a \<le> 16" by (simp add: word_less_nat_alt)
  with \<open>a < 0x10\<close> show "text_memory_at_rva framed_pe_sections a = Val (Ok (replicate (16 - unat a) 0x90))"
    by (simp add: framed_pe_sections_def text_memory_at_rva_def opt_memory_at_rva_def memory_at_rva_def Let_def)
qed

lemma framed_length: "a < 0x10 \<Longrightarrow> unat (0x10 - a) \<le> 16 - unat a" for a :: u32
  by (simp add: unat_sub word_le_nat_alt word_less_nat_alt)

text \<open>The image is well-formed for every parser that finds this function, no chained infos and no epilogs in it.\<close>

lemma framed_sections_ok:
  assumes "\<And>p a. pe_lookup L p a =
      (if a < 0x10 then Some \<lparr>begin_address = 0, rf_end_address = 0x10, unwind_info_address = 0x20\<rparr> else None)"
    and "\<And>i. pe_chained L i = None" and "\<And>bs fr. pe_parse_sequence L bs fr = None"
  shows "pe_image_ok L framed_pe_sections"
proof -
  have "wf_sections framed_pe_sections" by (simp add: wf_sections_def framed_pe_sections_def covers_range_def)
  moreover have "info_after L framed_pe_sections (Suc 0) info = None" for info by (simp add: next_info_def assms(2))
  then have "\<exists>n. info_after L framed_pe_sections n info = None" for info by blast
  ultimately show ?thesis
    using framed_memory(2) framed_length assms unfolding pe_image_ok_def by (auto split: if_splits)
qed

lemma framed_pe_image_ok: "pe_image_ok framed_pe_lib framed_pe_sections"
  by (rule framed_sections_ok) simp_all

lemma simple_pe_image_ok: "pe_image_ok simple_pe_lib framed_pe_sections"
  by (rule framed_sections_ok) (simp_all add: simple_pe_lib_def example_pe_lib_def)

text \<open>Every frame of the function leads back to it, as long as the frame register is not changed.\<close>

lemma framed_frame:
  assumes a: "a = 4 \<or> a = 5" and bp: "get regs RBP = 0x10"
  shows "pe_unwind_frame_x86_64 False framed_pe_lib framed_pe_sections a regs first (\<lambda>_. Some 0x1005) =
    Val (set_reg RSP 0x18 (set_reg RSP 0x10 regs), Ok (Uncacheable 0x1005))"
proof -
  let ?f = "\<lparr>begin_address = 0, rf_end_address = 0x10, unwind_info_address = 0x20\<rparr>"
  have lt: "a < 0x10" using a by auto
  have e: "pe_epilog False framed_pe_lib framed_pe_sections ?f () a regs (\<lambda>_. Some 0x1005) = Val None"
    using framed_length [OF lt] lt by (simp add: pe_epilog_def framed_memory(2) not_less)
  have c: "chained_infos framed_pe_lib framed_pe_sections () = Some (Val (Ok [()]))" by (subst chained_infos.simps) simp
  have "pe_codes False framed_pe_lib framed_pe_sections ?f () a regs (\<lambda>_. Some 0x1005) =
      Val (set_reg RSP 0x18 (set_reg RSP 0x10 regs), Ok (Uncacheable 0x1005))"
    using a bp by (auto simp: pe_codes_def c for_sequence_of_offset_or_pop_def pe_state_def pe_return_def read_stack_err_def)
  with e lt show ?thesis by (simp add: pe_unwind_frame_x86_64_def framed_memory(1))
qed

text \<open>The state of the iterator, which every step restores.\<close>

definition in_framed_loop :: "(UnwindRegsX86_64, UnwindRuleX86_64) UnwindIterator \<Rightarrow> bool" where
  "in_framed_loop it \<longleftrightarrow> it_state it \<in> {Unwinding (InstructionPointer 0x1005), Unwinding (ReturnAddress 0x1005)} \<and>
     get (it_regs it) RBP = 0x10 \<and> wf_cache (it_cache it) \<and> (\<forall>a g. cached (it_cache it) a g = None)"

lemma framed_loop_step:
  assumes "in_framed_loop it"
  shows "\<exists>it'. next_frame False (ops_x86_64 False) (unwind_frame_impl False (arch_x86_64 False parse_opcode framed_pe_lib) G M)
      pe_unwinder (\<lambda>_. Some 0x1005) it = Val (it', Ok (Some (ReturnAddress 0x1005))) \<and> in_framed_loop it'"
proof -
  let ?rd = "\<lambda>_. Some 0x1005" and ?regs = "set_reg RSP 0x18 (set_reg RSP 0x10 (it_regs it))"
  let ?cb = "unwind_frame_impl False (arch_x86_64 False parse_opcode framed_pe_lib) G M"
  from assms obtain fa where fa: "it_state it = Unwinding fa" "fa = InstructionPointer 0x1005 \<or> fa = ReturnAddress 0x1005"
    by (auto simp: in_framed_loop_def)
  let ?a = "lookup_address fa"
  have wf: "wf_frame_address fa" "wf_cache (it_cache it)" using fa assms by (auto simp: in_framed_loop_def)
  have m: "find_module_for_address 0x1005 pe_unwinder = Val (Some (0, 5))" "find_module_for_address 0x1004 pe_unwinder = Val (Some (0, 4))"
    unfolding pe_unwinder_def pe_module_def by code_simp+
  obtain rel where rel: "find_module_for_address ?a pe_unwinder = Val (Some (0, rel))" "rel = 4 \<or> rel = 5"
    using fa(2) m by (auto simp: lookup_address_def)
  have "get (it_regs it) RBP = 0x10" using assms by (simp add: in_framed_loop_def)
  from framed_frame [OF rel(2) this, of "\<not> is_return_address fa"] rel(1)
  have r: "rule_on_miss (ops_x86_64 False) ?cb pe_unwinder fa ?a (it_regs it) ?rd = Val (?regs, Return (Ok (Some 0x1005)))"
    by (simp add: rule_on_miss_def vec_index_def pe_unwinder_def pe_module_def unwind_frame_impl_def arch_x86_64_def framed_pe_sections_def)
  obtain c1 cr where l: "lookup False ?a 1 (it_cache it) = Val (c1, cr)" using lookup_release [OF wf(2)] by blast
  note e = lookup_effect [OF wf(2) l]
  have "cr = Miss (miss_handle ?a 1)" using e(4) assms by (simp add: in_framed_loop_def)
  with l r have w: "with_cache False (ops_x86_64 False) ?cb pe_unwinder fa (it_regs it) (it_cache it) ?rd =
      Val (?regs, c1, Ok (Some 0x1005))"
    by (simp add: with_cache_def address_for_lookup_wf [OF wf(1)] pe_unwinder_def)
  from fa(1) w have "next_frame False (ops_x86_64 False) ?cb pe_unwinder ?rd it =
      Val (it\<lparr>it_state := Unwinding (ReturnAddress 0x1005), it_regs := ?regs, it_cache := c1\<rparr>, Ok (Some (ReturnAddress 0x1005)))"
    by (simp add: next_frame_def from_return_address_def)
  moreover have "in_framed_loop (it\<lparr>it_state := Unwinding (ReturnAddress 0x1005), it_regs := ?regs, it_cache := c1\<rparr>)"
    using assms e(1,2) by (simp add: in_framed_loop_def)
  ultimately show ?thesis by blast
qed

lemma framed_loop_frames:
  assumes "in_framed_loop it"
  shows "\<exists>fas. take_frames False (ops_x86_64 False) (unwind_frame_impl False (arch_x86_64 False parse_opcode framed_pe_lib) G M)
      pe_unwinder (\<lambda>_. Some 0x1005) n it = Val (fas, None) \<and> length fas = n"
  using assms
proof (induction n arbitrary: it)
  case (Suc n)
  from framed_loop_step [OF Suc.prems] Suc.IH show ?case by fastforce
qed simp


end
