(* ===== verification/Walk.thy ===== *)
theory Walk
  imports Guarantees System
begin

text \<open>
  Whole iterations against a reference: a walk over the stack that knows the rule for every frame and just executes it, with
  neither a cache nor a search for the module (\<^verbatim>\<open>src/unwinder.rs\<close>, \<open>UnwindIterator\<close> and \<open>with_cache\<close>).  Where the rules depend on the
  modules only, the iterator yields what the walk yields.  As an application, the frames of a stack with a chain of frame
  pointers, outside of all modules, are exactly its return addresses; the locale \<open>frame_pointers\<close> has what this asks of the
  fallback rule of an architecture.
\<close>

section \<open>The reference walk\<close>

fun walk_rules ::
  "('r, 'regs) UnwindRuleOps \<Rightarrow> (FrameAddress \<Rightarrow> 'r) \<Rightarrow> stack_reader \<Rightarrow> nat \<Rightarrow> FrameAddress \<Rightarrow> 'regs \<Rightarrow>
   (FrameAddress list \<times> (unit, Error) result option) outcome" where
  "walk_rules ops rule_of rd 0 fa regs = Val ([], None)"
| "walk_rules ops rule_of rd (Suc n) fa regs =
     obind (op_exec ops (rule_of fa) (\<not> is_return_address fa) regs rd) (\<lambda>(regs', res).
       case res of
         Err e \<Rightarrow> Val ([], Some (Err e))
       | Ok None \<Rightarrow> Val ([], Some (Ok ()))
       | Ok (Some ra) \<Rightarrow>
           (case from_return_address ra of
              None \<Rightarrow> Val ([], Some (Err ReturnAddressIsNull))
            | Some fa' \<Rightarrow> obind (walk_rules ops rule_of rd n fa' regs') (\<lambda>(fas, fin). Val (fa' # fas, fin))))"

text \<open>The rule for the code address of a frame, whatever frame with this code address asks for it.\<close>

definition rule_at ::
  "(FrameAddress \<Rightarrow> bool) \<Rightarrow> ('r, 'regs) UnwindRuleOps \<Rightarrow> ('u, 'regs, 'r, 'e) frame_callback \<Rightarrow> 'u UnwinderInternal \<Rightarrow>
   FrameAddress \<Rightarrow> 'r \<Rightarrow> bool" where
  "rule_at legal ops callback u fa rule \<longleftrightarrow> legal fa \<and>
     (\<forall>fa' regs rd. legal fa' \<longrightarrow> wf_frame_address fa' \<longrightarrow> lookup_address fa' = lookup_address fa \<longrightarrow>
        rule_on_miss ops callback u fa' (lookup_address fa) regs rd = Val (regs, Continue rule))"

lemma rule_at_cached:
  assumes "cache_agrees legal ops callback u c" "rule_at legal ops callback u fa rule"
    "cached c (lookup_address fa) (modules_generation u) = Some r"
  shows "r = rule"
proof -
  from assms(1,3) have "rule_of_modules legal ops callback (modules u) (lookup_address fa) r" by (simp add: cache_agrees_def)
  with assms(2) show ?thesis by (auto simp: rule_of_modules_def rule_at_def rule_on_miss_modules)
qed

text \<open>Room for counting \<open>n\<close> more lookups: with overflow checks a counter of the statistics that overflows is a panic.\<close>

definition room :: "bool \<Rightarrow> 'r RuleCache \<Rightarrow> nat \<Rightarrow> bool" where
  "room oc c n \<longleftrightarrow> (oc \<longrightarrow> counted c + int n < 2 ^ 64)"

lemma room_simps [simp]: "room False c n" "room oc new_rule_cache n \<longleftrightarrow> (oc \<longrightarrow> int n < 2 ^ 64)"
  by (simp_all add: room_def)

lemma room_stats: "stats c' = stats c \<Longrightarrow> room oc c' n = room oc c n"
  by (simp add: room_def counted_def)

lemma lookup_room:
  assumes w: "wf_cache c" and r: "room oc c (Suc n)"
  obtains c' r where "lookup oc addr g c = Val (c', r)" "room oc c' n"
proof (cases oc)
  case True
  with r have n: "counted c + 1 < 2 ^ 64" "counted c + int (Suc n) < 2 ^ 64" by (simp_all add: room_def)
  obtain c' r' where l: "lookup oc addr g c = Val (c', r')" and e: "counted c' = counted c + 1" using lookup_counts [OF w n(1)] by blast
  show thesis by (rule that [OF l]) (use n(2) e in \<open>simp add: room_def\<close>)
next
  case False
  obtain c' r' where "lookup False addr g c = Val (c', r')" using lookup_release [OF w] by blast
  then show thesis using False by (intro that) (simp_all add: room_def)
qed

lemma with_cache_rule_at:
  assumes a: "cache_agrees legal ops callback u c" and r: "rule_at legal ops callback u fa rule" and wf: "wf_frame_address fa"
    and x: "op_exec ops rule (\<not> is_return_address fa) regs rd = Val (regs', res)" and n: "room oc c (Suc n)"
  shows "\<exists>c'. with_cache oc ops callback u fa regs c rd = Val (regs', c', res) \<and> cache_agrees legal ops callback u c' \<and> room oc c' n"
proof -
  let ?a = "lookup_address fa" and ?g = "modules_generation u"
  have w: "wf_cache c" and l: "legal fa" using a r by (simp_all add: cache_agrees_def rule_at_def)
  obtain c1 cr where c1: "lookup oc ?a ?g c = Val (c1, cr)" "room oc c1 n" by (rule lookup_room [OF w n])
  note e = lookup_effect [OF w c1(1)]
  have "\<exists>c'. with_cache oc ops callback u fa regs c rd = Val (regs', c', res) \<and> room oc c' n"
  proof (cases "cached c ?a ?g")
    case (Some r')
    with rule_at_cached [OF a r] e(4) c1 x show ?thesis by (simp add: with_cache_def address_for_lookup_wf [OF wf])
  next
    case None
    then have "cr = Miss (miss_handle ?a ?g)" using e(4) by simp
    moreover have "rule_on_miss ops callback u fa ?a regs rd = Val (regs, Continue rule)" using r l wf by (simp add: rule_at_def)
    moreover obtain c2 where "insert_rule (miss_handle ?a ?g) rule c1 = Val c2" "room oc c2 n"
      using insert_effect [OF e(1)] room_stats c1(2) by metis
    ultimately show ?thesis using c1 x by (simp add: with_cache_def address_for_lookup_wf [OF wf])
  qed
  then show ?thesis using cache_agrees_with_cache [OF a l wf] by blast
qed

lemma take_frames_walk:
  assumes "cache_agrees legal ops callback u (it_cache it)" "it_state it = Unwinding fa" "wf_frame_address fa"
    and "walk_rules ops rule_of rd n fa (it_regs it) = Val (fas, fin)"
    and "\<forall>fa' \<in> insert fa (set fas). rule_at legal ops callback u fa' (rule_of fa')"
    and "room oc (it_cache it) n"
  shows "take_frames oc ops callback u rd n it = Val (fas, fin)"
  using assms
proof (induction n arbitrary: it fa fas)
  case (Suc n)
  from Suc.prems(4) obtain regs' res where x: "op_exec ops (rule_of fa) (\<not> is_return_address fa) (it_regs it) rd = Val (regs', res)"
    by auto
  obtain c' where c': "with_cache oc ops callback u fa (it_regs it) (it_cache it) rd = Val (regs', c', res)"
    "cache_agrees legal ops callback u c'" "room oc c' n"
    using with_cache_rule_at [OF Suc.prems(1) _ Suc.prems(3) x Suc.prems(6)] Suc.prems(5) by blast
  note n = next_frame_def [of oc ops callback u rd it] Suc.prems(2) c'(1)
  show ?case
  proof (cases "\<exists>ra. res = Ok (Some ra) \<and> ra \<noteq> 0")
    case True
    then obtain ra where ra: "res = Ok (Some ra)" "ra \<noteq> 0" by blast
    let ?it = "it\<lparr>it_regs := regs', it_cache := c', it_state := Unwinding (ReturnAddress ra)\<rparr>"
    from Suc.prems(4) x ra obtain fas' where f: "walk_rules ops rule_of rd n (ReturnAddress ra) regs' = Val (fas', fin)"
      "fas = ReturnAddress ra # fas'" by (auto simp: from_return_address_def)
    have "take_frames oc ops callback u rd n ?it = Val (fas', fin)"
      by (rule Suc.IH [of _ "ReturnAddress ra"]) (use c'(2,3) f ra Suc.prems(5) in auto)
    moreover have "next_frame oc ops callback u rd it = Val (?it, Ok (Some (ReturnAddress ra)))"
      using ra by (simp add: n from_return_address_def Let_def)
    ultimately show ?thesis using f(2) by simp
  next
    case False
    with Suc.prems(4) x show ?thesis
      by (cases res) (auto simp: n from_return_address_def Let_def split: option.splits)
  qed
qed simp

lemma iteration_walk:
  assumes "cache_agrees legal ops callback u c"
    and w: "walk_rules ops rule_of rd n (InstructionPointer pc) regs = Val (fas, fin)"
    and "\<forall>fa \<in> insert (InstructionPointer pc) (set fas). rule_at legal ops callback u fa (rule_of fa)"
    and "room oc c n"
  shows "take_frames oc ops callback u rd (Suc n) (new_iterator pc regs c) = Val (InstructionPointer pc # fas, fin)"
proof -
  let ?it = "(new_iterator pc regs c)\<lparr>it_state := Unwinding (InstructionPointer pc)\<rparr>"
  have "take_frames oc ops callback u rd n ?it = Val (fas, fin)"
    by (rule take_frames_walk [of legal ops callback u _ "InstructionPointer pc" rule_of]) (use assms in \<open>simp_all add: new_iterator_def\<close>)
  then show ?thesis by (simp add: new_iterator_def)
qed

section \<open>Chains of frame pointers\<close>

text \<open>Outside of all modules the fallback rule applies.\<close>

lemma rule_at_no_module:
  assumes "legal fa" "find_module_for_address (lookup_address fa) u = Val None"
  shows "rule_at legal ops callback u fa (op_fallback_rule ops)"
  using assms by (simp add: rule_at_def rule_on_miss_def)

text \<open>\<open>chain rd regs ras\<close>: the frame pointer in \<open>regs\<close> is the start of a chain of frame records with the return addresses \<open>ras\<close>.\<close>

locale frame_pointers =
  fixes ops :: "('r, 'regs) UnwindRuleOps"
    and chain :: "stack_reader \<Rightarrow> 'regs \<Rightarrow> u64 list \<Rightarrow> bool"
  assumes chain_end: "chain rd regs [] \<Longrightarrow> \<exists>regs'. op_exec ops (op_fallback_rule ops) first regs rd = Val (regs', Ok None)"
    and chain_frame: "chain rd regs (ra # ras) \<Longrightarrow> ra \<noteq> 0 \<and>
      (\<exists>regs'. op_exec ops (op_fallback_rule ops) first regs rd = Val (regs', Ok (Some ra)) \<and> chain rd regs' ras)"
begin

lemma walk_chain:
  "chain rd regs ras \<Longrightarrow>
   walk_rules ops (\<lambda>_. op_fallback_rule ops) rd (Suc (length ras)) fa regs = Val (map ReturnAddress ras, Some (Ok ()))"
proof (induction ras arbitrary: fa regs)
  case Nil
  with chain_end [of rd regs "\<not> is_return_address fa"] show ?case by auto
next
  case (Cons ra ras)
  obtain regs' where r: "ra \<noteq> 0" "op_exec ops (op_fallback_rule ops) (\<not> is_return_address fa) regs rd = Val (regs', Ok (Some ra))"
    "chain rd regs' ras" using chain_frame [OF Cons.prems] by blast
  from Cons.IH [OF r(3), of "ReturnAddress ra"] r(1,2) show ?case
    by (simp add: from_return_address_def del: walk_rules.simps(2)) (simp add: walk_rules.simps(2) [of _ _ _ "Suc (length ras)"] from_return_address_def del: walk_rules.simps(2))
qed

lemma iteration_chain:
  assumes "cache_agrees legal ops callback u c" "chain rd regs ras"
    and "\<forall>fa \<in> insert (InstructionPointer pc) (ReturnAddress ` set ras). legal fa \<and> find_module_for_address (lookup_address fa) u = Val None"
    and "room oc c (Suc (length ras))"
  shows "take_frames oc ops callback u rd (Suc (Suc (length ras))) (new_iterator pc regs c) =
    Val (InstructionPointer pc # map ReturnAddress ras, Some (Ok ()))"
  by (rule iteration_walk [OF assms(1) walk_chain [OF assms(2)] _ assms(4)]) (use assms(3) in \<open>auto intro!: rule_at_no_module\<close>)

end

text \<open>On x86_64 the frame pointer points to the caller's frame pointer with the return address above it; the last frame
  pointer is 0.\<close>

fun chain_x86_64 :: "stack_reader \<Rightarrow> u64 \<Rightarrow> u64 \<Rightarrow> u64 list \<Rightarrow> bool" where
  "chain_x86_64 rd s b [] \<longleftrightarrow> b = 0"
| "chain_x86_64 rd s b (ra # ras) \<longleftrightarrow> b \<noteq> 0 \<and> uint b + 16 < 2 ^ 64 \<and> s < b + 16 \<and> ra \<noteq> 0 \<and> rd (b + 8) = Some ra \<and>
     (case rd b of None \<Rightarrow> False | Some b' \<Rightarrow> chain_x86_64 rd (b + 16) b' ras)"

text \<open>On aarch64 the same, with authentication bits in the return addresses, frame pointers that grow, and a last record that
  has the frame pointer 0.\<close>

fun chain_aarch64 :: "stack_reader \<Rightarrow> PtrAuthMask \<Rightarrow> u64 \<Rightarrow> u64 \<Rightarrow> u64 list \<Rightarrow> bool" where
  "chain_aarch64 rd m s f [] \<longleftrightarrow> uint f + 16 < 2 ^ 64 \<and> rd f = Some 0 \<and> rd (f + 8) \<noteq> None"
| "chain_aarch64 rd m s f (ra # ras) \<longleftrightarrow> uint f + 16 < 2 ^ 64 \<and> s < f + 16 \<and> ra \<noteq> 0 \<and>
     (case (rd (f + 8), rd f) of (Some lr, Some f') \<Rightarrow> ra = strip_ptr_auth m lr \<and> f < f' \<and> chain_aarch64 rd m (f + 16) f' ras | _ \<Rightarrow> False)"

lemma frame_record_arith:
  fixes b :: u64
  assumes "uint b + 16 < 2 ^ 64"
  shows "checked_add b 16 = Some (b + 16)" "sub_oc oc (b + 16) 8 = Val (b + 8)" "add_oc oc b 8 = Val (b + 8)"
proof -
  show c: "checked_add b 16 = Some (b + 16)" using assms by (simp add: checked_add_def)
  have "uint (b + 16) = uint b + 16" using c by (simp add: checked_add_Some_iff)
  then have "8 \<le> b + 16" by (simp add: word_le_def)
  then show "sub_oc oc (b + 16) 8 = Val (b + 8)" by (simp add: sub_oc_def not_less)
  show "add_oc oc b 8 = Val (b + 8)" using assms by (simp add: add_oc_def)
qed

interpretation x86_frames: frame_pointers "ops_x86_64 oc" "\<lambda>rd regs. chain_x86_64 rd (sp regs) (bp regs)" for oc
proof unfold_locales
  fix rd regs first
  assume "chain_x86_64 rd (sp regs) (bp regs) []"
  then show "\<exists>regs'. op_exec (ops_x86_64 oc) (op_fallback_rule (ops_x86_64 oc)) first regs rd = Val (regs', Ok None)"
    by (simp add: fallback_rule_x86_64_def exec_x86_64_def)
next
  fix rd regs ra ras first
  assume c: "chain_x86_64 rd (sp regs) (bp regs) (ra # ras)"
  then obtain b' where b: "rd (bp regs) = Some b'" "chain_x86_64 rd (bp regs + 16) b' ras" by (auto split: option.splits)
  have n: "uint (bp regs) + 16 < 2 ^ 64" "bp regs \<noteq> 0" "sp regs < bp regs + 16" "ra \<noteq> 0" "rd (bp regs + 8) = Some ra" using c by simp_all
  then have "bp regs + 16 \<noteq> sp regs" by auto
  with n b have "exec_x86_64 oc UnwindRuleX86_64.UseFramePointer first regs rd =
      Val (set_bp b' (set_sp (bp regs + 16) (set_ip ra regs)), Ok (Some ra))"
    by (simp add: exec_x86_64_def use_frame_pointer_x86_64_def return_to_caller_x86_64_def frame_record_arith [OF n(1)] not_le)
  then show "ra \<noteq> 0 \<and> (\<exists>regs'. op_exec (ops_x86_64 oc) (op_fallback_rule (ops_x86_64 oc)) first regs rd = Val (regs', Ok (Some ra)) \<and>
      chain_x86_64 rd (sp regs') (bp regs') ras)"
    using c b(2) by (auto simp: fallback_rule_x86_64_def)
qed

interpretation a64_frames: frame_pointers "ops_aarch64 oc" "\<lambda>rd regs. chain_aarch64 rd (lr_mask regs) (a64_sp regs) (a64_fp regs)" for oc
proof unfold_locales
  fix rd and regs :: UnwindRegsAarch64 and first
  assume c: "chain_aarch64 rd (lr_mask regs) (a64_sp regs) (a64_fp regs) []"
  then have n: "uint (a64_fp regs) + 16 < 2 ^ 64" by simp
  from c show "\<exists>regs'. op_exec (ops_aarch64 oc) (op_fallback_rule (ops_aarch64 oc)) first regs rd = Val (regs', Ok None)"
    by (auto simp: fallback_rule_aarch64_def exec_aarch64_def read_frame_record_def read_or_err_def check_frame_progress_def
        frame_record_arith [OF n])
next
  fix rd and regs :: UnwindRegsAarch64 and ra ras first
  assume c: "chain_aarch64 rd (lr_mask regs) (a64_sp regs) (a64_fp regs) (ra # ras)"
  then obtain lr f' where r: "rd (a64_fp regs + 8) = Some lr" "rd (a64_fp regs) = Some f'" "ra = strip_ptr_auth (lr_mask regs) lr"
    "a64_fp regs < f'" "chain_aarch64 rd (lr_mask regs) (a64_fp regs + 16) f' ras" by (auto split: option.splits)
  have n: "uint (a64_fp regs) + 16 < 2 ^ 64" "a64_sp regs < a64_fp regs + 16" "ra \<noteq> 0" using c by simp_all
  have "f' \<noteq> 0" using r(4) by auto
  with r(1-4) n have "exec_aarch64 oc UnwindRuleAarch64.UseFramePointer first regs rd =
      Val (set_a64_fp f' (set_a64_sp (a64_fp regs + 16) (set_lr lr regs)), Ok (Some ra))"
    by (auto simp: exec_aarch64_def read_frame_record_def read_or_err_def check_frame_progress_def frame_record_arith [OF n(1)] not_le Let_def)
  then show "ra \<noteq> 0 \<and> (\<exists>regs'. op_exec (ops_aarch64 oc) (op_fallback_rule (ops_aarch64 oc)) first regs rd = Val (regs', Ok (Some ra)) \<and>
      chain_aarch64 rd (lr_mask regs') (a64_sp regs') (a64_fp regs') ras)"
    using n(3) r(5) by (auto simp: fallback_rule_aarch64_def a64_setter_defs)
qed

end
