(* ===== verification/CfiWalk.thy ===== *)
theory CfiWalk
  imports Stable Walk
begin

text \<open>
  Whole iterations over code with DWARF call frame information, against a reference: a walk that evaluates the row for every
  frame, with neither rules nor a cache.  The iterator (\<^verbatim>\<open>src/unwinder.rs\<close>) executes cached rules translated from the rows
  (\<^verbatim>\<open>src/x86_64/dwarf.rs\<close>); the frames it yields are those of the walk.
\<close>

section \<open>Walks\<close>

text \<open>A walk finds the caller of every frame; \<open>walks caller fa regs ras\<close> is that it goes through the return addresses \<open>ras\<close>.\<close>

fun walks :: "(FrameAddress \<Rightarrow> 'regs \<Rightarrow> ('regs \<times> u64) option) \<Rightarrow> FrameAddress \<Rightarrow> 'regs \<Rightarrow> u64 list \<Rightarrow> bool" where
  "walks caller fa regs [] \<longleftrightarrow> True"
| "walks caller fa regs (ra # ras) \<longleftrightarrow>
     (case caller fa regs of Some (regs', ra') \<Rightarrow> ra' = ra \<and> walks caller (ReturnAddress ra) regs' ras | None \<Rightarrow> False)"

text \<open>An iteration through frames whose callers the walk finds.\<close>

lemma take_frames_walks:
  assumes "cache_agrees legal ops callback u (it_cache it)" "it_state it = Unwinding fa" "wf_frame_address fa"
    and "take_frames oc ops callback u rd n it = Val (map ReturnAddress ras, fin)"
    and "\<forall>fa' \<in> set (butlast (fa # map ReturnAddress ras)). legal fa' \<and>
      (\<forall>regs c regs' c' ra. is_return_address fa' \<or> ok regs \<longrightarrow> wf_frame_address fa' \<longrightarrow> cache_agrees legal ops callback u c \<longrightarrow>
         with_cache oc ops callback u fa' regs c rd = Val (regs', c', Ok (Some ra)) \<longrightarrow> caller fa' regs = Some (regs', ra))"
    and "is_return_address fa \<or> ok (it_regs it)"
  shows "walks caller fa (it_regs it) ras"
  using assms
proof (induction ras arbitrary: it fa n)
  case (Cons ra ras)
  from Cons.prems(4) obtain m where m: "n = Suc m" by (cases n) auto
  from Cons.prems(4) obtain it' res where it': "next_frame oc ops callback u rd it = Val (it', res)" by (auto simp: m)
  with Cons.prems(4) have r: "res = Ok (Some (ReturnAddress ra))" and t: "take_frames oc ops callback u rd m it' = Val (map ReturnAddress ras, fin)"
    by (auto simp: m split: result.splits option.splits)
  from it' Cons.prems(2) obtain regs' c' x where w: "with_cache oc ops callback u fa (it_regs it) (it_cache it) rd = Val (regs', c', x)"
    by (auto simp: next_frame_def)
  with it' Cons.prems(2) r have x: "x = Ok (Some ra)" "ra \<noteq> 0"
    and i: "it' = it\<lparr>it_regs := regs', it_cache := c', it_state := Unwinding (ReturnAddress ra)\<rparr>"
    by (auto simp: next_frame_def from_return_address_def Let_def split: result.splits option.splits if_splits)
  have l: "legal fa" "caller fa (it_regs it) = Some (regs', ra)" using Cons.prems(1,3,5,6) w x(1) by auto
  have "walks caller (ReturnAddress ra) (it_regs it') ras"
  proof (rule Cons.IH [OF _ _ _ t])
    show "cache_agrees legal ops callback u (it_cache it')"
      using cache_agrees_with_cache [OF Cons.prems(1) l(1) Cons.prems(3) w] by (simp add: i)
  qed (use Cons.prems(5) x(2) in \<open>auto simp: i\<close>)
  then show ?case using l(2) by (simp add: i)
qed simp

lemma iteration_walks:
  assumes "cache_agrees legal ops callback u c"
    and "take_frames oc ops callback u rd (Suc n) (new_iterator pc regs c) = Val (InstructionPointer pc # map ReturnAddress ras, fin)"
    and "\<forall>fa \<in> set (butlast (InstructionPointer pc # map ReturnAddress ras)). legal fa \<and>
      (\<forall>regs c regs' c' ra. is_return_address fa \<or> ok regs \<longrightarrow> wf_frame_address fa \<longrightarrow> cache_agrees legal ops callback u c \<longrightarrow>
         with_cache oc ops callback u fa regs c rd = Val (regs', c', Ok (Some ra)) \<longrightarrow> caller fa regs = Some (regs', ra))"
    and "ok regs"
  shows "walks caller (InstructionPointer pc) regs ras"
proof -
  let ?it = "(new_iterator pc regs c)\<lparr>it_state := Unwinding (InstructionPointer pc)\<rparr>"
  have t: "take_frames oc ops callback u rd n ?it = Val (map ReturnAddress ras, fin)"
    using assms(2) by (auto simp: next_frame_def new_iterator_def)
  show ?thesis using take_frames_walks [OF _ _ _ t assms(3)] assms(1,4) by (simp add: new_iterator_def)
qed

text \<open>A stack in the lower half of the address space, and not at its end: offsets of rules stay below it.\<close>

definition low_stack :: "stack_reader \<Rightarrow> bool" where
  "low_stack rd \<longleftrightarrow> (\<forall>a. rd a \<noteq> None \<longrightarrow> uint a + 2 ^ 21 < 2 ^ 63)"

section \<open>Call frame information of x86_64\<close>

text \<open>The walk that evaluates rows.\<close>

definition cfi_caller_x86_64 ::
  "(FrameAddress \<Rightarrow> (DwarfRegX86_64, 'expr) UnwindTableRow) \<Rightarrow> (DwarfRegX86_64, 'expr, 'ev) GimliEval \<Rightarrow> stack_reader \<Rightarrow>
   FrameAddress \<Rightarrow> UnwindRegsX86_64 \<Rightarrow> (UnwindRegsX86_64 \<times> u64) option" where
  "cfi_caller_x86_64 row_of ev rd fa regs =
     (case dwarf_eval_frame_x86_64 False ev (row_of fa) regs (\<not> is_return_address fa) rd ::
         (UnwindRegsX86_64 \<times> (UnwindRuleX86_64 UnwindResult, unit DwarfUnwinderError) result) outcome of
        Val (regs', Ok (Uncacheable ra)) \<Rightarrow> Some (regs', ra)
      | _ \<Rightarrow> None)"

text \<open>The row of a frame, if it can be translated: the offsets are multiples of 8 and the base pointer is saved below the CFA.\<close>

definition regular_row_at_x86_64 ::
  "bool \<Rightarrow> (DwarfRegX86_64, 'expr, 'ev, 'fde, 'tbl, 'ptr, 'g) GimliFrame \<Rightarrow> ModuleUnwindDataInternal UnwinderInternal \<Rightarrow> FrameAddress \<Rightarrow>
   (DwarfRegX86_64, 'expr) UnwindTableRow \<Rightarrow> bool" where
  "regular_row_at_x86_64 oc G u fa row \<longleftrightarrow>
     (\<exists>i rel rule. find_module_for_address (lookup_address fa) u = Val (Some (i, rel)) \<and> i < length (modules u) \<and>
        dwarf_row_at oc G (modules u ! i) rel = Some row \<and>
        translate_into_unwind_rule_x86_64 oc (row_cfa row) (row_register row DW_RBP) (row_register row DW_RA) = Val (Ok rule)) \<and>
     aligned_row_x86_64 row \<and> (\<forall>b. row_register row DW_RBP = Offset b \<longrightarrow> sint b \<le> 0)"

lemma low_stack_slots:
  assumes "low_stack rd" "rd (s - 8) = Some ra" "\<forall>b. row_register row DW_RBP = Offset b \<longrightarrow> sint b \<le> 0"
  shows "low_slots_x86_64 row s"
proof -
  have lo: "uint (s - 8) + 8 < 2 ^ 63" using assms(1,2) by (auto simp: low_stack_def)
  then have "uint (s - 8 + 8) = uint (s - 8) + 8"
    using checked_add_Some_iff [of "s - 8" 8 "s - 8 + 8"] by (simp add: checked_add_def)
  then have "uint s = uint (s - 8) + 8" by simp
  then have "8 \<le> uint s" "uint s < 2 ^ 63" using lo uint_ge_0 [of "s - 8"] by linarith+
  with assms(3) show ?thesis by (fastforce simp: low_slots_x86_64_def)
qed

lemma regular_row_followed:
  assumes r: "regular_row_at_x86_64 oc G u fa row" and lo: "low_stack rd" and fa: "legal fa" "wf_frame_address fa"
    and a: "cache_agrees legal (ops_x86_64 oc) (unwind_frame_impl oc (arch_x86_64 oc parse_opcode L) G M) u c"
    and w: "with_cache oc (ops_x86_64 oc) (unwind_frame_impl oc (arch_x86_64 oc parse_opcode L) G M) u fa regs c rd =
      Val (regs', c', Ok (Some ra))"
  shows "dwarf_eval_frame_x86_64 False ev row regs (\<not> is_return_address fa) rd = Val (regs', Ok (Uncacheable ra))"
proof -
  let ?cb = "unwind_frame_impl oc (arch_x86_64 oc parse_opcode L) G M"
  from r obtain i rel rule where m: "find_module_for_address (lookup_address fa) u = Val (Some (i, rel))" "i < length (modules u)"
    and row: "dwarf_row_at oc G (modules u ! i) rel = Some row"
    and t: "translate_into_unwind_rule_x86_64 oc (row_cfa row) (row_register row DW_RBP) (row_register row DW_RA) = Val (Ok rule)"
    by (auto simp: regular_row_at_x86_64_def)
  note st = stable_at_module [where callback = ?cb, OF m impl_translated [OF row translated_frame_x86_64 [OF t]]]
  have "without_cache (ops_x86_64 oc) ?cb u fa regs rd = Val (regs', Ok (Some ra))" by (rule with_cache_transparent [OF a fa st(1) w])
  then have ex: "exec_x86_64 oc rule (\<not> is_return_address fa) regs rd = Val (regs', Ok (Some ra))"
    using st(2) [OF refl, of "ops_x86_64 oc" regs rd] by simp
  have "low_slots_x86_64 row (sp regs')"
    by (rule low_stack_slots [OF lo]) (use exec_x86_64_returns [OF ex] r in \<open>auto simp: regular_row_at_x86_64_def\<close>)
  then show ?thesis
    using dwarf_rule_agrees_x86_64 [OF t _ ex] r by (auto simp: regular_row_at_x86_64_def low_slots_x86_64_def)
qed

lemma cfi_iteration_x86_64:
  assumes a: "cache_agrees legal (ops_x86_64 oc) (unwind_frame_impl oc (arch_x86_64 oc parse_opcode L) G M) u c"
    and t: "take_frames oc (ops_x86_64 oc) (unwind_frame_impl oc (arch_x86_64 oc parse_opcode L) G M) u rd (Suc n) (new_iterator pc regs c) =
      Val (InstructionPointer pc # map ReturnAddress ras, fin)"
    and r: "\<forall>fa \<in> set (butlast (InstructionPointer pc # map ReturnAddress ras)). legal fa \<and> regular_row_at_x86_64 oc G u fa (row_of fa)"
    and lo: "low_stack rd"
  shows "walks (cfi_caller_x86_64 row_of ev rd) (InstructionPointer pc) regs ras"
proof (rule iteration_walks [OF a t, where ok = "\<lambda>_. True"], intro ballI conjI allI impI)
  fix fa regs c regs' c' ra
  assume fa: "fa \<in> set (butlast (InstructionPointer pc # map ReturnAddress ras))"
  with r show l: "legal fa" by blast
  assume wf: "wf_frame_address fa"
    and c: "cache_agrees legal (ops_x86_64 oc) (unwind_frame_impl oc (arch_x86_64 oc parse_opcode L) G M) u c"
    and w: "with_cache oc (ops_x86_64 oc) (unwind_frame_impl oc (arch_x86_64 oc parse_opcode L) G M) u fa regs c rd = Val (regs', c', Ok (Some ra))"
  have row: "regular_row_at_x86_64 oc G u fa (row_of fa)" using r fa by blast
  show "cfi_caller_x86_64 row_of ev rd fa regs = Some (regs', ra)"
    by (simp add: cfi_caller_x86_64_def regular_row_followed [where legal = legal, OF row lo l wf c w])
qed simp

section \<open>Call frame information of aarch64\<close>

definition cfi_caller_aarch64 ::
  "(FrameAddress \<Rightarrow> (DwarfRegAarch64, 'expr) UnwindTableRow) \<Rightarrow> (DwarfRegAarch64, 'expr, 'ev) GimliEval \<Rightarrow> stack_reader \<Rightarrow>
   FrameAddress \<Rightarrow> UnwindRegsAarch64 \<Rightarrow> (UnwindRegsAarch64 \<times> u64) option" where
  "cfi_caller_aarch64 row_of ev rd fa regs =
     (case dwarf_eval_frame_aarch64 ev (row_of fa) regs (\<not> is_return_address fa) rd ::
         (UnwindRegsAarch64 \<times> (UnwindRuleAarch64 UnwindResult, unit DwarfUnwinderError) result) outcome of
        Val (regs', Ok (Uncacheable new_lr)) \<Rightarrow> Some (regs', strip_ptr_auth (lr_mask regs) new_lr)
      | _ \<Rightarrow> None)"

text \<open>The row of a frame, if it can be translated: offsets a rule can express, registers saved below the CFA and, for a
  caller, a frame pointer that can be recovered.\<close>

definition regular_row_at_aarch64 ::
  "bool \<Rightarrow> (DwarfRegAarch64, 'expr, 'ev, 'fde, 'tbl, 'ptr, 'g) GimliFrame \<Rightarrow> ModuleUnwindDataInternal UnwinderInternal \<Rightarrow> FrameAddress \<Rightarrow>
   (DwarfRegAarch64, 'expr) UnwindTableRow \<Rightarrow> bool" where
  "regular_row_at_aarch64 oc G u fa row \<longleftrightarrow>
     (\<exists>i rel rule. find_module_for_address (lookup_address fa) u = Val (Some (i, rel)) \<and> i < length (modules u) \<and>
        dwarf_row_at oc G (modules u ! i) rel = Some row \<and>
        translate_into_unwind_rule_aarch64 oc (row_cfa row) (row_register row DW_X29) (row_register row DW_X30) = Val (Ok rule)) \<and>
     aligned_row_aarch64 row \<and>
     (\<forall>o'. row_register row DW_X29 = Offset o' \<or> row_register row DW_X30 = Offset o' \<longrightarrow> sint o' \<le> 0) \<and>
     (\<not> is_return_address fa \<or> row_register row DW_X29 \<noteq> Undefined)"

text \<open>The first frame may be recovered without reading the stack, so that its stack pointer has to be low, too.\<close>

definition low_sp :: "UnwindRegsAarch64 \<Rightarrow> bool" where
  "low_sp regs \<longleftrightarrow> uint (a64_sp regs) + 2 ^ 21 < 2 ^ 63"

lemma low_slot:
  assumes "low_stack rd" "slot_holds rd base y v" "uint s = uint base + k" "k < 2 ^ 20"
  shows "uint s < 2 ^ 63"
proof -
  obtain loc where l: "uint loc = uint base + 8 * sint y" "rd loc \<noteq> None" using assms(2) by (auto simp: slot_holds_def)
  have "uint loc + 2 ^ 21 < 2 ^ 63" using assms(1) l(2) by (simp add: low_stack_def)
  moreover have "- (2 ^ 15) \<le> sint y" using sint_in_signed_range [of y] by (simp add: in_signed_range_def)
  ultimately show ?thesis using l(1) assms(3,4) by simp
qed

lemma low_effect:
  assumes "low_stack rd" "first \<longrightarrow> uint s + 2 ^ 21 < 2 ^ 63"
    and "documented_effect_aarch64 rule first rd (lr, s, fp) (lr', s', fp')"
  shows "uint s' < 2 ^ 63"
proof -
  have x: "16 * uint x < 2 ^ 20" "8 * uint x < 2 ^ 20" for x :: u16 using uint_lt2p [of x] by simp_all
  have f: "uint fp + 2 ^ 21 < 2 ^ 63" if "rd fp \<noteq> None" using assms(1) that by (simp add: low_stack_def)
  note e = assms(3) [unfolded documented_effect_aarch64_def prod.case]
  show ?thesis
  proof (cases rule)
    case (OffsetSpAndRestoreLr k y)
    with e have "slot_holds rd s y lr'" "uint s' = uint s + 16 * uint k" by simp_all
    then show ?thesis by (rule low_slot [OF assms(1) _ _ x(1)])
  next
    case (OffsetSpAndRestoreFpAndLr k y z)
    with e have "slot_holds rd s y fp'" "uint s' = uint s + 16 * uint k" by simp_all
    then show ?thesis by (rule low_slot [OF assms(1) _ _ x(1)])
  next
    case (UseFramepointerWithOffsets k y z)
    with e have "slot_holds rd fp y fp'" "uint s' = uint fp + 8 * uint k" by simp_all
    then show ?thesis by (rule low_slot [OF assms(1) _ _ x(2)])
  next
    case (OffsetSp k)
    with e assms(2) x(1) [of k] show ?thesis by simp
  next
    case (OffsetSpIfFirstFrameOtherwiseStackEndsHere k)
    with e assms(2) x(1) [of k] show ?thesis by simp
  qed (use e f assms(2) in \<open>auto split: if_splits\<close>)
qed

lemma regular_row_followed_aarch64:
  assumes r: "regular_row_at_aarch64 oc G u fa row" and lo: "low_stack rd" and fa: "legal fa" "wf_frame_address fa"
    and s: "is_return_address fa \<or> low_sp regs"
    and a: "cache_agrees legal (ops_aarch64 oc) (unwind_frame_impl oc (arch_aarch64 oc parse_opcode) G M) u c"
    and w: "with_cache oc (ops_aarch64 oc) (unwind_frame_impl oc (arch_aarch64 oc parse_opcode) G M) u fa regs c rd =
      Val (regs', c', Ok (Some ra))"
  shows "\<exists>new_lr. dwarf_eval_frame_aarch64 ev row regs (\<not> is_return_address fa) rd = Val (regs', Ok (Uncacheable new_lr)) \<and>
    ra = strip_ptr_auth (lr_mask regs) new_lr"
proof -
  let ?cb = "unwind_frame_impl oc (arch_aarch64 oc parse_opcode) G M"
  from r obtain i rel rule where m: "find_module_for_address (lookup_address fa) u = Val (Some (i, rel))" "i < length (modules u)"
    and row: "dwarf_row_at oc G (modules u ! i) rel = Some row"
    and t: "translate_into_unwind_rule_aarch64 oc (row_cfa row) (row_register row DW_X29) (row_register row DW_X30) = Val (Ok rule)"
    by (auto simp: regular_row_at_aarch64_def)
  note st = stable_at_module [where callback = ?cb, OF m impl_translated [OF row translated_frame_aarch64 [OF t]]]
  have "without_cache (ops_aarch64 oc) ?cb u fa regs rd = Val (regs', Ok (Some ra))" by (rule with_cache_transparent [OF a fa st(1) w])
  then have ex: "exec_aarch64 oc rule (\<not> is_return_address fa) regs rd = Val (regs', Ok (Some ra))"
    using st(2) [OF refl, of "ops_aarch64 oc" regs rd] by simp
  from ex obtain new_lr where "documented_effect_aarch64 rule (\<not> is_return_address fa) rd (a64_lr regs, a64_sp regs, a64_fp regs)
      (new_lr, a64_sp regs', a64_fp regs')" by (rule exec_aarch64_new_registers)
  then have "uint (a64_sp regs') < 2 ^ 63" by (rule low_effect [OF lo, rotated]) (use s in \<open>auto simp: low_sp_def\<close>)
  then have "low_slots_aarch64 row (a64_sp regs')" using r by (fastforce simp: low_slots_aarch64_def regular_row_at_aarch64_def)
  then show ?thesis using r by (intro dwarf_rule_agrees_aarch64 [OF t _ ex]) (simp_all add: regular_row_at_aarch64_def)
qed

lemma cfi_iteration_aarch64:
  assumes a: "cache_agrees legal (ops_aarch64 oc) (unwind_frame_impl oc (arch_aarch64 oc parse_opcode) G M) u c"
    and t: "take_frames oc (ops_aarch64 oc) (unwind_frame_impl oc (arch_aarch64 oc parse_opcode) G M) u rd (Suc n) (new_iterator pc regs c) =
      Val (InstructionPointer pc # map ReturnAddress ras, fin)"
    and r: "\<forall>fa \<in> set (butlast (InstructionPointer pc # map ReturnAddress ras)). legal fa \<and> regular_row_at_aarch64 oc G u fa (row_of fa)"
    and lo: "low_stack rd" "low_sp regs"
  shows "walks (cfi_caller_aarch64 row_of ev rd) (InstructionPointer pc) regs ras"
proof (rule iteration_walks [OF a t, where ok = low_sp], intro ballI conjI allI impI)
  fix fa regs c regs' c' ra
  assume fa: "fa \<in> set (butlast (InstructionPointer pc # map ReturnAddress ras))"
  with r show l: "legal fa" by blast
  assume sp: "is_return_address fa \<or> low_sp regs" and wf: "wf_frame_address fa"
    and c: "cache_agrees legal (ops_aarch64 oc) (unwind_frame_impl oc (arch_aarch64 oc parse_opcode) G M) u c"
    and w: "with_cache oc (ops_aarch64 oc) (unwind_frame_impl oc (arch_aarch64 oc parse_opcode) G M) u fa regs c rd = Val (regs', c', Ok (Some ra))"
  have "regular_row_at_aarch64 oc G u fa (row_of fa)" using r fa by blast
  from regular_row_followed_aarch64 [where legal = legal, OF this lo(1) l wf sp c w] obtain new_lr where
    "dwarf_eval_frame_aarch64 ev (row_of fa) regs (\<not> is_return_address fa) rd =
      (Val (regs', Ok (Uncacheable new_lr)) :: (_ \<times> (_, unit DwarfUnwinderError) result) outcome)" "ra = strip_ptr_auth (lr_mask regs) new_lr"
    by blast
  then show "cfi_caller_aarch64 row_of ev rd fa regs = Some (regs', ra)" by (simp add: cfi_caller_aarch64_def)
qed (rule lo(2))

section \<open>An example\<close>

text \<open>At an address whose row is translated, the rule is that of the row.\<close>

lemma rule_at_translated:
  assumes "find_module_for_address (lookup_address fa) u = Val (Some (i, rel))" "i < length (modules u)"
    and "dwarf_row_at oc G (modules u ! i) rel = Some row"
    and "\<And>ev regs first rd. dw_unwind_frame (arch_dwarf A ev) row regs first rd = Val (regs, Ok (ExecRule rule))" and "legal fa"
  shows "rule_at legal (arch_rule A) (unwind_frame_impl oc A G M) u fa rule"
  using assms(1,2,5) by (simp add: rule_at_def rule_on_miss_def vec_index_def impl_translated [OF assms(3,4)])

text \<open>Two frames in the module with one row: the instruction pointer and one return address, after which the stack cannot be
  read.\<close>

lemma one_row_rule_at:
  assumes "\<And>ev regs first rd. dw_unwind_frame (arch_dwarf A ev) row regs first rd = Val (regs, Ok (ExecRule rule))"
    and "fa = InstructionPointer 0x1008 \<or> fa = ReturnAddress 0x2000"
  shows "rule_at (\<lambda>_. True) (arch_rule A) (unwind_frame_impl False A (one_row_gimli row) M) one_row_unwinder fa rule"
proof -
  obtain rel where m: "find_module_for_address (lookup_address fa) one_row_unwinder = Val (Some (0, rel))"
    and row: "dwarf_row_at False (one_row_gimli row) (modules one_row_unwinder ! 0) rel = Some row"
    using assms(2) one_row_lookup one_row_found [of row] by (auto simp: lookup_address_def one_row_unwinder_def)
  show ?thesis by (rule rule_at_translated [OF m _ row assms(1)]) (simp_all add: one_row_unwinder_def)
qed

lemma one_row_iteration:
  assumes "\<And>ev regs first rd. dw_unwind_frame (arch_dwarf A ev) row regs first rd = Val (regs, Ok (ExecRule rule))"
    and "walk_rules (arch_rule A) (\<lambda>_. rule) rd 2 (InstructionPointer 0x1008) regs = Val ([ReturnAddress 0x2000], fin)"
  shows "take_frames False (arch_rule A) (unwind_frame_impl False A (one_row_gimli row) M) one_row_unwinder rd (Suc 2)
     (new_iterator 0x1008 regs new_rule_cache) = Val (InstructionPointer 0x1008 # map ReturnAddress [0x2000], fin)"
proof -
  have "cache_agrees (\<lambda>_. True) (arch_rule A) (unwind_frame_impl False A (one_row_gimli row) M) one_row_unwinder new_rule_cache"
    by (simp add: cache_agrees_def)
  from iteration_walk [OF this assms(2), of False] show ?thesis by (auto intro!: one_row_rule_at [OF assms(1)])
qed

lemma one_row_walk_x86_64:
  "walk_rules (ops_x86_64 False) (\<lambda>_. UnwindRuleX86_64.OffsetSp 8) [0x48 \<mapsto> 0x2000] 2 (InstructionPointer 0x1008) (new_regs 0x1008 0x10 0x20) =
     Val ([ReturnAddress 0x2000], Some (Err (CouldNotReadStack 0x88)))"
  by code_simp

lemma one_row_walk_aarch64:
  "walk_rules (ops_aarch64 False) (\<lambda>_. UnwindRuleAarch64.UseFramePointer) [0x20 \<mapsto> 0x40, 0x28 \<mapsto> 0x2000] 2 (InstructionPointer 0x1008)
     (new_regs_aarch64 0x1008 0x10 0x20) = Val ([ReturnAddress 0x2000], Some (Err (CouldNotReadStack 0x48)))"
  by code_simp

end
