(* ===== verification/Spec2Isabelle.thy ===== *)
theory Spec2Isabelle
  imports UnitTests Cache Display Aligned PeIteration CfiWalk
begin

text \<open>
  Verification of framehop, a stack unwinding library: given the registers of a thread, a callback that reads its stack
  and a description of the modules loaded in its process, it finds the return addresses of the active function calls.
  The model covers the Rust code under \<^verbatim>\<open>src/src/\<close> for x86_64 and aarch64 with the features \<open>macho\<close> and \<open>pe\<close>.

  \<^bold>\<open>How the program works.\<close>  An unwinder keeps a sorted list of modules and a generation number that changes with the
  list (\<^verbatim>\<open>unwinder.rs\<close>).  To unwind a frame it looks up the code address in a rule cache (\<^verbatim>\<open>rule_cache.rs\<close>).  On a hit, the
  cached rule is executed.  On a miss, the module's unwind data is consulted: compact unwind info (\<^verbatim>\<open>macho.rs\<close>), DWARF call
  frame information (\<^verbatim>\<open>dwarf.rs\<close>) or PE unwind info (\<^verbatim>\<open>pe.rs\<close>).  It yields a rule, which is cached and executed, or a
  return address that cannot be cached; a failure means the fallback rule, frame pointer unwinding.  The iterator
  repeats this until the end of the stack or an error.

  \<^bold>\<open>How it is modelled.\<close>  Integers are words of their width.  Arithmetic the source does not check takes a flag \<open>oc\<close>: with
  overflow checks an overflow is a panic, without them it wraps.  A computation that may panic, or not end, is an
  \<open>outcome\<close>: \<open>Val v\<close> or \<open>Panic p\<close>, where \<open>p = Diverges\<close> stands for a loop that never ends.  \<open>Result\<close> is the datatype
  \<open>result\<close>.  Functions that take \<open>&mut\<close> arguments return the new values, also on error paths.  The stack callback is a
  partial function from addresses to words, fixed during a call.  Traits are records of functions; what generic code
  relies on is a locale, interpreted for the implementations.  Crates that are not part of the repository (gimli,
  macho-unwind-info, pe-unwind-info) are records of functions which the definitions take as arguments; what is assumed of
  them is written as hypotheses (\<open>gimli_terminating\<close>, \<open>rows_ok\<close>, \<open>lookup_in_range\<close>,
  \<open>resolves_pops\<close>, \<open>pe_image_ok\<close>, \<open>cie_offsets_consistent\<close>).

  \<^bold>\<open>Theories, from the bottom.\<close>

  \<^item> \<open>Prelude\<close>: results, outcomes, Rust's integer operations and the lemmas on words that the components share.
  \<^item> \<open>AddSigned\<close> (\<^verbatim>\<open>add_signed.rs\<close>), \<open>CodeAddress\<close> (\<^verbatim>\<open>code_address.rs\<close>), \<open>Errors\<close> (\<^verbatim>\<open>error.rs\<close> and the errors of the formats),
    \<open>Search\<close> (the standard library's binary search, with the locale \<open>sorted_search\<close> for what its two users need).
  \<^item> \<open>UnwindRule\<close> (\<^verbatim>\<open>unwind_rule.rs\<close>, \<^verbatim>\<open>arch.rs\<close>): the trait, the locale \<open>unwind_rule\<close> for what executing a rule guarantees and
    \<open>advancing_rule\<close> for rules that come closer to the end of the stack.
  \<^item> \<open>X86Regs\<close>, \<open>RegisterOrdering\<close>, \<open>X86Rule\<close> and \<open>A64Regs\<close>, \<open>A64Rule\<close>: registers, pointer authentication masks and the
    rules of both architectures.  Executing a rule has the documented effect, makes progress, and panics exactly where
    stated; encoding the order of popped registers round-trips.
  \<^item> \<open>RuleCache\<close> (\<^verbatim>\<open>rule_cache.rs\<close>): the direct-mapped cache refines a map that forgets (locale \<open>lossy_map\<close>); hits come from
    insertions, the statistics count exactly.
  \<^item> \<open>Modules\<close>: the module list stays sorted, a search finds the module of an address.
  \<^item> \<open>UnwinderCore\<close>: \<open>with_cache\<close> and \<open>UnwindIterator\<close>, generic in the architecture; transparency of the cache.
  \<^item> \<open>System\<close>: unwinders and caches in one process as a step relation, with an invariant over reachable states.
  \<^item> \<open>Dwarf\<close>, \<open>X86Dwarf\<close>, \<open>A64Dwarf\<close> (\<^verbatim>\<open>dwarf.rs\<close> of the crate and of the architectures): the index of frame descriptions is
    correct; a row that is translated into a rule unwinds like the evaluation of the row.
  \<^item> \<open>X86Analysis\<close>, \<open>A64Prologue\<close>, \<open>A64Epilogue\<close>, \<open>A64Insn\<close>, \<open>A64Analysis\<close> (\<^verbatim>\<open>instruction_analysis\<close>): detected prologues and
    epilogues, compared with running the encoded instructions on a small machine.
  \<^item> \<open>Macho\<close>, \<open>X86Macho\<close>, \<open>A64Macho\<close> (\<^verbatim>\<open>macho.rs\<close>): compact unwind info, with the locale \<open>compact_unwinding\<close>.
  \<^item> \<open>Pe\<close>, \<open>X86Pe\<close> (\<^verbatim>\<open>pe.rs\<close>): PE unwind info; the locale \<open>pe_machine\<close> relates cacheable rules to the direct paths; a
    frame of a well-formed image is unwound without a panic.
  \<^item> \<open>ModuleData\<close>: the choice of unwind data in \<open>Module::new\<close>, in the state monad because sections are moved out.
  \<^item> \<open>FrameImpl\<close>: \<open>unwind_frame_impl\<close>, which puts the formats together, and the public unwinders of both architectures.
  \<^item> \<open>Iteration\<close>, \<open>Guarantees\<close>: the locales \<open>safe_rule\<close> and \<open>safe_arch\<close>, from which it follows that an iteration ends without
    a panic; both are interpreted for both architectures.
  \<^item> \<open>PeIteration\<close>: an iteration over a PE module that never ends.
  \<^item> \<open>Cache\<close> (\<^verbatim>\<open>cache.rs\<close>): the caches a user makes, and the allocation policies.
  \<^item> \<open>Stable\<close>, \<open>Aligned\<close>: code addresses at which the rule depends on the modules only, and frames whose kind can be told from the
    lookup address, which the cache never mixes up.
  \<^item> \<open>Walk\<close>: the iterator against a walk that only executes rules, and stacks with frame pointers, with the locale
    \<open>frame_pointers\<close>, interpreted for both architectures.
  \<^item> \<open>CfiWalk\<close>: the iterator against a walk that evaluates the DWARF row of every frame.
  \<^item> \<open>Display\<close> (\<^verbatim>\<open>display_utils.rs\<close> and the \<open>Display\<close>, \<open>Debug\<close> and \<open>source\<close> functions): the texts of errors and registers, which identify
    what they show.
  \<^item> \<open>UnitTests\<close>: the unit tests of the crate, run on the model.

  This theory has the properties that span components: that every iteration ends, that none panics, that sharing caches is
  transparent, that iterations follow the DWARF call frame information, that a cached frame executes the rule of its compact
  unwind info, that a whole iteration executes the rules of its frames, which frames a stack with frame pointers has, and
  what happens after a failure.

  \<^bold>\<open>Loops.\<close>  All loops of the program itself are total functions, except three with a bound from outside: the evaluation of
  a DWARF expression and the chain of PE unwind infos are partial functions whose value \<open>None\<close> means that they never
  end (for the chain it is proved when that happens), and the consumer \<open>take_frames\<close> of an iterator takes the number of
  frames it asks for; \<open>unwinding_ends_x86_64\<close> and \<open>unwinding_ends_aarch64\<close> show that some number suffices.

  \<^bold>\<open>Not modelled.\<close>  The derived \<open>Debug\<close> implementations and format flags; the contents of gimli's scratch memory; re-exports and
  documentation (\<^verbatim>\<open>lib.rs\<close>, \<^verbatim>\<open>mod.rs\<close>); the integration tests, which read binaries, and the unit test on the size of a cache
  entry in memory.  The name of a module, its getters and \<open>Clone\<close> have no behaviour.  That iterations end
  and do not panic is for builds without overflow checks.  Iterations over x86_64 PE modules do not panic, and they end where the unwind codes are
  stack allocations and pops; with other codes the direct path does not check for progress, and \<open>PeIteration\<close> has an iteration
  that does not end.
\<close>









text \<open>A process with one unwinder, no module and one cache.\<close>

definition example_world :: "(ModuleUnwindDataInternal, 'r) world" where
  "example_world = \<lparr>w_global = 1, w_unwinders = [\<lparr>modules = [], modules_generation = 0\<rparr>], w_caches = [new_rule_cache],
     w_history = [(0, [])]\<rparr>"

lemma example_world_reachable: "reachable legal oc ops callback example_world"
proof -
  let ?u = "\<lparr>modules = [], modules_generation = 0\<rparr>"
  let ?w = "\<lparr>w_global = 1, w_unwinders = [?u], w_caches = [], w_history = [(0, [])]\<rparr>"
  have "new_unwinder (w_global initial_world) = (1, ?u)"
    by (simp add: new_unwinder_def next_global_modules_generation_def initial_world_def)
  from world_step.create [OF this] have "world_step legal oc ops callback initial_world ?w"
    by (simp add: initial_world_def stamp_def)
  then have "reachable legal oc ops callback ?w" by (rule reachable.step [OF reachable.init])
  moreover have "world_step legal oc ops callback ?w example_world"
    using world_step.new_cache [of legal oc ops callback ?w] by (simp add: example_world_def)
  ultimately show ?thesis by (rule reachable.step)
qed

text \<open>A process with one unwinder that has one module, and one cache.\<close>

definition one_module_world :: "ModuleUnwindDataInternal Module \<Rightarrow> (ModuleUnwindDataInternal, 'r) world" where
  "one_module_world m = \<lparr>w_global = 2, w_unwinders = [\<lparr>modules = [m], modules_generation = 1\<rparr>], w_caches = [new_rule_cache],
     w_history = [(0, []), (1, [m])]\<rparr>"

lemma one_module_world_reachable: "reachable legal oc ops callback (one_module_world m)"
proof -
  have "add_module m (w_global example_world) (w_unwinders example_world ! 0) = Val (2, \<lparr>modules = [m], modules_generation = 1\<rparr>)"
    by (simp add: add_module_def example_world_def binary_search_def vec_insert_def next_global_modules_generation_def)
  from world_step.add [OF _ this, of legal oc ops callback] have "world_step legal oc ops callback example_world (one_module_world m)"
    by (simp add: example_world_def one_module_world_def stamp_def)
  then show ?thesis by (rule reachable.step [OF example_world_reachable])
qed

lemma stable_at_no_modules: "stable_at legal ops callback [] addr"
  by (auto simp: stable_at_def rule_of_modules_def rule_on_miss_def find_module_for_address_def binary_search_def)


text \<open>
  C5: On x86_64, iterations follow the DWARF call frame information.  Take the walk over the stack that evaluates, frame by frame,
  the CFA, base pointer and return address rules of the row for the frame's code address, with neither rules nor a cache.
  The return addresses an iterator yields are those of the walk, and so are the registers in between, if the row of every
  frame but the last yielded one can be translated, has offsets that are multiples of 8 and saves the base pointer below the
  CFA, whichever unwinder of the process and whichever shared cache is used and whatever was cached before, as long as at most
  65536 generations were drawn, for a stack in the lower half of the address space.
\<close>

theorem iteration_follows_cfi_x86_64:
  assumes "reachable legal oc (ops_x86_64 oc) (unwind_frame_impl oc (arch_x86_64 oc parse_opcode L) G M) w"
    and "length (w_history w) \<le> 65536" and "u \<in> set (w_unwinders w)" and "c \<in> set (w_caches w)"
    and "take_frames oc (ops_x86_64 oc) (unwind_frame_impl oc (arch_x86_64 oc parse_opcode L) G M) u rd (Suc n) (new_iterator pc regs c) =
      Val (InstructionPointer pc # map ReturnAddress ras, fin)"
    and "\<forall>fa \<in> set (butlast (InstructionPointer pc # map ReturnAddress ras)). legal fa \<and> regular_row_at_x86_64 oc G u fa (row_of fa)"
    and "low_stack rd"
  shows "walks (cfi_caller_x86_64 row_of ev rd) (InstructionPointer pc) regs ras"
  by (rule cfi_iteration_x86_64 [OF shared_caches_agree [OF assms(1-4)] assms(5-7)])

theorem iteration_follows_cfi_x86_64_witness:
  "walks (cfi_caller_x86_64 (\<lambda>_. one_row_x86_64) no_expressions [0x48 \<mapsto> 0x2000]) (InstructionPointer 0x1008) (new_regs 0x1008 0x10 0x20) [0x2000]"
proof -
  let ?A = "arch_x86_64 False (\<lambda>_. OpcodeX86_64.FrameBased) example_pe_lib :: (DwarfRegX86_64, unit, unit, _, _, unit, unit) ArchUnwinding"
  let ?rd = "[0x48 \<mapsto> 0x2000] :: stack_reader"
  have t: "take_frames False (ops_x86_64 False) (unwind_frame_impl False ?A (one_row_gimli one_row_x86_64) example_unwind_info)
      \<lparr>modules = [one_row_module], modules_generation = 1\<rparr> ?rd (Suc 2) (new_iterator 0x1008 (new_regs 0x1008 0x10 0x20) new_rule_cache) =
      Val (InstructionPointer 0x1008 # map ReturnAddress [0x2000], Some (Err (CouldNotReadStack 0x88)))"
    using one_row_iteration [of ?A, OF translated_frame_x86_64 [OF one_row_x86_64_rule], of ?rd] one_row_walk_x86_64
    by (simp add: arch_x86_64_def one_row_unwinder_def)
  have row: "regular_row_at_x86_64 False (one_row_gimli one_row_x86_64) \<lparr>modules = [one_row_module], modules_generation = 1\<rparr>
      (InstructionPointer 0x1008) one_row_x86_64"
    using one_row_lookup(1) one_row_found(1) [of one_row_x86_64] one_row_x86_64_rule
    by (auto simp: regular_row_at_x86_64_def lookup_address_def one_row_unwinder_def aligned_row_x86_64_def one_row_x86_64_def)
  show ?thesis
    by (rule iteration_follows_cfi_x86_64 [OF one_module_world_reachable [of "\<lambda>_. True" _ _ _ one_row_module] _ _ _ t])
       (use row in \<open>simp_all add: one_module_world_def low_stack_def\<close>)
qed

text \<open>
  C6: The same on aarch64, where the return addresses are those that the rows give, without their authentication bits.  The
  registers are saved below the CFA, the row of a caller says how to recover the frame pointer, and the stack pointer
  of the first frame is in the lower half of the address space, too.
\<close>

theorem iteration_follows_cfi_aarch64:
  assumes "reachable legal oc (ops_aarch64 oc) (unwind_frame_impl oc (arch_aarch64 oc parse_opcode) G M) w"
    and "length (w_history w) \<le> 65536" and "u \<in> set (w_unwinders w)" and "c \<in> set (w_caches w)"
    and "take_frames oc (ops_aarch64 oc) (unwind_frame_impl oc (arch_aarch64 oc parse_opcode) G M) u rd (Suc n) (new_iterator pc regs c) =
      Val (InstructionPointer pc # map ReturnAddress ras, fin)"
    and "\<forall>fa \<in> set (butlast (InstructionPointer pc # map ReturnAddress ras)). legal fa \<and> regular_row_at_aarch64 oc G u fa (row_of fa)"
    and "low_stack rd" and "low_sp regs"
  shows "walks (cfi_caller_aarch64 row_of ev rd) (InstructionPointer pc) regs ras"
  by (rule cfi_iteration_aarch64 [OF shared_caches_agree [OF assms(1-4)] assms(5-8)])

theorem iteration_follows_cfi_aarch64_witness:
  "walks (cfi_caller_aarch64 (\<lambda>_. example_row_aarch64) no_expressions [0x20 \<mapsto> 0x40, 0x28 \<mapsto> 0x2000]) (InstructionPointer 0x1008)
     (new_regs_aarch64 0x1008 0x10 0x20) [0x2000]"
proof -
  let ?A = "arch_aarch64 False (\<lambda>_. OpcodeArm64.FrameBased) :: (DwarfRegAarch64, unit, unit, _, _, unit, unit) ArchUnwinding"
  let ?rd = "[0x20 \<mapsto> 0x40, 0x28 \<mapsto> 0x2000] :: stack_reader"
  have t: "take_frames False (ops_aarch64 False) (unwind_frame_impl False ?A (one_row_gimli example_row_aarch64) example_unwind_info)
      \<lparr>modules = [one_row_module], modules_generation = 1\<rparr> ?rd (Suc 2) (new_iterator 0x1008 (new_regs_aarch64 0x1008 0x10 0x20) new_rule_cache) =
      Val (InstructionPointer 0x1008 # map ReturnAddress [0x2000], Some (Err (CouldNotReadStack 0x48)))"
    using one_row_iteration [of ?A, OF translated_frame_aarch64 [OF example_row_aarch64_rule], of ?rd] one_row_walk_aarch64
    by (simp add: arch_aarch64_def one_row_unwinder_def)
  have row: "regular_row_at_aarch64 False (one_row_gimli example_row_aarch64) \<lparr>modules = [one_row_module], modules_generation = 1\<rparr>
      (InstructionPointer 0x1008) example_row_aarch64"
    using one_row_lookup(1) one_row_found(1) [of example_row_aarch64] example_row_aarch64_rule
    by (auto simp: regular_row_at_aarch64_def lookup_address_def one_row_unwinder_def aligned_row_aarch64_def example_row_aarch64_def)
  show ?thesis
    by (rule iteration_follows_cfi_aarch64 [OF one_module_world_reachable [of "\<lambda>_. True" _ _ _ one_row_module] _ _ _ t])
       (use row in \<open>simp_all add: one_module_world_def low_stack_def low_sp_def new_regs_aarch64_def\<close>)
qed

text \<open>
  C7: Cached unwinding follows the compact unwind info, on every architecture.  Unwinding a frame in a module with compact unwind
  info executes exactly the rule that the compact unwind info gives for the address and for this kind of frame, first frame
  or caller, or the fallback rule where it gives none, whichever unwinder of the process and whichever shared cache is used
  and whatever was cached before, as long as at most 65536 generations were drawn and no instruction pointer is one byte
  before a return address.  Left out are the addresses for which the compact unwind info refers to DWARF.
\<close>

theorem cached_unwind_executes_compact_rule:
  assumes "reachable legal oc (arch_rule A) (unwind_frame_impl oc A G M) w"
    and "length (w_history w) \<le> 65536" and "u \<in> set (w_unwinders w)" and "c \<in> set (w_caches w)"
    and "legal fa" and "wf_frame_address fa" and "unambiguous legal"
    and "find_module_for_address (lookup_address fa) u = Val (Some (i, rel))" and "i < length (modules u)"
    and "compact_rule_at oc A M (modules u ! i) rel (\<not> is_return_address fa) = Some rule"
    and "unwind_frame oc A G M u fa regs c rd = Val (regs', c', res)"
  shows "op_exec (arch_rule A) rule (\<not> is_return_address fa) regs rd = Val (regs', res)"
  using assms by (rule cached_unwind_compact)

lemma example_compact_rule:
  "compact_rule_at False (arch_aarch64 False (\<lambda>_. OpcodeArm64.FrameBased) :: (DwarfRegAarch64, unit, unit, _, _, unit, unit) ArchUnwinding)
     example_unwind_info example_module 8 True = Some UnwindRuleAarch64.UseFramePointer"
  by (simp add: compact_rule_at_def example_module_def explicit_unwind_data_def example_sections_def new_cui_unwinder_def
      relative_range_def arch_aarch64_def macho_aarch64_def compact_unwind_frame_def in_u32_range_def function_for_address_def
      example_unwind_info_def compact_frame_aarch64_def function_bytes_def text_bytes_for_module_def slice_get_def
      rule_for_opcode_aarch64_def u64_to_u32_def explicit_text_data_def text_data_of_def checked_sub_def)

theorem cached_unwind_executes_compact_rule_witness:
  "\<exists>regs' c' res. unwind_frame False (arch_aarch64 False (\<lambda>_. OpcodeArm64.FrameBased)) example_gimli example_unwind_info
      example_unwinder (InstructionPointer 0x1008) (new_regs_aarch64 0x1008 0x10 0x20) new_rule_cache (\<lambda>a. Some (a + 1)) = Val (regs', c', res) \<and>
    exec_aarch64 False UnwindRuleAarch64.UseFramePointer True (new_regs_aarch64 0x1008 0x10 0x20) (\<lambda>a. Some (a + 1)) = Val (regs', res)"
proof -
  let ?A = "arch_aarch64 False (\<lambda>_. OpcodeArm64.FrameBased) :: (DwarfRegAarch64, unit, unit, _, _, unit, unit) ArchUnwinding"
  let ?cb = "unwind_frame_impl False ?A example_gimli example_unwind_info"
  let ?fa = "InstructionPointer 0x1008" and ?regs = "new_regs_aarch64 0x1008 0x10 0x20" and ?rd = "\<lambda>a. Some (a + 1) :: u64 option"
  have "\<forall>m \<in> set (modules example_unwinder). data_ok (\<lambda>_. True) (unwind_data m)"
    using made_by_ok example_unwinder_ok(2) pe_data_True by blast
  from a64_arch.impl_safe [OF example_gimli_ok(1) lookup_in_range_example this]
  have cb: "callback_safe (\<lambda>_. True) ?cb (modules example_unwinder)" .
  obtain regs' c' res where w: "unwind_frame False ?A example_gimli example_unwind_info example_unwinder ?fa ?regs new_rule_cache ?rd =
      Val (regs', c', res)"
    using a64_release.with_cache_safe [OF example_unwinder_ok(1) cb cache_ok_new, of ?fa ?regs ?rd]
    by (auto simp: unwind_frame_def arch_aarch64_def)
  have f: "find_module_for_address 0x1008 example_unwinder = Val (Some (0, 8))"
  proof -
    have "find_module_for_address 0x1008 \<lparr>modules = [\<lparr>mod_name = ''example'', avma_range = (0x1000, 0x5000), base_avma = 0x1000,
        base_svma = 0x100000000, unwind_data = d\<rparr>], modules_generation = 1\<rparr> = Val (Some (0, 8))" for d :: ModuleUnwindDataInternal
      by code_simp
    then show ?thesis by (simp add: example_unwinder_def example_module_def)
  qed
  have "op_exec (arch_rule ?A) UnwindRuleAarch64.UseFramePointer (\<not> is_return_address ?fa) ?regs ?rd = Val (regs', res)"
    by (rule cached_unwind_executes_compact_rule [OF one_module_world_reachable [of aligned_frame _ _ _ example_module] _ _ _ _ _
          aligned_unambiguous _ _ _ w, where i = 0 and rel = 8])
       (use f example_compact_rule in \<open>simp_all add: one_module_world_def example_unwinder_def aligned_frame_def lookup_address_def\<close>)
  with w show ?thesis by (auto simp: arch_aarch64_def)
qed

text \<open>
  C8: A whole iteration executes the rules of its frames.  Take the walk over the stack that executes, frame by frame, the rule
  for the frame's code address, with neither a cache nor modules.  If at every frame of the walk the rule is the one that the
  modules give, for all frames with the same lookup address, then the iterator yields exactly the frames of the walk and ends
  as it does, whichever unwinder of the process and whichever shared cache is used and whatever was cached before, as long as
  at most 65536 generations were drawn.  In a build with overflow checks, the statistics of the cache must have room for
  counting the frames.
\<close>

theorem iteration_executes_rules:
  assumes "reachable legal oc ops callback w" and "length (w_history w) \<le> 65536"
    and "u \<in> set (w_unwinders w)" and "c \<in> set (w_caches w)"
    and "walk_rules ops rule_of rd n (InstructionPointer pc) regs = Val (fas, fin)"
    and "\<forall>fa \<in> insert (InstructionPointer pc) (set fas). rule_at legal ops callback u fa (rule_of fa)"
    and "room oc' c n"
  shows "take_frames oc' ops callback u rd (Suc n) (new_iterator pc regs c) = Val (InstructionPointer pc # fas, fin)"
  by (rule iteration_walk [OF shared_caches_agree [OF assms(1-4)] assms(5-7)])

text \<open>A stack with two frame records.\<close>

definition example_stack :: stack_reader where
  "example_stack = [0x100 \<mapsto> 0x200, 0x108 \<mapsto> 0xAB00000000001111, 0x200 \<mapsto> 0, 0x208 \<mapsto> 0x2222]"

lemma no_module_found: "find_module_for_address a \<lparr>modules = [], modules_generation = g\<rparr> = Val None"
  by (simp add: find_module_for_address_def binary_search_def)

theorem iteration_executes_rules_witness:
  "take_frames False (ops_x86_64 False)
     (unwind_frame_impl False (arch_x86_64 False (\<lambda>_. OpcodeX86_64.FrameBased) example_pe_lib) example_gimli example_unwind_info)
     \<lparr>modules = [], modules_generation = 0\<rparr> example_stack (Suc 3) (new_iterator 0x1008 (new_regs 0x1008 0x80 0x100) new_rule_cache) =
   Val (InstructionPointer 0x1008 # [ReturnAddress 0xAB00000000001111, ReturnAddress 0x2222], Some (Ok ()))"
proof -
  let ?u = "\<lparr>modules = [], modules_generation = 0\<rparr> :: ModuleUnwindDataInternal UnwinderInternal"
  have "chain_x86_64 example_stack 0x80 0x100 [0xAB00000000001111, 0x2222]" by (simp add: example_stack_def)
  then have w: "walk_rules (ops_x86_64 False) (\<lambda>_. UnwindRuleX86_64.UseFramePointer) example_stack 3 (InstructionPointer 0x1008)
      (new_regs 0x1008 0x80 0x100) = Val ([ReturnAddress 0xAB00000000001111, ReturnAddress 0x2222], Some (Ok ()))"
    using x86_frames.walk_chain [of example_stack "new_regs 0x1008 0x80 0x100" "[0xAB00000000001111, 0x2222]" False "InstructionPointer 0x1008"]
    by (simp add: fallback_rule_x86_64_def numeral_3_eq_3)
  have r: "rule_at (\<lambda>_. True) (ops_x86_64 False) callback ?u fa UnwindRuleX86_64.UseFramePointer" for callback :: "(_, _, _, 'e) frame_callback" and fa
    using rule_at_no_module [of "\<lambda>_. True" fa ?u "ops_x86_64 False" callback] by (simp add: no_module_found fallback_rule_x86_64_def)
  show ?thesis
    by (rule iteration_executes_rules [OF example_world_reachable [of "\<lambda>_. True" False] _ _ _ w]) (simp_all add: example_world_def r)
qed

text \<open>
  C9: On x86_64 the frames of a stack with frame pointers are exactly its return addresses.  If the base pointer starts a chain
  of frame records, each with the caller's base pointer and, above it, a return address that is not null, each above the
  stack pointer of its frame, and ended by a null base pointer, and none of the code addresses is in a module, then
  the iterator yields the instruction pointer and the return addresses of the chain, in order, and then the end of the stack,
  in builds with and without overflow checks; with them the statistics of the cache must have room for counting the frames.
\<close>

theorem frame_pointer_stack_x86_64:
  assumes "reachable legal oc (ops_x86_64 oc) (unwind_frame_impl oc (arch_x86_64 oc parse_opcode L) G M) w"
    and "length (w_history w) \<le> 65536" and "u \<in> set (w_unwinders w)" and "c \<in> set (w_caches w)"
    and "chain_x86_64 rd (sp regs) (bp regs) ras"
    and "\<forall>fa \<in> insert (InstructionPointer pc) (ReturnAddress ` set ras). legal fa \<and> find_module_for_address (lookup_address fa) u = Val None"
    and "room oc c (Suc (length ras))"
  shows "take_frames oc (ops_x86_64 oc) (unwind_frame_impl oc (arch_x86_64 oc parse_opcode L) G M) u rd
    (Suc (Suc (length ras))) (new_iterator pc regs c) = Val (InstructionPointer pc # map ReturnAddress ras, Some (Ok ()))"
  by (rule x86_frames.iteration_chain [OF shared_caches_agree [OF assms(1-4)] assms(5-7)])

theorem frame_pointer_stack_x86_64_witness:
  "take_frames True (ops_x86_64 True)
     (unwind_frame_impl True (arch_x86_64 True (\<lambda>_. OpcodeX86_64.FrameBased) example_pe_lib) example_gimli example_unwind_info)
     \<lparr>modules = [], modules_generation = 0\<rparr> example_stack (Suc (Suc (length [0xAB00000000001111 :: u64, 0x2222])))
     (new_iterator 0x1008 (new_regs 0x1008 0x80 0x100) new_rule_cache) =
   Val (InstructionPointer 0x1008 # map ReturnAddress [0xAB00000000001111, 0x2222], Some (Ok ()))"
  by (rule frame_pointer_stack_x86_64 [OF example_world_reachable [of "\<lambda>_. True" True]])
     (simp_all add: example_world_def example_stack_def no_module_found)

text \<open>
  C10: The same on aarch64: the frames are the return addresses of the frame records, without their authentication bits, up to
  the record that has a null frame pointer.
\<close>

theorem frame_pointer_stack_aarch64:
  assumes "reachable legal oc (ops_aarch64 oc) (unwind_frame_impl oc (arch_aarch64 oc parse_opcode) G M) w"
    and "length (w_history w) \<le> 65536" and "u \<in> set (w_unwinders w)" and "c \<in> set (w_caches w)"
    and "chain_aarch64 rd (lr_mask regs) (a64_sp regs) (a64_fp regs) ras"
    and "\<forall>fa \<in> insert (InstructionPointer pc) (ReturnAddress ` set ras). legal fa \<and> find_module_for_address (lookup_address fa) u = Val None"
    and "room oc c (Suc (length ras))"
  shows "take_frames oc (ops_aarch64 oc) (unwind_frame_impl oc (arch_aarch64 oc parse_opcode) G M) u rd
    (Suc (Suc (length ras))) (new_iterator pc regs c) = Val (InstructionPointer pc # map ReturnAddress ras, Some (Ok ()))"
  by (rule a64_frames.iteration_chain [OF shared_caches_agree [OF assms(1-4)] assms(5-7)])

lemma example_stripped: "strip_ptr_auth new_24_40 0xAB00000000001111 = 0x1111"
  unfolding strip_ptr_auth_def new_24_40_def by code_simp

theorem frame_pointer_stack_aarch64_witness:
  "take_frames True (ops_aarch64 True)
     (unwind_frame_impl True (arch_aarch64 True (\<lambda>_. OpcodeArm64.FrameBased)) example_gimli example_unwind_info)
     \<lparr>modules = [], modules_generation = 0\<rparr> example_stack (Suc (Suc (length [0x1111 :: u64])))
     (new_iterator 0x1008 (new_with_ptr_auth_mask new_24_40 0x1000 0x80 0x100) new_rule_cache) =
   Val (InstructionPointer 0x1008 # map ReturnAddress [0x1111], Some (Ok ()))"
  by (rule frame_pointer_stack_aarch64 [OF example_world_reachable [of "\<lambda>_. True" True]])
     (simp_all add: example_world_def example_stack_def no_module_found new_with_ptr_auth_mask_def example_stripped)

text \<open>
  C37: A failure to unwind a frame from the unwind data of its module is remembered: the fallback rule is executed and stored
  for the code address, so that with these modules every later frame at this address is unwound by the fallback rule,
  even when its unwinding would not fail.
\<close>

theorem failure_is_cached:
  assumes "wf_cache c" and "wf_frame_address fa" and "cached c (lookup_address fa) (modules_generation u) = None"
    and "find_module_for_address (lookup_address fa) u = Val (Some (i, rel))" and "i < length (modules u)"
    and "callback (modules u ! i) fa rel regs rd = Val (regs1, Err e)"
    and "with_cache oc ops callback u fa regs c rd = Val (regs', c', res)"
  shows "op_exec ops (op_fallback_rule ops) (\<not> is_return_address fa) regs1 rd = Val (regs', res) \<and>
    cached c' (lookup_address fa) (modules_generation u) = Some (op_fallback_rule ops)"
proof -
  have m: "rule_on_miss ops callback u fa (lookup_address fa) regs rd = Val (regs1, Continue (op_fallback_rule ops))"
    using assms(4-6) by (simp add: rule_on_miss_def vec_index_def)
  from assms(1,2,7) show ?thesis by (cases rule: with_cache_Val) (use m assms(3) in simp_all)
qed

definition example_bare_unwinder :: "ModuleUnwindDataInternal UnwinderInternal" where
  "example_bare_unwinder = \<lparr>modules = [\<lparr>mod_name = ''bare'', avma_range = (0x1000, 0x5000), base_avma = 0x1000, base_svma = 0,
     unwind_data = NoUnwindData\<rparr>], modules_generation = 1\<rparr>"

theorem failure_is_cached_witness:
  "\<exists>regs' c' res. with_cache False (ops_x86_64 False)
      (unwind_frame_impl False (arch_x86_64 False (\<lambda>_. OpcodeX86_64.FrameBased) example_pe_lib) example_gimli example_unwind_info)
      example_bare_unwinder (InstructionPointer 0x1008) (new_regs 0x1008 0x10 0x20) new_rule_cache (\<lambda>a. Some (a + 1)) =
      Val (regs', c', res) \<and>
    cached c' 0x1008 1 = Some UnwindRuleX86_64.UseFramePointer"
proof -
  let ?cb = "unwind_frame_impl False (arch_x86_64 False (\<lambda>_. OpcodeX86_64.FrameBased) example_pe_lib) example_gimli example_unwind_info"
  let ?u = example_bare_unwinder and ?fa = "InstructionPointer 0x1008" and ?regs = "new_regs 0x1008 0x10 0x20"
  let ?rd = "\<lambda>a. Some (a + 1) :: u64 option"
  have cb: "?cb (modules ?u ! 0) ?fa 8 ?regs ?rd = Val (?regs, Err NoModuleUnwindData)"
    by (simp add: example_bare_unwinder_def unwind_frame_impl_def)
  have f: "find_module_for_address (lookup_address ?fa) ?u = Val (Some (0, 8))"
    by (simp add: example_bare_unwinder_def lookup_address_def) code_simp
  obtain regs' c' res where w: "with_cache False (ops_x86_64 False) ?cb ?u ?fa ?regs new_rule_cache ?rd = Val (regs', c', res)"
    using x86_release.with_cache_safe [of ?u ?cb new_rule_cache ?fa ?regs ?rd]
    by (auto simp: modules_sorted_def callback_safe_def example_bare_unwinder_def unwind_frame_impl_def)
  have "cached c' (lookup_address ?fa) (modules_generation ?u) = Some (op_fallback_rule (ops_x86_64 False))"
    using failure_is_cached [OF wf_new_rule_cache _ cached_new f _ cb w] by (simp add: example_bare_unwinder_def)
  with w show ?thesis by (auto simp: lookup_address_def example_bare_unwinder_def fallback_rule_x86_64_def)
qed

end
